(* ===== verification/Prelude.thy ===== *)
theory Prelude
  imports Main "HOL-Library.Word" "HOL-Library.Sublist"
begin

text \<open>
  What every theory of the development shares: the names of the machine types, the result
  type of a Go function that returns \<open>(value, error)\<close>, and the functions of Go's
  \<open>strings\<close> and \<open>strconv\<close> packages the program calls, on byte strings
  (\<^typ>\<open>char list\<close>, one \<^typ>\<open>char\<close> per byte, as a Go string is a byte sequence).
  The facts that the component proofs feed to the simplifier are collected in the named
  collections below.
\<close>

named_theorems go_result \<open>case analysis of the results of fallible functions\<close>
named_theorems go_string \<open>rewrite rules for the string functions\<close>

section \<open>Machine types\<close>

type_synonym byte = "8 word"
type_synonym int64 = "64 word"

abbreviation byte_of_char :: "char \<Rightarrow> byte" where
  "byte_of_char c \<equiv> of_char c"

abbreviation char_of_byte :: "byte \<Rightarrow> char" where
  "char_of_byte b \<equiv> char_of (unat b)"

text \<open>A Go string as the bytes written to a connection, and back.\<close>

definition bytes_of_string :: "string \<Rightarrow> byte list" where
  "bytes_of_string s = map byte_of_char s"

definition string_of_bytes :: "byte list \<Rightarrow> string" where
  "string_of_bytes bs = map char_of_byte bs"

lemma char_of_byte_of_char [simp]: "char_of_byte (byte_of_char c) = c"
proof -
  have "(of_char c :: nat) < 256"
    by simp
  moreover have "byte_of_char c = of_nat (of_char c)"
    by (simp add: of_nat_of_char)
  ultimately have "unat (byte_of_char c) = (of_char c :: nat)"
    by (simp add: unat_of_nat take_bit_eq_mod del: of_nat_of_char)
  then show ?thesis by simp
qed

lemma string_of_bytes_of_string [simp]: "string_of_bytes (bytes_of_string s) = s"
  by (simp add: string_of_bytes_def bytes_of_string_def comp_def map_idI)

lemma length_bytes_of_string [simp]: "length (bytes_of_string s) = length s"
  by (simp add: bytes_of_string_def)

section \<open>Results\<close>

text \<open>
  \<open>Inl e\<close> is a non-nil error, \<open>Inr v\<close> a value with a nil error. \<open>andthen\<close> is the
  \<open>if err != nil { return err }\<close> that follows a call.
\<close>

fun andthen :: "'e + 'a \<Rightarrow> ('a \<Rightarrow> 'e + 'b) \<Rightarrow> 'e + 'b" where
  "andthen (Inl e) f = Inl e"
| "andthen (Inr x) f = f x"

lemma andthen_eq_Inr [go_result]:
  "andthen r f = Inr y \<longleftrightarrow> (\<exists>x. r = Inr x \<and> f x = Inr y)"
  by (cases r) auto

lemma andthen_eq_Inl [go_result]:
  "andthen r f = Inl e \<longleftrightarrow> r = Inl e \<or> (\<exists>x. r = Inr x \<and> f x = Inl e)"
  by (cases r) auto

fun ok :: "'e + 'a \<Rightarrow> bool" where
  "ok (Inl e) = False"
| "ok (Inr x) = True"

lemma ok_andthen [go_result]: "ok (andthen r f) \<longleftrightarrow> (\<exists>x. r = Inr x \<and> ok (f x))"
  by (cases r) auto

lemma ok_iff [go_result]: "ok r \<longleftrightarrow> (\<exists>x. r = Inr x)"
  by (cases r) auto

end
