(* ===== verification/GoStrings.thy ===== *)
theory GoStrings
  imports Prelude
begin

text \<open>
  The functions of Go's \<open>strings\<close>, \<open>strconv\<close> and \<open>net\<close> packages that the program calls on
  strings: prefixes and suffixes, \<open>Cut\<close>, \<open>Split\<close>, \<open>Contains\<close>, \<open>ToLower\<close>, \<open>EqualFold\<close>,
  \<open>Itoa\<close>, \<open>Atoi\<close>, \<open>JoinHostPort\<close> and \<open>SplitHostPort\<close>, and the UTF-8 decoding of a
  \<open>range\<close> over a string.
  \<open>strings.ToLower\<close> of a string with bytes above 127 depends on the Unicode case tables,
  which the definitions take as the parameter \<open>uni\<close>; on ASCII strings it is exact.
\<close>

section \<open>Characters\<close>

abbreviation code :: "char \<Rightarrow> nat" where
  "code c \<equiv> of_char c"

definition is_digit :: "char \<Rightarrow> bool" where
  "is_digit c \<longleftrightarrow> 48 \<le> code c \<and> code c \<le> 57"

definition lower_char :: "char \<Rightarrow> char" where
  "lower_char c = (if 65 \<le> code c \<and> code c \<le> 90 then char_of (code c + 32) else c)"

definition is_ascii :: "string \<Rightarrow> bool" where
  "is_ascii s \<longleftrightarrow> list_all (\<lambda>c. code c < 128) s"

lemma code_lower_char:
  "code (lower_char c) = (if 65 \<le> code c \<and> code c \<le> 90 then code c + 32 else code c)"
  by (simp add: lower_char_def)

lemma lower_char_idem [simp]: "lower_char (lower_char c) = lower_char c"
  by (simp add: lower_char_def)

section \<open>The strings package\<close>

definition to_lower :: "(string \<Rightarrow> string) \<Rightarrow> string \<Rightarrow> string" where
  "to_lower uni s = (if is_ascii s then map lower_char s else uni s)"

definition has_prefix :: "string \<Rightarrow> string \<Rightarrow> bool" where
  "has_prefix s p \<longleftrightarrow> take (length p) s = p"

definition has_suffix :: "string \<Rightarrow> string \<Rightarrow> bool" where
  "has_suffix s t \<longleftrightarrow> length t \<le> length s \<and> drop (length s - length t) s = t"

definition trim_prefix :: "string \<Rightarrow> string \<Rightarrow> string" where
  "trim_prefix s p = (if has_prefix s p then drop (length p) s else s)"

definition trim_suffix :: "string \<Rightarrow> string \<Rightarrow> string" where
  "trim_suffix s t = (if has_suffix s t then take (length s - length t) s else s)"

fun contains :: "string \<Rightarrow> string \<Rightarrow> bool" where
  "contains s sub =
     (has_prefix s sub \<or> (case s of [] \<Rightarrow> False | _ # t \<Rightarrow> contains t sub))"

declare contains.simps [simp del]

text \<open>\<open>strings.Cut\<close> at the first occurrence of a one-byte separator.\<close>

fun cut :: "char \<Rightarrow> string \<Rightarrow> (string \<times> string) option" where
  "cut c [] = None"
| "cut c (x # s) = (if x = c then Some ([], s) else map_option (\<lambda>(a, b). (x # a, b)) (cut c s))"

text \<open>Cut at the last occurrence (\<open>LastIndexByte\<close>).\<close>

definition cut_last :: "char \<Rightarrow> string \<Rightarrow> (string \<times> string) option" where
  "cut_last c s = map_option (\<lambda>(a, b). (rev b, rev a)) (cut c (rev s))"

text \<open>\<open>strings.Split\<close> with a one-byte separator.\<close>

fun split_on :: "char \<Rightarrow> string \<Rightarrow> string list" where
  "split_on c [] = [[]]"
| "split_on c (x # xs) =
     (if x = c then [] # split_on c xs
      else (case split_on c xs of [] \<Rightarrow> [[x]] | w # ws \<Rightarrow> (x # w) # ws))"

fun join_with :: "string \<Rightarrow> string list \<Rightarrow> string" where
  "join_with sep [] = []"
| "join_with sep [w] = w"
| "join_with sep (w # ws) = w @ sep @ join_with sep ws"

text \<open>
  \<open>strings.EqualFold\<close> against an ASCII string without the letters k and s: those two are
  the only ASCII letters with a non-ASCII simple case folding, so byte-wise folding is exact.
\<close>

definition equal_fold :: "string \<Rightarrow> string \<Rightarrow> bool" where
  "equal_fold s t \<longleftrightarrow> map lower_char s = map lower_char t"

lemma has_prefix_iff [go_string]: "has_prefix s p \<longleftrightarrow> (\<exists>r. s = p @ r)"
  by (metis append_eq_conv_conj append_take_drop_id has_prefix_def)

lemma has_suffix_iff [go_string]: "has_suffix s t \<longleftrightarrow> (\<exists>r. s = r @ t)"
proof
  assume "has_suffix s t"
  then show "\<exists>r. s = r @ t"
    unfolding has_suffix_def by (metis append_take_drop_id)
next
  assume "\<exists>r. s = r @ t"
  then show "has_suffix s t"
    by (auto simp: has_suffix_def)
qed

lemma contains_iff [go_string]: "contains s sub \<longleftrightarrow> (\<exists>a b. s = a @ sub @ b)"
proof (induction s)
  case Nil
  show ?case by (auto simp: contains.simps [of "[]"] has_prefix_iff)
next
  case (Cons x s)
  have "contains (x # s) sub \<longleftrightarrow> (\<exists>b. x # s = sub @ b) \<or> (\<exists>a b. s = a @ sub @ b)"
    using Cons.IH by (subst contains.simps) (simp add: has_prefix_iff)
  also have "\<dots> \<longleftrightarrow> (\<exists>a b. x # s = a @ sub @ b)"
    by (metis append_Cons append_Nil append_eq_Cons_conv)
  finally show ?case .
qed

lemma cut_Some [go_string]: "cut c s = Some (a, b) \<longleftrightarrow> s = a @ c # b \<and> c \<notin> set a"
proof (induction s arbitrary: a)
  case (Cons x s)
  then show ?case by (cases a) auto
qed simp

lemma cut_None [go_string]: "cut c s = None \<longleftrightarrow> c \<notin> set s"
  by (induction s) auto

lemma cut_last_Some [go_string]:
  "cut_last c s = Some (a, b) \<longleftrightarrow> s = a @ c # b \<and> c \<notin> set b"
proof -
  have "cut_last c s = Some (a, b) \<longleftrightarrow> cut c (rev s) = Some (rev b, rev a)"
    by (auto simp: cut_last_def)
  also have "\<dots> \<longleftrightarrow> s = a @ c # b \<and> c \<notin> set b"
    by (auto simp: cut_Some rev_swap)
  finally show ?thesis .
qed

lemma cut_last_None [go_string]: "cut_last c s = None \<longleftrightarrow> c \<notin> set s"
  by (simp add: cut_last_def cut_None)

lemma split_on_nonempty [simp]: "split_on c s \<noteq> []"
  by (cases "(c, s)" rule: split_on.cases) (auto split: list.splits)

lemma split_on_no_sep: "c \<notin> set s \<Longrightarrow> split_on c s = [s]"
  by (induction s) auto

lemma split_on_append: "c \<notin> set a \<Longrightarrow> split_on c (a @ c # s) = a # split_on c s"
  by (induction a) auto

lemma trim_suffix_dot [simp]: "c \<noteq> d \<Longrightarrow> trim_suffix (s @ [c]) [d] = s @ [c]"
  by (simp add: trim_suffix_def has_suffix_def)

section \<open>UTF-8\<close>

definition rune_error :: nat where
  "rune_error = 0xFFFD"

definition cont_byte :: "char \<Rightarrow> bool" where
  "cont_byte c \<longleftrightarrow> 0x80 \<le> code c \<and> code c \<le> 0xBF"

text \<open>\<open>utf8.DecodeRuneInString\<close>: the rune and the number of bytes it takes.\<close>

definition decode_rune :: "string \<Rightarrow> nat \<times> nat" where
  "decode_rune s = (case s of
      [] \<Rightarrow> (rune_error, 0)
    | c0 # t \<Rightarrow>
        (let b0 = code c0; bad = (rune_error, 1) in
         if b0 < 0x80 then (b0, 1)
         else if 0xC2 \<le> b0 \<and> b0 \<le> 0xDF then
           (case t of c1 # _ \<Rightarrow> if cont_byte c1 then ((b0 - 0xC0) * 64 + (code c1 - 0x80), 2) else bad
            | [] \<Rightarrow> bad)
         else if 0xE0 \<le> b0 \<and> b0 \<le> 0xEF then
           (case t of
              c1 # c2 # _ \<Rightarrow>
                if (if b0 = 0xE0 then 0xA0 else 0x80) \<le> code c1 \<and>
                   code c1 \<le> (if b0 = 0xED then 0x9F else 0xBF) \<and> cont_byte c2
                then ((b0 - 0xE0) * 4096 + (code c1 - 0x80) * 64 + (code c2 - 0x80), 3)
                else bad
            | _ \<Rightarrow> bad)
         else if 0xF0 \<le> b0 \<and> b0 \<le> 0xF4 then
           (case t of
              c1 # c2 # c3 # _ \<Rightarrow>
                if (if b0 = 0xF0 then 0x90 else 0x80) \<le> code c1 \<and>
                   code c1 \<le> (if b0 = 0xF4 then 0x8F else 0xBF) \<and> cont_byte c2 \<and> cont_byte c3
                then ((b0 - 0xF0) * 262144 + (code c1 - 0x80) * 4096 +
                      (code c2 - 0x80) * 64 + (code c3 - 0x80), 4)
                else bad
            | _ \<Rightarrow> bad)
         else bad))"

lemma decode_rune_Nil [simp]: "decode_rune [] = (rune_error, 0)"
  by (simp add: decode_rune_def)

lemma decode_rune_ascii [simp]: "code c < 128 \<Longrightarrow> decode_rune (c # s) = (code c, 1)"
  by (simp add: decode_rune_def)

lemma decode_rune_pos: "0 < snd (decode_rune (c # s))"
  by (simp add: decode_rune_def Let_def split: list.splits)

lemma decode_rune_pos': "(r, w) = decode_rune (c # s) \<Longrightarrow> 0 < w"
  using decode_rune_pos [of c s] by (metis snd_conv)

text \<open>A decoded rune that is not the mark of an invalid byte, and what its bytes are.\<close>

definition rune_ok :: "nat \<Rightarrow> nat \<Rightarrow> bool" where
  "rune_ok r w \<longleftrightarrow> 0 < w \<and> (r = rune_error \<longrightarrow> w = 3)"

lemma decode_rune_cases:
  assumes "decode_rune s = (r, w)" "rune_ok r w"
  obtains (ascii) c t where "s = c # t" "code c < 128" "r = code c" "w = 1"
    | (two) a b t where "s = a # b # t" "w = 2" "\<And>u. decode_rune (a # b # u) = (r, w)"
        "128 \<le> code a" "128 \<le> code b" "128 \<le> r"
    | (three) a b c t where "s = a # b # c # t" "w = 3" "\<And>u. decode_rune (a # b # c # u) = (r, w)"
        "128 \<le> code a" "128 \<le> code b" "128 \<le> code c" "128 \<le> r"
    | (four) a b c d t where "s = a # b # c # d # t" "w = 4"
        "\<And>u. decode_rune (a # b # c # d # u) = (r, w)"
        "128 \<le> code a" "128 \<le> code b" "128 \<le> code c" "128 \<le> code d" "128 \<le> r"
proof -
  obtain x s' where s: "s = x # s'" using assms by (cases s) (auto simp: rune_ok_def)
  consider "code x < 128" | "0xC2 \<le> code x" "code x \<le> 0xDF" | "0xE0 \<le> code x" "code x \<le> 0xEF"
    | "0xF0 \<le> code x" "code x \<le> 0xF4" | "\<not> code x < 128" "\<not> (0xC2 \<le> code x \<and> code x \<le> 0xDF)"
      "\<not> (0xE0 \<le> code x \<and> code x \<le> 0xEF)" "\<not> (0xF0 \<le> code x \<and> code x \<le> 0xF4)" by linarith
  then show thesis
  proof cases
    case 1
    with assms s show ?thesis by (intro ascii) auto
  next
    case 2
    with assms s obtain y t where "s' = y # t" "cont_byte y" "r = (code x - 0xC0) * 64 + (code y - 0x80)" "w = 2"
      by (auto simp: decode_rune_def rune_ok_def Let_def split: list.splits if_splits)
    with 2 s show ?thesis
      by (intro two [of x y t]) (auto simp: decode_rune_def Let_def cont_byte_def)
  next
    case 3
    let ?P = "\<lambda>y. (if code x = 0xE0 then 0xA0 else 0x80) \<le> code y \<and> code y \<le> (if code x = 0xED then 0x9F else 0xBF)"
    from 3 assms s obtain y z t where *: "s' = y # z # t" "?P y" "cont_byte z"
       "r = (code x - 0xE0) * 4096 + (code y - 0x80) * 64 + (code z - 0x80)" "w = 3"
      by (auto simp: decode_rune_def rune_ok_def Let_def split: list.splits if_splits)
    moreover from * 3 have "128 \<le> code y" "128 \<le> code z" "128 \<le> r"
      by (auto simp: cont_byte_def split: if_splits)
    ultimately show ?thesis using 3 s
      by (intro three [of x y z t]) (auto simp: decode_rune_def Let_def)
  next
    case 4
    let ?P = "\<lambda>y. (if code x = 0xF0 then 0x90 else 0x80) \<le> code y \<and> code y \<le> (if code x = 0xF4 then 0x8F else 0xBF)"
    from 4 assms s obtain y z v t where *: "s' = y # z # v # t" "?P y" "cont_byte z" "cont_byte v"
       "r = (code x - 0xF0) * 262144 + (code y - 0x80) * 4096 + (code z - 0x80) * 64 + (code v - 0x80)" "w = 4"
      by (auto simp: decode_rune_def rune_ok_def Let_def split: list.splits if_splits)
    moreover from * 4 have "128 \<le> code y" "128 \<le> code z" "128 \<le> code v" "128 \<le> r"
      by (auto simp: cont_byte_def split: if_splits)
    ultimately show ?thesis using 4 s
      by (intro four [of x y z v t]) (auto simp: decode_rune_def Let_def)
  next
    case 5
    with assms s have "r = rune_error" "w = 1" by (auto simp: decode_rune_def Let_def)
    with assms(2) show ?thesis by (simp add: rune_ok_def)
  qed
qed

lemma decode_rune_app:
  assumes "decode_rune s = (r, w)" "rune_ok r w"
  shows "decode_rune (take w s @ t) = (r, w)" "length (take w s) = w"
    "w = 1 \<and> (\<exists>c. take w s = [c] \<and> code c = r \<and> r < 128) \<or>
     1 < w \<and> 128 \<le> r \<and> list_all (\<lambda>c. 128 \<le> code c) (take w s)"
  by (cases rule: decode_rune_cases [OF assms]; simp)+

text \<open>\<open>utf8.ValidString\<close>\<close>

function utf8_valid :: "string \<Rightarrow> bool" where
  "utf8_valid [] = True"
| "utf8_valid (c # s) =
     (let (r, w) = decode_rune (c # s) in rune_ok r w \<and> utf8_valid (drop w (c # s)))"
  by pat_completeness auto
termination
  by (relation "measure length") (auto dest!: decode_rune_pos' simp: less_Suc_eq_le)

lemma utf8_valid_ascii: "is_ascii s \<Longrightarrow> utf8_valid s"
  by (induction s) (auto simp: is_ascii_def rune_ok_def rune_error_def)

lemma code_eq_iff: "code c = (code d :: nat) \<longleftrightarrow> c = d"
  by (metis char_of_char)

lemma code_eq_58: "code c = 58 \<longleftrightarrow> c = CHR '':''"
  using code_eq_iff [of c "CHR '':''"] by simp

lemma fffd_bytes:
  assumes "(a - 224) * 4096 + (b - 128) * 64 + c - 128 = 65533" "a \<le> 239" "b \<le> 191" "c \<le> 191" "128 \<le> c"
  shows "a = 239 \<and> b = 191 \<and> c = (189 :: nat)"
proof -
  define x y z where "x = a - 224" and "y = b - 128" and "z = c - 128"
  have xyz: "x * 4096 + y * 64 + z = 65533" "x \<le> 15" "y \<le> 63" "z \<le> 63"
    using assms by (simp_all add: x_def y_def z_def)
  then have "\<not> x \<le> 14" by linarith
  with xyz have x: "x = 15" by simp
  with xyz have "\<not> y \<le> 62" by linarith
  with xyz x have y: "y = 63" by simp
  with xyz x have "z = 61" by simp
  with x y assms(5) show ?thesis unfolding x_def y_def z_def by arith
qed

lemma decode_rune_error3:
  assumes "decode_rune s = (rune_error, 3)"
  shows "take 3 s = [CHR 0xEF, CHR 0xBF, CHR 0xBD]"
proof -
  have "rune_ok rune_error 3" by (simp add: rune_ok_def)
  from assms this show ?thesis
  proof (cases rule: decode_rune_cases)
    case (three a b c t)
    then have "decode_rune [a, b, c] = (rune_error, 3)" by simp
    then have "code a = 0xEF \<and> code b = 0xBF \<and> code c = (0xBD :: nat)"
      by (auto simp: decode_rune_def Let_def rune_error_def cont_byte_def split: if_splits
          dest!: fffd_bytes)
    then have "a = CHR 0xEF" "b = CHR 0xBF" "c = CHR 0xBD"
      using code_eq_iff [of a "CHR 0xEF"] code_eq_iff [of b "CHR 0xBF"] code_eq_iff [of c "CHR 0xBD"]
      by simp_all
    with three(1) show ?thesis by (simp add: eval_nat_numeral)
  qed auto
qed

section \<open>bufio.Scanner and the pieces of regular expressions\<close>

text \<open>
  The lines a \<open>bufio.Scanner\<close> returns: split at newlines, one trailing carriage return
  dropped; the scan stops for good at a line that does not fit its buffer of 64 KiB.
\<close>

definition max_token :: nat where
  "max_token = 65536"

definition scan_lines :: "string \<Rightarrow> string list" where
  "scan_lines s =
     (let ls = split_on (CHR 0x0A) s;
          ls' = (if last ls = [] then butlast ls else ls)
      in map (\<lambda>l. trim_suffix l [CHR 0x0D]) (takeWhile (\<lambda>l. length l < max_token) ls'))"

text \<open>
  \<open>\s\<close> of a regular expression; the text after a literal; the longest non-empty run of
  characters, for a repetition \<open>+\<close> that is followed by something it cannot match.
\<close>

definition is_space :: "char \<Rightarrow> bool" where
  "is_space c \<longleftrightarrow> code c \<in> {9, 10, 12, 13, 32}"

definition after_lit :: "string \<Rightarrow> string \<Rightarrow> string option" where
  "after_lit p s = (if has_prefix s p then Some (drop (length p) s) else None)"

definition run1 :: "(char \<Rightarrow> bool) \<Rightarrow> string \<Rightarrow> (string \<times> string) option" where
  "run1 P s = (if takeWhile P s = [] then None else Some (takeWhile P s, dropWhile P s))"

lemma split_on_lines:
  "list_all (\<lambda>l. CHR 0x0A \<notin> set l) ls \<Longrightarrow>
     split_on (CHR 0x0A) (concat (map (\<lambda>l. l @ [CHR 0x0A]) ls)) = ls @ [[]]"
  by (induction ls) (simp_all add: split_on_append)

lemma scan_lines_unlines:
  assumes "list_all (\<lambda>l. CHR 0x0A \<notin> set l \<and> (l = [] \<or> last l \<noteq> CHR 0x0D) \<and> length l < max_token) ls"
  shows "scan_lines (concat (map (\<lambda>l. l @ [CHR 0x0A]) ls)) = ls"
proof -
  have "trim_suffix l [CHR 0x0D] = l" if "l = [] \<or> last l \<noteq> CHR 0x0D" for l
  proof (cases l rule: rev_cases)
    case Nil
    then show ?thesis by (simp add: trim_suffix_def)
  next
    case (snoc k c)
    with that show ?thesis by simp
  qed
  then have mp: "map (\<lambda>l. trim_suffix l [CHR 0x0D]) ls = ls"
    using assms by (simp add: list_all_iff map_idI)
  have tw: "takeWhile (\<lambda>l. length l < max_token) ls = ls"
    using assms by (auto simp: takeWhile_eq_all_conv list_all_iff)
  have "list_all (\<lambda>l. CHR 0x0A \<notin> set l) ls" using assms by (auto simp: list_all_iff)
  then have "scan_lines (concat (map (\<lambda>l. l @ [CHR 0x0A]) ls))
      = map (\<lambda>l. trim_suffix l [CHR 0x0D]) (takeWhile (\<lambda>l. length l < max_token) ls)"
    by (simp add: scan_lines_def split_on_lines)
  then show ?thesis by (simp only: tw mp)
qed

lemma run1_append:
  "list_all P a \<Longrightarrow> a \<noteq> [] \<Longrightarrow> s = [] \<or> \<not> P (hd s) \<Longrightarrow> run1 P (a @ s) = Some (a, s)"
proof -
  assume a: "list_all P a" "a \<noteq> []" and s: "s = [] \<or> \<not> P (hd s)"
  then have "takeWhile P (a @ s) = a" "dropWhile P (a @ s) = s"
    by (cases s; simp add: list_all_iff takeWhile_append2 dropWhile_append2 takeWhile_eq_all_conv dropWhile_eq_Nil_conv)+
  with a show ?thesis by (simp add: run1_def)
qed

section \<open>The strconv package\<close>

definition digit_char :: "nat \<Rightarrow> char" where
  "digit_char d = char_of (48 + d)"

definition digit_value :: "char \<Rightarrow> nat" where
  "digit_value c = code c - 48"

fun digits10 :: "nat \<Rightarrow> string" where
  "digits10 n = (if n < 10 then [digit_char n] else digits10 (n div 10) @ [digit_char (n mod 10)])"

declare digits10.simps [simp del]

definition decimal :: "string \<Rightarrow> nat" where
  "decimal s = foldl (\<lambda>n c. 10 * n + digit_value c) 0 s"

definition itoa :: "int \<Rightarrow> string" where
  "itoa i = (if i < 0 then CHR ''-'' # digits10 (nat (- i)) else digits10 (nat i))"

text \<open>
  \<open>strconv.Atoi\<close>: an optional sign and at least one digit; a value outside the range of
  \<open>int\<close> (64 bits) is an error.
\<close>

definition int_range :: "int \<Rightarrow> bool" where
  "int_range i \<longleftrightarrow> - (2 ^ 63) \<le> i \<and> i < 2 ^ 63"

definition atoi :: "string \<Rightarrow> int option" where
  "atoi s =
     (let (neg, ds) = (case s of
            c # t \<Rightarrow> if c = CHR ''-'' then (True, t) else if c = CHR ''+'' then (False, t)
                    else (False, s)
          | [] \<Rightarrow> (False, []))
      in if ds = [] \<or> \<not> list_all is_digit ds then None
         else let i = (if neg then - int (decimal ds) else int (decimal ds))
              in if int_range i then Some i else None)"

lemma code_digit_char [simp]: "d < 10 \<Longrightarrow> code (digit_char d) = 48 + d"
  by (simp add: digit_char_def)

lemma is_digit_digit_char [simp]: "d < 10 \<Longrightarrow> is_digit (digit_char d)"
  by (simp add: is_digit_def)

lemma digit_value_digit_char [simp]: "d < 10 \<Longrightarrow> digit_value (digit_char d) = d"
  by (simp add: digit_value_def)

lemma decimal_snoc [simp]: "decimal (s @ [c]) = 10 * decimal s + digit_value c"
  by (simp add: decimal_def)

lemma decimal_Nil [simp]: "decimal [] = 0"
  by (simp add: decimal_def)

lemma digits10_nonempty [simp]: "digits10 n \<noteq> []"
  by (subst digits10.simps) simp

lemma digits10_digits [simp]: "list_all is_digit (digits10 n)"
proof (induction n rule: digits10.induct)
  case (1 n)
  then show ?case by (subst digits10.simps) (simp add: list_all_append)
qed

lemma decimal_digits10 [simp]: "decimal (digits10 n) = n"
proof (induction n rule: digits10.induct)
  case (1 n)
  show ?case
  proof (cases "n < 10")
    case True
    then show ?thesis using decimal_snoc [of "[]"] by (subst digits10.simps) simp
  next
    case False
    with 1 show ?thesis by (subst digits10.simps) simp
  qed
qed

lemma digits10_hd_digit: "digits10 n = c # t \<Longrightarrow> is_digit c"
  using digits10_digits [of n] by simp

lemma digit_not [simp]:
  "is_digit c \<Longrightarrow> c \<noteq> CHR ''-''" "is_digit c \<Longrightarrow> c \<noteq> CHR ''+''" "is_digit c \<Longrightarrow> c \<noteq> CHR '':''"
  "is_digit c \<Longrightarrow> c \<noteq> CHR ''[''" "is_digit c \<Longrightarrow> c \<noteq> CHR '']''" "is_digit c \<Longrightarrow> c \<noteq> CHR ''.''"
  by (auto simp: is_digit_def)

lemma digits10_inj [simp]: "digits10 m = digits10 n \<longleftrightarrow> m = n"
  by (metis decimal_digits10)

lemma itoa_nonempty [simp]: "itoa i \<noteq> []"
  by (simp add: itoa_def)

lemma itoa_chars: "c \<in> set (itoa i) \<Longrightarrow> is_digit c \<or> c = CHR ''-''"
  using digits10_digits by (auto simp: itoa_def list_all_iff split: if_splits)

lemma itoa_no_colon [simp]: "CHR '':'' \<notin> set (itoa i)"
  using itoa_chars by (fastforce simp: is_digit_def)

lemma itoa_inj [simp]: "itoa i = itoa j \<longleftrightarrow> i = j"
proof
  assume eq: "itoa i = itoa j"
  have nominus: "digits10 n \<noteq> CHR ''-'' # t" for n t
    using digits10_hd_digit [of n "CHR ''-''" t] by (auto simp: is_digit_def)
  show "i = j"
  proof (cases "i < 0"; cases "j < 0")
    assume "i < 0" "j < 0"
    with eq show ?thesis by (simp add: itoa_def)
  next
    assume "i < 0" "\<not> j < 0"
    with eq show ?thesis using nominus by (metis itoa_def)
  next
    assume "\<not> i < 0" "j < 0"
    with eq show ?thesis using nominus by (metis itoa_def)
  next
    assume "\<not> i < 0" "\<not> j < 0"
    with eq show ?thesis by (simp add: itoa_def)
  qed
qed simp

lemma atoi_itoa_eq: "atoi (itoa i) = (if int_range i then Some i else None)"
proof (cases "i < 0")
  case True
  then show ?thesis by (simp add: atoi_def itoa_def)
next
  case False
  obtain c t where ct: "digits10 (nat i) = c # t"
    by (cases "digits10 (nat i)") auto
  then have "is_digit c" by (rule digits10_hd_digit)
  with False ct show ?thesis
    using decimal_digits10 [of "nat i"] digits10_digits [of "nat i"]
    by (simp add: atoi_def itoa_def)
qed

lemma atoi_itoa: "int_range i \<Longrightarrow> atoi (itoa i) = Some i"
  by (simp add: atoi_itoa_eq)

section \<open>net.JoinHostPort and net.SplitHostPort\<close>

definition join_host_port :: "string \<Rightarrow> string \<Rightarrow> string" where
  "join_host_port host port =
     (if CHR '':'' \<in> set host then CHR ''['' # host @ '']:'' @ port
      else host @ CHR '':'' # port)"

datatype split_error =
  MissingPort | TooManyColons | MissingBracket | UnexpectedOpen | UnexpectedClose

definition split_host_port :: "string \<Rightarrow> split_error + string \<times> string" where
  "split_host_port hostport =
     (case cut_last CHR '':'' hostport of
        None \<Rightarrow> Inl MissingPort
      | Some (before, port) \<Rightarrow>
          if hd hostport = CHR ''['' then
            (case cut CHR '']'' hostport of
               None \<Rightarrow> Inl MissingBracket
             | Some (h, after) \<Rightarrow>
                 if after = [] then Inl MissingPort
                 else if Suc (length h) \<noteq> length before then
                   (if hd after = CHR '':'' then Inl TooManyColons else Inl MissingPort)
                 else if CHR ''['' \<in> set (tl hostport) then Inl UnexpectedOpen
                 else if CHR '']'' \<in> set after then Inl UnexpectedClose
                 else Inr (tl h, port))
          else if CHR '':'' \<in> set before then Inl TooManyColons
          else if CHR ''['' \<in> set hostport then Inl UnexpectedOpen
          else if CHR '']'' \<in> set hostport then Inl UnexpectedClose
          else Inr (before, port))"

definition plain_host :: "string \<Rightarrow> bool" where
  "plain_host h \<longleftrightarrow> CHR ''['' \<notin> set h \<and> CHR '']'' \<notin> set h"

lemma split_join_host_port:
  assumes "plain_host h" "CHR '':'' \<notin> set p" "plain_host p"
  shows "split_host_port (join_host_port h p) = Inr (h, p)"
proof (cases "CHR '':'' \<in> set h")
  case True
  let ?s = "CHR ''['' # h @ '']:'' @ p"
  have last: "cut_last CHR '':'' ?s = Some (CHR ''['' # h @ '']'', p)"
    using assms by (simp add: cut_last_Some)
  have first: "cut CHR '']'' ?s = Some (CHR ''['' # h, CHR '':'' # p)"
    using assms by (simp add: cut_Some plain_host_def)
  show ?thesis
    using assms True last first by (simp add: join_host_port_def split_host_port_def plain_host_def)
next
  case False
  let ?s = "h @ CHR '':'' # p"
  have last: "cut_last CHR '':'' ?s = Some (h, p)"
    using assms by (simp add: cut_last_Some)
  have "hd ?s \<noteq> CHR ''[''"
    using assms by (cases h) (auto simp: plain_host_def)
  then show ?thesis
    using assms False by (simp add: join_host_port_def split_host_port_def last plain_host_def)
qed

end
