(* ===== verification/NetIP.thy ===== *)
theory NetIP
  imports GoStrings
begin

text \<open>
  Go's \<open>net\<close> and \<open>net/netip\<close> address types, as the program uses them: parsing and printing
  of IPv4 and IPv6 addresses, CIDR prefixes, masks, the loopback test and the two containment
  tests (\<open>net.IPNet.Contains\<close>, byte-wise under a mask, and \<open>netip.Prefix.Contains\<close>, a
  shift or mask of the whole address).
\<close>

unbundle bit_operations_syntax

section \<open>Big-endian bytes\<close>

fun be_bytes :: "nat \<Rightarrow> 'a::len word \<Rightarrow> byte list" where
  "be_bytes 0 w = []"
| "be_bytes (Suc n) w = be_bytes n (drop_bit 8 w) @ [ucast w]"

definition of_be :: "byte list \<Rightarrow> 'a::len word" where
  "of_be bs = foldl (\<lambda>w b. push_bit 8 w OR ucast b) 0 bs"

lemma length_be_bytes [simp]: "length (be_bytes n w) = n"
  by (induction n arbitrary: w) auto

lemma of_be_Nil [simp]: "of_be [] = 0"
  by (simp add: of_be_def)

lemma of_be_snoc [simp]: "of_be (bs @ [b]) = push_bit 8 (of_be bs) OR ucast b"
  by (simp add: of_be_def)

lemma of_be_be_bytes: "of_be (be_bytes n w) = take_bit (8 * n) (w :: 'a::len word)"
proof (induction n arbitrary: w)
  case (Suc n)
  show ?case
    by (rule bit_word_eqI)
       (auto simp: Suc.IH bit_simps not_le dest: bit_imp_le_length)
qed simp

lemma bit_of_be_high: "8 * length bs \<le> k \<Longrightarrow> \<not> bit (of_be bs :: 'a::len word) k"
proof (induction bs arbitrary: k rule: rev_induct)
  case (snoc b bs)
  then show ?case by (auto simp: bit_simps dest: bit_imp_le_length)
qed simp

lemma be_bytes_of_be:
  "length bs = n \<Longrightarrow> 8 * n \<le> LENGTH('a) \<Longrightarrow> be_bytes n (of_be bs :: 'a::len word) = bs"
proof (induction n arbitrary: bs)
  case (Suc n)
  then obtain cs b where bs: "bs = cs @ [b]" and len: "length cs = n"
    by (metis length_Suc_conv_rev)
  have low: "ucast (push_bit 8 (of_be cs :: 'a word) OR ucast b) = b"
    using Suc.prems(2) by (intro bit_word_eqI) (auto simp: bit_simps)
  have high: "drop_bit 8 (push_bit 8 (of_be cs :: 'a word) OR ucast b) = of_be cs"
  proof (rule bit_word_eqI)
    fix k assume k: "k < LENGTH('a)"
    show "bit (drop_bit 8 (push_bit 8 (of_be cs :: 'a word) OR ucast b)) k
        = bit (of_be cs :: 'a word) k"
    proof (cases "8 + k < LENGTH('a)")
      case True
      then show ?thesis by (auto simp: bit_simps dest: bit_imp_le_length)
    next
      case False
      then have "8 * length cs \<le> k" using Suc.prems(2) len by simp
      then have "\<not> bit (of_be cs :: 'a word) k" by (rule bit_of_be_high)
      then show ?thesis using False by (auto simp: bit_simps dest: bit_imp_le_length)
    qed
  qed
  show ?case unfolding bs be_bytes.simps of_be_snoc low high
    using Suc.IH [OF len] Suc.prems(2) by simp
qed simp

section \<open>Addresses\<close>

text \<open>\<open>netip.Addr\<close>: a 32-bit IPv4 address, or a 128-bit IPv6 address with its zone.\<close>

datatype addr = V4 "32 word" | V6 "128 word" string

definition is4in6 :: "128 word \<Rightarrow> bool" where
  "is4in6 w \<longleftrightarrow> drop_bit 32 w = 0xFFFF"

fun unmap :: "addr \<Rightarrow> addr" where
  "unmap (V4 w) = V4 w"
| "unmap (V6 w z) = (if is4in6 w then V4 (ucast w) else V6 w z)"

fun zone :: "addr \<Rightarrow> string" where
  "zone (V4 w) = []"
| "zone (V6 w z) = z"

fun bit_len :: "addr \<Rightarrow> nat" where
  "bit_len (V4 w) = 32"
| "bit_len (V6 w z) = 128"

fun as16 :: "addr \<Rightarrow> 128 word" where
  "as16 (V4 w) = push_bit 32 0xFFFF OR ucast w"
| "as16 (V6 w z) = w"

fun as_slice :: "addr \<Rightarrow> byte list" where
  "as_slice (V4 w) = be_bytes 4 w"
| "as_slice (V6 w z) = be_bytes 16 w"

text \<open>\<open>netip.AddrFromSlice\<close>, which accepts 4 or 16 bytes.\<close>

definition addr_from_slice :: "byte list \<Rightarrow> addr option" where
  "addr_from_slice bs =
     (if length bs = 4 then Some (V4 (of_be bs))
      else if length bs = 16 then Some (V6 (of_be bs) [])
      else None)"

lemma addr_from_slice_as_slice: "zone a = [] \<Longrightarrow> addr_from_slice (as_slice a) = Some a"
  by (cases a) (simp_all add: addr_from_slice_def of_be_be_bytes take_bit_word_eq_self)

section \<open>Parsing\<close>

text \<open>
  \<open>parseIPv4Fields\<close>, one character at a time: the value and the number of digits of the
  current octet, and the octets before it.
\<close>

fun parse_ipv4_fields :: "nat \<Rightarrow> nat \<Rightarrow> byte list \<Rightarrow> string \<Rightarrow> byte list option" where
  "parse_ipv4_fields val dig_len fields [] =
     (if length fields < 3 then None else Some (fields @ [of_nat val]))"
| "parse_ipv4_fields val dig_len fields (c # s) =
     (if is_digit c then
        (if dig_len = 1 \<and> val = 0 then None
         else let v = val * 10 + digit_value c
              in if v > 255 then None else parse_ipv4_fields v (Suc dig_len) fields s)
      else if c = CHR ''.'' then
        (if dig_len = 0 \<or> s = [] then None
         else if length fields = 3 then None
         else parse_ipv4_fields 0 0 (fields @ [of_nat val]) s)
      else None)"

definition parse_ipv4 :: "string \<Rightarrow> addr option" where
  "parse_ipv4 s = map_option (\<lambda>bs. V4 (of_be bs)) (parse_ipv4_fields 0 0 [] s)"

definition hex_value :: "char \<Rightarrow> nat option" where
  "hex_value c =
     (if is_digit c then Some (code c - 48)
      else if 97 \<le> code c \<and> code c \<le> 102 then Some (code c - 87)
      else if 65 \<le> code c \<and> code c \<le> 70 then Some (code c - 55)
      else None)"

text \<open>The hexadecimal digits of one group: their number, their value, and the rest.\<close>

fun hex_run :: "nat \<Rightarrow> nat \<Rightarrow> string \<Rightarrow> (nat \<times> nat \<times> string) option" where
  "hex_run off acc [] = Some (off, acc, [])"
| "hex_run off acc (c # s) =
     (case hex_value c of
        None \<Rightarrow> Some (off, acc, c # s)
      | Some d \<Rightarrow>
          if off > 3 \<or> acc * 16 + d > 0xFFFF then None
          else hex_run (Suc off) (acc * 16 + d) s)"

text \<open>The loop of \<open>parseIPv6\<close>: the bytes so far, the position of the \<open>::\<close>, the rest.\<close>

function ipv6_loop :: "byte list \<Rightarrow> nat option \<Rightarrow> string \<Rightarrow> (byte list \<times> nat option \<times> string) option"
where
  "ipv6_loop ip ell s =
     (if 16 \<le> length ip then Some (ip, ell, s)
      else case hex_run 0 0 s of
        None \<Rightarrow> None
      | Some (off, acc, rest) \<Rightarrow>
          if off = 0 then None
          else if rest \<noteq> [] \<and> hd rest = CHR ''.'' then
            (if ell = None \<and> length ip \<noteq> 12 then None
             else if length ip + 4 > 16 then None
             else map_option (\<lambda>f. (ip @ f, ell, [])) (parse_ipv4_fields 0 0 [] s))
          else
            (let ip' = ip @ [of_nat (acc div 256), of_nat acc]
             in case rest of
                  [] \<Rightarrow> Some (ip', ell, [])
                | c # r \<Rightarrow>
                    if c \<noteq> CHR '':'' \<or> r = [] then None
                    else if hd r = CHR '':'' then
                      (if ell \<noteq> None then None
                       else if tl r = [] then Some (ip', Some (length ip'), [])
                       else ipv6_loop ip' (Some (length ip')) (tl r))
                    else ipv6_loop ip' ell r))"
  by pat_completeness auto
termination
  by (relation "measure (\<lambda>(ip, ell, s). 16 - length ip)") auto

declare ipv6_loop.simps [simp del]

definition expand_ellipsis :: "byte list \<Rightarrow> nat option \<Rightarrow> byte list option" where
  "expand_ellipsis ip ell =
     (case ell of
        None \<Rightarrow> if length ip < 16 then None else Some ip
      | Some e \<Rightarrow> if length ip < 16 then Some (take e ip @ replicate (16 - length ip) 0 @ drop e ip)
                  else None)"

definition parse_ipv6 :: "string \<Rightarrow> addr option" where
  "parse_ipv6 input =
     (let (s, z, bad_zone) = (case cut CHR ''%'' input of
            None \<Rightarrow> (input, [], False) | Some (a, b) \<Rightarrow> (a, b, b = []));
          lead = has_prefix s ''::'';
          s' = (if lead then drop 2 s else s)
      in if bad_zone then None
         else if lead \<and> s' = [] then Some (V6 0 z)
         else case ipv6_loop [] (if lead then Some 0 else None) s' of
             None \<Rightarrow> None
           | Some (ip, ell, rest) \<Rightarrow>
               if rest \<noteq> [] then None
               else map_option (\<lambda>bs. V6 (of_be bs) z) (expand_ellipsis ip ell))"

text \<open>\<open>netip.ParseAddr\<close>: the first of \<open>.\<close>, \<open>:\<close> and \<open>%\<close> decides the family.\<close>

definition parse_addr :: "string \<Rightarrow> addr option" where
  "parse_addr s =
     (case dropWhile (\<lambda>c. c \<noteq> CHR ''.'' \<and> c \<noteq> CHR '':'' \<and> c \<noteq> CHR ''%'') s of
        [] \<Rightarrow> None
      | c # _ \<Rightarrow> if c = CHR ''.'' then parse_ipv4 s
                 else if c = CHR '':'' then parse_ipv6 s
                 else None)"


section \<open>Printing\<close>

definition octet_string :: "byte \<Rightarrow> string" where
  "octet_string b = digits10 (unat b)"

definition string4 :: "byte list \<Rightarrow> string" where
  "string4 bs = join_with ''.'' (map octet_string bs)"

definition hex_digit :: "nat \<Rightarrow> char" where
  "hex_digit d = (if d < 10 then char_of (48 + d) else char_of (87 + d))"

fun hex16 :: "nat \<Rightarrow> string" where
  "hex16 n = (if n < 16 then [hex_digit n] else hex16 (n div 16) @ [hex_digit (n mod 16)])"

declare hex16.simps [simp del]

text \<open>The eight 16-bit groups of an IPv6 address.\<close>

fun groups16 :: "nat \<Rightarrow> 'a::len word \<Rightarrow> nat list" where
  "groups16 0 w = []"
| "groups16 (Suc n) w = groups16 n (drop_bit 16 w) @ [unat (take_bit 16 w)]"

definition zero_run :: "nat list \<Rightarrow> nat \<Rightarrow> nat" where
  "zero_run gs i = length (takeWhile (\<lambda>g. g = 0) (drop i gs))"

text \<open>The first longest run of at least two zero groups, as \<open>(start, length)\<close>.\<close>

definition best_run :: "nat list \<Rightarrow> (nat \<times> nat) option" where
  "best_run gs = fold (\<lambda>i best. let l = zero_run gs i in
       if l \<ge> 2 \<and> (case best of None \<Rightarrow> True | Some (_, m) \<Rightarrow> l > m) then Some (i, l) else best)
     [0..<length gs] None"

definition string6 :: "128 word \<Rightarrow> string" where
  "string6 w =
     (let gs = groups16 8 w in
      case best_run gs of
        None \<Rightarrow> join_with '':'' (map hex16 gs)
      | Some (i, l) \<Rightarrow> join_with '':'' (map hex16 (take i gs)) @ ''::'' @
                      join_with '':'' (map hex16 (drop (i + l) gs)))"

definition with_zone :: "string \<Rightarrow> string \<Rightarrow> string" where
  "with_zone s z = (if z = [] then s else s @ CHR ''%'' # z)"

fun addr_string :: "addr \<Rightarrow> string" where
  "addr_string (V4 w) = string4 (be_bytes 4 w)"
| "addr_string (V6 w z) =
     (if is4in6 w then with_zone (''::ffff:'' @ string4 (be_bytes 4 (ucast w :: 32 word))) z
      else with_zone (string6 w) z)"

section \<open>The net package: IP, IPMask, IPNet\<close>

type_synonym ip = "byte list"

definition to4 :: "ip \<Rightarrow> ip option" where
  "to4 ip =
     (if length ip = 4 then Some ip
      else if length ip = 16 \<and> take 12 ip = replicate 10 0 @ [255, 255] then Some (drop 12 ip)
      else None)"

text \<open>\<open>net.ParseIP\<close>: no zones; the 16-byte form.\<close>

definition parse_ip :: "string \<Rightarrow> ip option" where
  "parse_ip s = (case parse_addr s of
      None \<Rightarrow> None
    | Some a \<Rightarrow> if zone a \<noteq> [] then None else Some (be_bytes 16 (as16 a)))"

definition is_loopback :: "ip \<Rightarrow> bool" where
  "is_loopback ip = (case to4 ip of
      Some b \<Rightarrow> hd b = 127
    | None \<Rightarrow> ip = replicate 15 0 @ [1])"

record ipnet =
  net_ip :: ip
  net_mask :: "byte list"

fun cidr_mask :: "nat \<Rightarrow> nat \<Rightarrow> byte list" where
  "cidr_mask n 0 = []"
| "cidr_mask n (Suc k) =
     (if n \<ge> 8 then 255 # cidr_mask (n - 8) k else NOT (drop_bit n 255) # cidr_mask 0 k)"

definition mask_bytes :: "byte list \<Rightarrow> byte list \<Rightarrow> byte list" where
  "mask_bytes a m = map2 (AND) a m"

text \<open>\<open>net.dtoi\<close> on the part after the slash: digits only, below \<open>0xFFFFFF\<close>.\<close>

definition dtoi :: "string \<Rightarrow> nat option" where
  "dtoi s = (if s \<noteq> [] \<and> list_all is_digit s \<and> decimal s < 0xFFFFFF then Some (decimal s) else None)"

definition parse_cidr :: "string \<Rightarrow> ipnet option" where
  "parse_cidr s = (case cut CHR ''/'' s of
      None \<Rightarrow> None
    | Some (a, m) \<Rightarrow> (case (parse_addr a, dtoi m) of
        (Some ip, Some n) \<Rightarrow>
          if zone ip \<noteq> [] \<or> n > bit_len ip then None
          else (let mask = cidr_mask n (bit_len ip div 8);
                    base = (case ip of V4 w \<Rightarrow> be_bytes 4 w | V6 w z \<Rightarrow> be_bytes 16 w)
                in Some \<lparr>net_ip = mask_bytes base mask, net_mask = mask\<rparr>)
      | _ \<Rightarrow> None))"

text \<open>\<open>networkNumberAndMask\<close> and \<open>IPNet.Contains\<close>.\<close>

definition network_number_and_mask :: "ipnet \<Rightarrow> (ip \<times> byte list) option" where
  "network_number_and_mask n =
     (let ip = (case to4 (net_ip n) of Some b \<Rightarrow> b | None \<Rightarrow> net_ip n); m = net_mask n
      in if length ip \<noteq> 4 \<and> length ip \<noteq> 16 then None
         else if length m = 4 then (if length ip = 4 then Some (ip, m) else None)
         else if length m = 16 then Some (ip, if length ip = 4 then drop 12 m else m)
         else None)"

definition ipnet_contains :: "ipnet \<Rightarrow> ip \<Rightarrow> bool" where
  "ipnet_contains n ip =
     (let x = (case to4 ip of Some b \<Rightarrow> b | None \<Rightarrow> ip) in
      case network_number_and_mask n of
        None \<Rightarrow> x = []
      | Some (nn, m) \<Rightarrow> length x = length nn \<and> mask_bytes nn m = mask_bytes x m)"

definition ip_string :: "ip \<Rightarrow> string" where
  "ip_string ip = (case to4 ip of
      Some b \<Rightarrow> string4 b
    | None \<Rightarrow> addr_string (V6 (of_be ip) []))"

section \<open>The netip package: Prefix\<close>

record prefix =
  pfx_addr :: addr
  pfx_bits :: nat

text \<open>\<open>netip.ParsePrefix\<close>: the last slash; no zone; no sign and no leading zero in the bits.\<close>

definition parse_prefix :: "string \<Rightarrow> prefix option" where
  "parse_prefix s = (case cut_last CHR ''/'' s of
      None \<Rightarrow> None
    | Some (a, b) \<Rightarrow> (case parse_addr a of
        None \<Rightarrow> None
      | Some ip \<Rightarrow>
          if zone ip \<noteq> [] then None
          else if length b > 1 \<and> \<not> (49 \<le> code (hd b) \<and> code (hd b) \<le> 57) then None
          else (case atoi b of
              None \<Rightarrow> None
            | Some n \<Rightarrow> if n < 0 \<or> n > int (bit_len ip) then None
                        else Some \<lparr>pfx_addr = ip, pfx_bits = nat n\<rparr>)))"

fun mask_addr :: "nat \<Rightarrow> addr \<Rightarrow> addr" where
  "mask_addr n (V4 w) = V4 (push_bit (32 - n) (drop_bit (32 - n) w))"
| "mask_addr n (V6 w z) = V6 (push_bit (128 - n) (drop_bit (128 - n) w)) []"

definition masked :: "prefix \<Rightarrow> prefix" where
  "masked p = p\<lparr>pfx_addr := mask_addr (pfx_bits p) (pfx_addr p)\<rparr>"

text \<open>
  \<open>Prefix.Contains\<close>: never for an address with a zone, never across families; then the
  leading \<open>bits\<close> bits of both agree.
\<close>

fun prefix_contains :: "prefix \<Rightarrow> addr \<Rightarrow> bool" where
  "prefix_contains p a =
     (zone a = [] \<and>
      (case (pfx_addr p, a) of
         (V4 x, V4 y) \<Rightarrow> drop_bit (32 - pfx_bits p) (x XOR y) = 0
       | (V6 x _, V6 y _) \<Rightarrow> drop_bit (128 - pfx_bits p) (x XOR y) = 0
       | _ \<Rightarrow> False))"

section \<open>Evaluating the parsers\<close>

lemmas ip_eval = parse_addr_def parse_ipv6_def parse_ipv4_def has_prefix_def hex_value_def
  is_digit_def digit_value_def expand_ellipsis_def Let_def

lemma parse_ip_V6: "parse_addr s = Some (V6 (of_be bs) []) \<Longrightarrow> length bs = 16 \<Longrightarrow> parse_ip s = Some bs"
  by (simp add: parse_ip_def be_bytes_of_be)

lemma parse_addr_loopback6: "parse_addr ''::1'' = Some (V6 (of_be (replicate 14 0 @ [0, 1])) [])"
  by (simp add: ip_eval ipv6_loop.simps)

lemma parse_addr_loopback6':
  "parse_addr ''0::1'' = Some (V6 (of_be ([0, 0] @ replicate 12 0 @ [0, 1])) [])"
  by (simp add: ip_eval ipv6_loop.simps)

lemma loopback6_bytes: "[0, 0] @ replicate 12 0 @ [0, 1] = replicate 14 0 @ [0, 1 :: byte]"
  by code_simp

lemma parse_ip_loopback6: "parse_ip ''::1'' = Some (replicate 14 0 @ [0, 1])"
  by (rule parse_ip_V6 [OF parse_addr_loopback6]) simp

lemma parse_ip_loopback6': "parse_ip ''0::1'' = Some (replicate 14 0 @ [0, 1])"
  by (rule parse_ip_V6 [OF parse_addr_loopback6' [unfolded loopback6_bytes]]) simp

lemma is_loopback6: "is_loopback (replicate 14 0 @ [0, 1])"
  by code_simp

section \<open>Both packages agree on IPv4 prefixes\<close>

text \<open>
  \<open>net.IPNet\<close> masks byte by byte, \<open>netip.Prefix\<close> shifts: for an IPv4 network and an IPv4
  address they decide alike, and a string \<open>ParsePrefix\<close> accepts is one \<open>ParseCIDR\<close> accepts.
\<close>

lemma cidr_mask_snoc:
  "cidr_mask n (Suc k) = cidr_mask n k @ [NOT (drop_bit (min 8 (n - 8 * k)) 255)]"
proof (induction k arbitrary: n)
  case 0
  show ?case
  proof (cases "n \<ge> 8")
    case True
    have "drop_bit 8 (255 :: byte) = 0" by (simp add: drop_bit_eq_div)
    with True show ?thesis by simp
  qed simp
next
  case (Suc k)
  show ?case
  proof (cases "n \<ge> 8")
    case True
    then show ?thesis using Suc.IH [of "n - 8"] by (simp add: add.commute)
  next
    case False
    then show ?thesis using Suc.IH [of 0] by simp
  qed
qed

lemma length_cidr_mask [simp]: "length (cidr_mask n k) = k"
  by (induction k arbitrary: n) auto

lemma bit_mask_byte: "bit (NOT (drop_bit t (255 :: byte))) j \<longleftrightarrow> j < 8 \<and> 8 \<le> j + t"
proof -
  have ff: "(255 :: byte) = - 1" by simp
  show ?thesis unfolding ff by (auto simp: bit_simps)
qed

lemma masked_bytes_eq_iff:
  assumes "8 * k \<le> LENGTH('a)"
  shows "mask_bytes (be_bytes k (x :: 'a::len word)) (cidr_mask n k) = mask_bytes (be_bytes k y) (cidr_mask n k) \<longleftrightarrow>
    (\<forall>i. 8 * k - n \<le> i \<and> i < 8 * k \<longrightarrow> bit x i = bit y i)"
  using assms
proof (induction k arbitrary: x y)
  case 0
  show ?case by simp
next
  case (Suc k)
  let ?m = "NOT (drop_bit (min 8 (n - 8 * k)) (255 :: byte))"
  have low: "ucast x AND ?m = ucast y AND ?m \<longleftrightarrow>
      (\<forall>j. 8 * Suc k - n \<le> j \<and> j < 8 \<longrightarrow> bit x j = bit y j)"
  proof -
    have "ucast x AND ?m = ucast y AND ?m \<longleftrightarrow>
       (\<forall>j < 8. 8 \<le> j + min 8 (n - 8 * k) \<longrightarrow> bit x j = bit y j)"
      by (auto simp: bit_eq_iff bit_and_iff bit_mask_byte bit_ucast_iff)
    moreover have "8 \<le> j + min 8 (n - 8 * k) \<longleftrightarrow> 8 * Suc k - n \<le> j" if "j < 8" for j
      using that by (cases "n \<ge> 8 * k") (auto simp: min_def)
    ultimately show ?thesis by blast
  qed
  have "mask_bytes (be_bytes (Suc k) x) (cidr_mask n (Suc k)) = mask_bytes (be_bytes (Suc k) y) (cidr_mask n (Suc k)) \<longleftrightarrow>
    mask_bytes (be_bytes k (drop_bit 8 x)) (cidr_mask n k) = mask_bytes (be_bytes k (drop_bit 8 y)) (cidr_mask n k)
     \<and> ucast x AND ?m = ucast y AND ?m"
    by (simp add: mask_bytes_def cidr_mask_snoc del: cidr_mask.simps)
  also have "\<dots> \<longleftrightarrow> (\<forall>i. 8 * k - n \<le> i \<and> i < 8 * k \<longrightarrow> bit x (i + 8) = bit y (i + 8)) \<and>
      (\<forall>j. 8 * Suc k - n \<le> j \<and> j < 8 \<longrightarrow> bit x j = bit y j)"
    using Suc.IH [of "drop_bit 8 x" "drop_bit 8 y"] Suc.prems by (simp add: low bit_drop_bit_eq add.commute)
  also have "\<dots> \<longleftrightarrow> (\<forall>i. 8 * Suc k - n \<le> i \<and> i < 8 * Suc k \<longrightarrow> bit x i = bit y i)"
    (is "?hi \<and> ?lo \<longleftrightarrow> ?all")
  proof
    assume h: "?hi \<and> ?lo"
    show ?all
    proof (intro allI impI)
      fix i assume i: "8 * Suc k - n \<le> i \<and> i < 8 * Suc k"
      show "bit x i = bit y i"
      proof (cases "i < 8")
        case True
        with h i show ?thesis by blast
      next
        case False
        with i have "8 * k - n \<le> i - 8 \<and> i - 8 < 8 * k" by auto
        with h have "bit x (i - 8 + 8) = bit y (i - 8 + 8)" by blast
        with False show ?thesis by simp
      qed
    qed
  next
    assume ?all
    then show "?hi \<and> ?lo" by auto
  qed
  finally show ?case .
qed

lemma drop_bit_eq_iff32:
  "n \<le> 32 \<Longrightarrow> drop_bit (32 - n) x = drop_bit (32 - n) (y :: 32 word) \<longleftrightarrow>
    (\<forall>i. 32 - n \<le> i \<and> i < 32 \<longrightarrow> bit x i = bit y i)"
proof
  assume n: "n \<le> 32" and eq: "drop_bit (32 - n) x = drop_bit (32 - n) y"
  show "\<forall>i. 32 - n \<le> i \<and> i < 32 \<longrightarrow> bit x i = bit y i"
  proof (intro allI impI)
    fix i assume i: "32 - n \<le> i \<and> i < 32"
    have "bit (drop_bit (32 - n) x) (i - (32 - n)) = bit (drop_bit (32 - n) y) (i - (32 - n))"
      by (simp only: eq)
    with i show "bit x i = bit y i" by (simp add: bit_drop_bit_eq)
  qed
next
  assume n: "n \<le> 32" and all: "\<forall>i. 32 - n \<le> i \<and> i < 32 \<longrightarrow> bit x i = bit y i"
  show "drop_bit (32 - n) x = drop_bit (32 - n) y"
  proof (rule bit_word_eqI)
    fix j :: nat
    have "bit x (32 - n + j) = bit y (32 - n + j)"
    proof (cases "32 - n + j < 32")
      case True
      with all show ?thesis by simp
    next
      case False
      then show ?thesis using bit_imp_le_length [of x "32 - n + j"] bit_imp_le_length [of y "32 - n + j"] by auto
    qed
    then show "bit (drop_bit (32 - n) x) j = bit (drop_bit (32 - n) y) j" by (simp add: bit_drop_bit_eq)
  qed
qed

lemma of_be_append:
  "of_be (bs @ cs) = (push_bit (8 * length cs) (of_be bs) OR of_be cs :: 'a::len word)"
proof (induction cs rule: rev_induct)
  case (snoc c cs)
  have "of_be (bs @ cs @ [c]) = (push_bit 8 (of_be (bs @ cs)) OR ucast c :: 'a word)"
    by (simp add: of_be_def)
  then show ?case by (simp add: snoc.IH push_bit_or or.assoc)
qed simp

lemma of_be_be_bytes_ucast:
  "of_be (be_bytes n (w :: 'a::len word)) = (ucast (take_bit (8 * n) w) :: 'b::len word)"
proof (induction n arbitrary: w)
  case (Suc n)
  show ?case
    by (rule bit_word_eqI)
       (auto simp: Suc.IH bit_simps not_le dest: bit_imp_le_length)
qed simp

lemma of_be_zeros: "of_be (replicate k 0) = 0"
  by (induction k) (simp_all add: of_be_def)

lemma be_bytes_mapped: "be_bytes 16 (as16 (V4 w)) = replicate 10 0 @ [255, 255] @ be_bytes 4 w"
proof -
  have "(of_be (be_bytes 4 w) :: 128 word) = ucast w"
    unfolding of_be_be_bytes_ucast by (simp add: take_bit_word_eq_self)
  moreover have "(of_be (replicate 10 0 @ [255, 255]) :: 128 word) = 0xFFFF"
    unfolding of_be_append of_be_zeros by (simp add: of_be_def)
  ultimately have "as16 (V4 w) = of_be ((replicate 10 0 @ [255, 255]) @ be_bytes 4 w)"
    unfolding of_be_append by simp
  then show ?thesis using be_bytes_of_be [of "(replicate 10 0 @ [255, 255]) @ be_bytes 4 w" 16, where 'a = 128]
    by simp
qed

lemma to4_mapped: "to4 (be_bytes 16 (as16 (V4 w))) = Some (be_bytes 4 w)"
  unfolding be_bytes_mapped by (simp add: to4_def)

lemma mask_bytes_idem: "mask_bytes (mask_bytes a m) m = mask_bytes a m"
  by (induction a m rule: list_induct2') (simp_all add: mask_bytes_def and.assoc)

lemma ipnet_contains4:
  assumes "length a = 4" "length m = 4" "length b = 4" "to4 ip = Some b"
  shows "ipnet_contains \<lparr>net_ip = mask_bytes a m, net_mask = m\<rparr> ip \<longleftrightarrow> mask_bytes a m = mask_bytes b m"
proof -
  have len: "length (mask_bytes a m) = 4" using assms by (simp add: mask_bytes_def)
  then have "to4 (mask_bytes a m) = Some (mask_bytes a m)" by (simp add: to4_def)
  with assms len show ?thesis
    by (simp add: ipnet_contains_def network_number_and_mask_def mask_bytes_idem)
qed

lemma xor_eq_0_iff: "a XOR b = 0 \<longleftrightarrow> a = (b :: 'a::len word)"
  by (auto simp: bit_eq_iff bit_simps)

lemma ipnet_contains_prefix4:
  assumes "n \<le> 32"
  shows "ipnet_contains \<lparr>net_ip = mask_bytes (be_bytes 4 x) (cidr_mask n 4), net_mask = cidr_mask n 4\<rparr>
      (be_bytes 16 (as16 (V4 y))) \<longleftrightarrow>
    prefix_contains \<lparr>pfx_addr = V4 x, pfx_bits = n\<rparr> (V4 y)"
proof -
  have "ipnet_contains \<lparr>net_ip = mask_bytes (be_bytes 4 x) (cidr_mask n 4), net_mask = cidr_mask n 4\<rparr>
      (be_bytes 16 (as16 (V4 y))) \<longleftrightarrow>
      mask_bytes (be_bytes 4 x) (cidr_mask n 4) = mask_bytes (be_bytes 4 y) (cidr_mask n 4)"
    by (rule ipnet_contains4) (simp_all only: length_be_bytes length_cidr_mask to4_mapped)
  also have "\<dots> \<longleftrightarrow> drop_bit (32 - n) x = drop_bit (32 - n) y"
    using masked_bytes_eq_iff [of 4 x n y] drop_bit_eq_iff32 [OF assms, of x y] by simp
  also have "\<dots> \<longleftrightarrow> drop_bit (32 - n) (x XOR y) = 0"
    by (simp add: drop_bit_xor xor_eq_0_iff)
  finally show ?thesis by simp
qed

lemma parse_ipv4_fields_chars:
  "parse_ipv4_fields v d fs s = Some bs \<Longrightarrow> c \<in> set s \<Longrightarrow> is_digit c \<or> c = CHR ''.''"
  by (induction v d fs s arbitrary: bs rule: parse_ipv4_fields.induct)
     (auto simp: Let_def split: if_splits)

lemma parse_addr_V4: "parse_addr s = Some (V4 w) \<Longrightarrow> parse_ipv4 s = Some (V4 w)"
  by (auto simp: parse_addr_def parse_ipv6_def Let_def split: list.splits if_splits option.splits)

lemma parse_addr_V4_no_slash: "parse_addr s = Some (V4 w) \<Longrightarrow> CHR ''/'' \<notin> set s"
  using parse_ipv4_fields_chars [of 0 0 "[]" s _ "CHR ''/''"]
  by (auto dest!: parse_addr_V4 simp: parse_ipv4_def is_digit_def)

lemma dtoi_atoi:
  assumes "atoi b = Some n" "0 \<le> n" "n < 0xFFFFFF"
    and "\<not> (length b > 1 \<and> \<not> (49 \<le> code (hd b) \<and> code (hd b) \<le> 57))"
  shows "dtoi b = Some (nat n)"
proof (cases b)
  case Nil
  with assms show ?thesis by (simp add: atoi_def)
next
  case (Cons c t)
  have c: "c \<noteq> CHR ''-''" "c \<noteq> CHR ''+''"
    using assms(1,4) Cons by (auto simp: atoi_def)
  then have "list_all is_digit b" "n = int (decimal b)"
    using assms(1) Cons by (auto simp: atoi_def Let_def split: if_splits)
  with assms(3) Cons show ?thesis by (simp add: dtoi_def)
qed

lemma parse_cidr_prefix4:
  assumes "parse_prefix s = Some p" "pfx_addr p = V4 x"
  shows "pfx_bits p \<le> 32 \<and> parse_cidr s = Some \<lparr>net_ip = mask_bytes (be_bytes 4 x) (cidr_mask (pfx_bits p) 4),
    net_mask = cidr_mask (pfx_bits p) 4\<rparr>"
proof -
  obtain a b n where c: "cut_last CHR ''/'' s = Some (a, b)" and a: "parse_addr a = Some (V4 x)"
    and b: "\<not> (length b > 1 \<and> \<not> (49 \<le> code (hd b) \<and> code (hd b) \<le> 57))" "atoi b = Some n"
    and n: "0 \<le> n" "n \<le> 32" "p = \<lparr>pfx_addr = V4 x, pfx_bits = nat n\<rparr>"
    using assms by (auto simp: parse_prefix_def split: option.splits prod.splits if_splits)
  from c have s: "s = a @ CHR ''/'' # b" by (simp add: cut_last_Some)
  have "cut CHR ''/'' s = Some (a, b)"
    using parse_addr_V4_no_slash [OF a] by (simp add: s cut_Some)
  moreover have "dtoi b = Some (nat n)" using dtoi_atoi b n by simp
  ultimately show ?thesis using a n by (simp add: parse_cidr_def Let_def)
qed

lemma masked_contains4:
  "pfx_addr p = V4 x \<Longrightarrow> prefix_contains (masked p) (V4 y) \<longleftrightarrow> prefix_contains \<lparr>pfx_addr = V4 x, pfx_bits = pfx_bits p\<rparr> (V4 y)"
proof -
  assume a: "pfx_addr p = V4 x"
  have "drop_bit k (push_bit k (drop_bit k x)) = drop_bit k x" for k
    by (rule bit_word_eqI) (auto simp: bit_simps dest: bit_imp_le_length)
  with a show ?thesis by (simp add: masked_def drop_bit_xor)
qed

section \<open>Printing and parsing IPv4 addresses\<close>

lemma digits10_small: "n < 10 \<Longrightarrow> digits10 n = [digit_char n]"
  by (subst digits10.simps) simp

lemma digits10_two: "10 \<le> n \<Longrightarrow> n < 100 \<Longrightarrow> digits10 n = [digit_char (n div 10), digit_char (n mod 10)]"
  by (subst digits10.simps) (simp add: digits10_small)

lemma digits10_three:
  "100 \<le> n \<Longrightarrow> n < 1000 \<Longrightarrow>
     digits10 n = [digit_char (n div 10 div 10), digit_char (n div 10 mod 10), digit_char (n mod 10)]"
  by (subst digits10.simps) (simp add: digits10_two)

text \<open>One octet is read back, from the start of a field.\<close>

lemma ipv4_digit:
  assumes "d < 10" "v * 10 + d < 256" "k = 0 \<or> 0 < v"
  shows "parse_ipv4_fields v k fs (digit_char d # s) = parse_ipv4_fields (v * 10 + d) (Suc k) fs s"
  using assms by (auto simp: Let_def)

lemma ipv4_octet:
  assumes "n < 256"
  shows "parse_ipv4_fields 0 0 fs (digits10 n @ s) = parse_ipv4_fields n (length (digits10 n)) fs s"
proof -
  consider "n < 10" | "10 \<le> n" "n < 100" | "100 \<le> n" "n < 1000" using assms by linarith
  then show ?thesis
  proof cases
    case 1
    then show ?thesis using ipv4_digit [of n 0 0] by (simp add: digits10_small del: parse_ipv4_fields.simps)
  next
    case 2
    define x y where "x = n div 10" and "y = n mod 10"
    have xy: "n = x * 10 + y" "y < 10" "0 < x" "x < 10" using 2 by (simp_all add: x_def y_def)
    have "digits10 n = [digit_char x, digit_char y]" using 2 by (simp add: digits10_two x_def y_def)
    then show ?thesis using xy assms
      by (simp add: ipv4_digit del: parse_ipv4_fields.simps)
  next
    case 3
    define x y z where "x = n div 10 div 10" and "y = n div 10 mod 10" and "z = n mod 10"
    have n: "n = (x * 10 + y) * 10 + z" using div_mult_mod_eq [of n 10] div_mult_mod_eq [of "n div 10" 10]
      unfolding x_def y_def z_def by presburger
    have xyz: "y < 10" "z < 10" by (simp_all add: y_def z_def)
    have x0: "0 < x" using 3 n xyz by (cases x) auto
    have x: "x < 10"
    proof (rule ccontr)
      assume "\<not> x < 10"
      then have "1000 \<le> (x * 10 + y) * 10 + z" by simp
      with n 3 show False by simp
    qed
    have "digits10 n = [digit_char x, digit_char y, digit_char z]"
      using 3 by (simp add: digits10_three x_def y_def z_def)
    then show ?thesis using n xyz x0 x assms
      by (simp add: ipv4_digit del: parse_ipv4_fields.simps)
  qed
qed

lemma unat_byte: "unat (b :: byte) < 256"
  using unsigned_less [of b] by simp

lemma ipv4_octet_dot:
  "length fs < 3 \<Longrightarrow> s \<noteq> [] \<Longrightarrow>
     parse_ipv4_fields 0 0 fs (octet_string b @ CHR ''.'' # s) = parse_ipv4_fields 0 0 (fs @ [b]) s"
  using unat_byte [of b] by (simp add: octet_string_def ipv4_octet is_digit_def)

lemma ipv4_octet_end:
  "length fs = 3 \<Longrightarrow> parse_ipv4_fields 0 0 fs (octet_string b) = Some (fs @ [b])"
  using ipv4_octet [of "unat b" fs "[]"] unat_byte [of b] by (simp add: octet_string_def)

lemma string4_eq: "string4 [a, b, c, d] =
   octet_string a @ ''.'' @ octet_string b @ ''.'' @ octet_string c @ ''.'' @ octet_string d"
  by (simp add: string4_def)

lemma octet_string_nonempty [simp]: "octet_string b \<noteq> []"
  by (simp add: octet_string_def)

lemma parse_ipv4_string4:
  assumes "length bs = 4"
  shows "parse_ipv4_fields 0 0 [] (string4 bs) = Some bs"
proof -
  obtain a b c d where bs: "bs = [a, b, c, d]" using assms by (auto simp: length_Suc_conv eval_nat_numeral)
  show ?thesis unfolding bs string4_eq
    by (simp add: ipv4_octet_dot ipv4_octet_end)
qed

lemma octet_string_digits: "list_all is_digit (octet_string b)"
  by (simp add: octet_string_def)

lemma parse_addr_string4:
  assumes "length bs = 4"
  shows "parse_addr (string4 bs) = Some (V4 (of_be bs))"
proof -
  obtain a b c d where bs: "bs = [a, b, c, d]" using assms by (auto simp: length_Suc_conv eval_nat_numeral)
  have "dropWhile (\<lambda>c. c \<noteq> CHR ''.'' \<and> c \<noteq> CHR '':'' \<and> c \<noteq> CHR ''%'') (octet_string a @ CHR ''.'' # s)
      = CHR ''.'' # s" for s
    using octet_string_digits [of a] by (subst dropWhile_append2) (auto simp: list_all_iff is_digit_def)
  then have "parse_addr (string4 bs) = parse_ipv4 (string4 bs)"
    unfolding bs string4_eq by (simp add: parse_addr_def)
  then show ?thesis using parse_ipv4_string4 [OF assms] by (simp add: parse_ipv4_def)
qed

lemma parse_addr_addr_string4: "parse_addr (addr_string (V4 w)) = Some (V4 w)"
  using parse_addr_string4 [of "be_bytes 4 w"] by (simp add: of_be_be_bytes take_bit_word_eq_self)

end
