(* ===== verification/Paths.thy ===== *)
theory Paths
  imports GoStrings
begin

text \<open>
  Go's \<open>path/filepath\<close> on Unix as far as the program uses it: \<open>Clean\<close>, \<open>Join\<close>, \<open>Dir\<close> and
  \<open>Base\<close>; and writing a file by way of a temporary file and a rename, seen as the sequence of
  states of the file system that another process sees, or finds when the writer is killed. (What a
  power loss leaves of data that was never synced is a different matter: \<open>StateStore\<close>.)
\<close>

section \<open>filepath\<close>

definition clean_step :: "bool \<Rightarrow> string list \<Rightarrow> string \<Rightarrow> string list" where
  "clean_step rooted acc c =
     (if c = [] \<or> c = ''.'' then acc
      else if c = ''..'' then
        (if acc \<noteq> [] \<and> last acc \<noteq> ''..'' then butlast acc
         else if rooted then acc else acc @ [''..''])
      else acc @ [c])"

definition path_clean :: "string \<Rightarrow> string" where
  "path_clean p =
     (let rooted = (p \<noteq> [] \<and> hd p = CHR ''/'');
          out = (if rooted then ''/'' else []) @
            join_with ''/'' (foldl (clean_step rooted) [] (split_on CHR ''/'' p))
      in if out = [] then ''.'' else out)"

definition path_join :: "string list \<Rightarrow> string" where
  "path_join elems =
     (let es = filter (\<lambda>e. e \<noteq> []) elems
      in if es = [] then [] else path_clean (join_with ''/'' es))"

definition path_dir :: "string \<Rightarrow> string" where
  "path_dir p = (case cut_last CHR ''/'' p of
      None \<Rightarrow> ''.''
    | Some (d, _) \<Rightarrow> path_clean (d @ ''/''))"

definition path_base :: "string \<Rightarrow> string" where
  "path_base p =
     (if p = [] then ''.''
      else (let q = rev (dropWhile (\<lambda>c. c = CHR ''/'') (rev p))
            in if q = [] then ''/''
               else (case cut_last CHR ''/'' q of None \<Rightarrow> q | Some (_, b) \<Rightarrow> b)))"

section \<open>Files written by rename\<close>

type_synonym fs = "string \<rightharpoonup> string"

text \<open>
  \<open>os.WriteFile\<close> truncates and writes: a process killed in between leaves any prefix of the data.
  \<open>os.Rename\<close> is atomic.
\<close>

definition write_file_states :: "string \<Rightarrow> string \<Rightarrow> fs \<Rightarrow> fs list" where
  "write_file_states p d fs = map (\<lambda>k. fs(p \<mapsto> take k d)) [0 ..< Suc (length d)]"

definition rename_file :: "string \<Rightarrow> string \<Rightarrow> fs \<Rightarrow> fs" where
  "rename_file old new fs = (fs(new := fs old))(old := None)"

text \<open>All states of writing \<open>d\<close> to \<open>tmp\<close> and renaming that to \<open>p\<close>, in order.\<close>

definition replace_states :: "string \<Rightarrow> string \<Rightarrow> string \<Rightarrow> fs \<Rightarrow> fs list" where
  "replace_states tmp p d fs =
     fs # write_file_states tmp d fs @ [rename_file tmp p (fs(tmp \<mapsto> d))]"

lemma replace_states_atomic:
  assumes "tmp \<noteq> p" "fs' \<in> set (replace_states tmp p d fs)"
  shows "fs' p = fs p \<or> fs' p = Some d"
  using assms by (auto simp: replace_states_def write_file_states_def rename_file_def)

lemma replace_states_last:
  "tmp \<noteq> p \<Longrightarrow> last (replace_states tmp p d fs) = (fs(p \<mapsto> d))(tmp := None)"
  by (auto simp: replace_states_def rename_file_def)

end
