(* ===== verification/Config.thy ===== *)
theory Config
  imports NetIP Paths
begin

text \<open>
  \<open>internal/config/config.go\<close>: the configuration types, \<open>Default\<close>, \<open>ResolvePath\<close>, \<open>Load\<close>,
  \<open>applyRouteDefaults\<close>, \<open>Validate\<close>, \<open>claimAddr\<close> and \<open>requireLoopback\<close>.
  The YAML decoder (\<open>gopkg.in/yaml.v3\<close>), the file system, the environment and the operating
  system's choice of a free port are parameters. Error messages are constructors that carry
  the values the message prints.
\<close>

section \<open>The configuration types\<close>

record direct_profile =
  dp_Name :: string
  dp_SSID :: string
  dp_Gateway :: string
  dp_Subnet :: string

record socks_proxy_config =
  sp_Active :: bool
  sp_Bind :: string
  sp_Port :: int

record route =
  r_Name :: string
  r_JumpHost :: string
  r_HostPatterns :: "string list"
  r_HostSubnets :: "string list"
  r_DirectProfiles :: "direct_profile list"
  r_SocksProxy :: "socks_proxy_config option"
  r_KeepTunnelWhenDirect :: bool

text \<open>\<open>time.Duration\<close> is a signed 64-bit count of nanoseconds.\<close>

type_synonym duration = int64

record ssh_config =
  ssh_ControlPath :: string
  ssh_ControlPersist :: duration
  ssh_ConnectTimeout :: duration
  ssh_ServerAliveInterval :: duration
  ssh_ServerAliveCountMax :: int

record pac_config =
  pac_Enabled :: bool
  pac_Bind :: string
  pac_Port :: int
  pac_Path :: string

record proxy_config =
  px_Enabled :: bool
  px_Bind :: string
  px_Port :: int

record backoff_config =
  bo_Base :: duration
  bo_Max :: duration
  bo_Jitter :: string

record notify_config =
  nt_Enabled :: bool
  nt_Cooldown :: duration

record config =
  c_Routes :: "route list"
  c_SSH :: ssh_config
  c_PAC :: pac_config
  c_Proxy :: proxy_config
  c_PollInterval :: duration
  c_Backoff :: backoff_config
  c_Notify :: notify_config

section \<open>Default\<close>

definition second :: duration where
  "second = 1000000000"

definition minute :: duration where
  "minute = 60 * second"

definition default_socks_port :: int where
  "default_socks_port = 1080"

definition Default :: config where
  "Default = \<lparr>
     c_Routes = [],
     c_SSH = \<lparr>ssh_ControlPath = ''~/.ssh/control/%r@%h:%p'',
               ssh_ControlPersist = 10 * minute,
               ssh_ConnectTimeout = 5 * second,
               ssh_ServerAliveInterval = 15 * second,
               ssh_ServerAliveCountMax = 3\<rparr>,
     c_PAC = \<lparr>pac_Enabled = True, pac_Bind = ''127.0.0.1'', pac_Port = 8850, pac_Path = ''/proxy.pac''\<rparr>,
     c_Proxy = \<lparr>px_Enabled = True, px_Bind = ''127.0.0.1'', px_Port = 8851\<rparr>,
     c_PollInterval = 30 * second,
     c_Backoff = \<lparr>bo_Base = 2 * second, bo_Max = 2 * minute, bo_Jitter = ''equal''\<rparr>,
     c_Notify = \<lparr>nt_Enabled = True, nt_Cooldown = 20 * minute\<rparr>\<rparr>"

section \<open>Errors\<close>

text \<open>Who listens on an address, as the error messages name it.\<close>

datatype owner = RouteSocks string | PacOwner | ProxyOwner

datatype config_error =
    NoHome
  | ReadFailed string
  | ParseFailed string
  | PickPortFailed string string
  | NoRouteName
  | DuplicateRoute string
  | NoJumpHost string
  | NotLoopback string string
  | SocksClash owner string string
  | AddrClash owner owner string
  | ProxyPortRange int

section \<open>Validate\<close>

definition requireLoopback :: "string \<Rightarrow> string \<Rightarrow> config_error + unit" where
  "requireLoopback field host =
     (case parse_ip host of
        None \<Rightarrow> Inl (NotLoopback field host)
      | Some ip \<Rightarrow> if is_loopback ip then Inr () else Inl (NotLoopback field host))"

text \<open>\<open>fmt.Sprintf("%s:%d", bind, port)\<close>\<close>

definition listen_addr :: "string \<Rightarrow> int \<Rightarrow> string" where
  "listen_addr bind port = bind @ CHR '':'' # itoa port"

type_synonym seen_addrs = "string \<rightharpoonup> owner"

definition claimAddr :: "seen_addrs \<Rightarrow> owner \<Rightarrow> string \<Rightarrow> int \<Rightarrow> config_error + seen_addrs" where
  "claimAddr seen owner bind port =
     (let addr = listen_addr bind port in
      case seen addr of
        Some other \<Rightarrow> Inl (AddrClash other owner addr)
      | None \<Rightarrow> Inr (seen(addr \<mapsto> owner)))"

text \<open>The body of the loop over the routes, for the socks proxy of one of them.\<close>

definition claimSocks :: "seen_addrs \<Rightarrow> string \<Rightarrow> socks_proxy_config \<Rightarrow> config_error + seen_addrs" where
  "claimSocks seen name sp =
     andthen (requireLoopback (''routes['' @ name @ ''].socks_proxy.bind'') (sp_Bind sp)) (\<lambda>_.
       let addr = listen_addr (sp_Bind sp) (sp_Port sp) in
       case seen addr of
         Some other \<Rightarrow> Inl (SocksClash other name addr)
       | None \<Rightarrow> Inr (seen(addr \<mapsto> RouteSocks name)))"

fun validateRoutes :: "string set \<Rightarrow> seen_addrs \<Rightarrow> route list \<Rightarrow> config_error + seen_addrs" where
  "validateRoutes seenNames seen [] = Inr seen"
| "validateRoutes seenNames seen (r # rs) =
     (if r_Name r = [] then Inl NoRouteName
      else if r_Name r \<in> seenNames then Inl (DuplicateRoute (r_Name r))
      else if r_JumpHost r = [] then Inl (NoJumpHost (r_Name r))
      else andthen
        (case r_SocksProxy r of
           None \<Rightarrow> Inr seen
         | Some sp \<Rightarrow> claimSocks seen (r_Name r) sp)
        (\<lambda>seen'. validateRoutes (insert (r_Name r) seenNames) seen' rs))"

definition validatePAC :: "pac_config \<Rightarrow> seen_addrs \<Rightarrow> config_error + seen_addrs" where
  "validatePAC p seen =
     (if pac_Enabled p then
        andthen (requireLoopback ''pac.bind'' (pac_Bind p)) (\<lambda>_.
          claimAddr seen PacOwner (pac_Bind p) (pac_Port p))
      else Inr seen)"

definition validateProxy :: "proxy_config \<Rightarrow> seen_addrs \<Rightarrow> config_error + seen_addrs" where
  "validateProxy p seen =
     (if px_Enabled p then
        andthen (requireLoopback ''proxy.bind'' (px_Bind p)) (\<lambda>_.
          if px_Port p \<le> 0 \<or> px_Port p > 65535 then Inl (ProxyPortRange (px_Port p))
          else claimAddr seen ProxyOwner (px_Bind p) (px_Port p))
      else Inr seen)"

definition Validate :: "config \<Rightarrow> config_error + unit" where
  "Validate c =
     andthen (validateRoutes {} (\<lambda>_. None) (c_Routes c)) (\<lambda>seen.
     andthen (validatePAC (c_PAC c) seen) (\<lambda>seen.
     andthen (validateProxy (c_Proxy c) seen) (\<lambda>_. Inr ())))"

section \<open>Load\<close>

text \<open>
  The port \<open>pickFreePort\<close> returns is a function of the state of the outside world, of which the
  operating system chooses.
\<close>

type_synonym 'w port_picker = "'w \<Rightarrow> string \<Rightarrow> (string + int) \<times> 'w"

text \<open>
  \<open>pickFreePort\<close> itself, over \<open>net.Listen\<close>: an error, or a listener whose address is a TCP port or of
  another type.
\<close>

definition pickFreePort :: "('w \<Rightarrow> string \<Rightarrow> (string + (string + int)) \<times> 'w) \<Rightarrow> 'w port_picker" where
  "pickFreePort listen w bind =
     (case listen w (join_host_port bind ''0'') of
        (Inl e, w') \<Rightarrow> (Inl e, w')
      | (Inr (Inl tname), w') \<Rightarrow> (Inl (''unexpected listener address type '' @ tname), w')
      | (Inr (Inr port), w') \<Rightarrow> (Inr port, w'))"

definition routeDefault :: "'w port_picker \<Rightarrow> 'w \<Rightarrow> route \<Rightarrow> (config_error + route) \<times> 'w" where
  "routeDefault pick w r =
     (case r_SocksProxy r of
        None \<Rightarrow> (Inr r, w)
      | Some sp0 \<Rightarrow>
          let sp = (if sp_Bind sp0 = [] then sp0\<lparr>sp_Bind := ''127.0.0.1''\<rparr> else sp0) in
          if sp_Port sp \<noteq> 0 then (Inr (r\<lparr>r_SocksProxy := Some sp\<rparr>), w)
          else if sp_Active sp then
            (case pick w (sp_Bind sp) of
               (Inl e, w') \<Rightarrow> (Inl (PickPortFailed (r_Name r) e), w')
             | (Inr port, w') \<Rightarrow> (Inr (r\<lparr>r_SocksProxy := Some (sp\<lparr>sp_Port := port\<rparr>)\<rparr>), w'))
          else (Inr (r\<lparr>r_SocksProxy := Some (sp\<lparr>sp_Port := default_socks_port\<rparr>)\<rparr>), w))"

fun applyRouteDefaults :: "'w port_picker \<Rightarrow> 'w \<Rightarrow> route list \<Rightarrow> (config_error + route list) \<times> 'w" where
  "applyRouteDefaults pick w [] = (Inr [], w)"
| "applyRouteDefaults pick w (r # rs) =
     (case routeDefault pick w r of
        (Inl e, w') \<Rightarrow> (Inl e, w')
      | (Inr r1, w') \<Rightarrow>
          (case applyRouteDefaults pick w' rs of
             (Inl e, w'') \<Rightarrow> (Inl e, w'')
           | (Inr rs1, w'') \<Rightarrow> (Inr (r1 # rs1), w'')))"

datatype read_result = NotExist | ReadError string | Data string

text \<open>The default location: \<open>XDG_CONFIG_HOME\<close>, else the home directory if there is one.\<close>

definition FilePath :: "string \<Rightarrow> string option \<Rightarrow> string option" where
  "FilePath xdg home =
     (if xdg \<noteq> [] then Some (path_join [xdg, ''ssh-autoproxy'', ''config.yaml''])
      else map_option (\<lambda>h. path_join [h, ''.config'', ''ssh-autoproxy'', ''config.yaml'']) home)"

text \<open>
  \<open>filePath\<close> is what \<open>FilePath\<close> returned; \<open>unmarshal\<close> overlays the file on the default
  configuration.
\<close>

definition ResolvePath :: "string option \<Rightarrow> string \<Rightarrow> config_error + string" where
  "ResolvePath filePath path =
     (if path \<noteq> [] then Inr path
      else case filePath of None \<Rightarrow> Inl NoHome | Some p \<Rightarrow> Inr p)"

definition Load ::
  "string option \<Rightarrow> (string \<Rightarrow> read_result) \<Rightarrow> (string \<Rightarrow> config \<Rightarrow> string + config) \<Rightarrow>
   'w port_picker \<Rightarrow> 'w \<Rightarrow> string \<Rightarrow> (config_error + config) \<times> 'w"
where
  "Load filePath readFile unmarshal pick w path =
     (case ResolvePath filePath path of
        Inl e \<Rightarrow> (Inl e, w)
      | Inr p \<Rightarrow>
          (case readFile p of
             NotExist \<Rightarrow> (Inr Default, w)
           | ReadError e \<Rightarrow> (Inl (ReadFailed e), w)
           | Data d \<Rightarrow>
               (case unmarshal d Default of
                  Inl e \<Rightarrow> (Inl (ParseFailed e), w)
                | Inr cfg \<Rightarrow>
                    (case applyRouteDefaults pick w (c_Routes cfg) of
                       (Inl e, w') \<Rightarrow> (Inl e, w')
                     | (Inr rs, w') \<Rightarrow>
                         let cfg' = cfg\<lparr>c_Routes := rs\<rparr> in
                         (andthen (Validate cfg') (\<lambda>_. Inr cfg'), w')))))"

section \<open>The listeners of a configuration\<close>

text \<open>
  The specification of \<open>Validate\<close>: the enabled listeners as pairs of a bind address and a
  port, and what the documentation promises of them.
\<close>

definition socks_listener :: "route \<Rightarrow> (string \<times> int) list" where
  "socks_listener r = (case r_SocksProxy r of None \<Rightarrow> [] | Some sp \<Rightarrow> [(sp_Bind sp, sp_Port sp)])"

definition pac_listener :: "pac_config \<Rightarrow> (string \<times> int) list" where
  "pac_listener p = (if pac_Enabled p then [(pac_Bind p, pac_Port p)] else [])"

definition proxy_listener :: "proxy_config \<Rightarrow> (string \<times> int) list" where
  "proxy_listener p = (if px_Enabled p then [(px_Bind p, px_Port p)] else [])"

definition listeners :: "config \<Rightarrow> (string \<times> int) list" where
  "listeners c = concat (map socks_listener (c_Routes c)) @ pac_listener (c_PAC c) @
     proxy_listener (c_Proxy c)"

definition loopback_host :: "string \<Rightarrow> bool" where
  "loopback_host h \<longleftrightarrow> (case parse_ip h of None \<Rightarrow> False | Some ip \<Rightarrow> is_loopback ip)"

definition valid_config :: "config \<Rightarrow> bool" where
  "valid_config c \<longleftrightarrow>
     list_all (\<lambda>r. r_Name r \<noteq> [] \<and> r_JumpHost r \<noteq> []) (c_Routes c) \<and>
     distinct (map r_Name (c_Routes c)) \<and>
     list_all (\<lambda>(b, p). loopback_host b) (listeners c) \<and>
     distinct (listeners c) \<and>
     (px_Enabled (c_Proxy c) \<longrightarrow> 0 < px_Port (c_Proxy c) \<and> px_Port (c_Proxy c) \<le> 65535)"

lemma listen_addr_inj [simp]: "listen_addr b p = listen_addr b' p' \<longleftrightarrow> b = b' \<and> p = p'"
proof
  assume eq: "listen_addr b p = listen_addr b' p'"
  have "cut_last CHR '':'' (listen_addr x y) = Some (x, itoa y)" for x y
    by (simp add: cut_last_Some listen_addr_def)
  with eq have "(b, itoa p) = (b', itoa p')" by (metis option.inject)
  then show "b = b' \<and> p = p'" by simp
qed simp

lemma requireLoopback_iff [simp]: "requireLoopback f h = Inr u \<longleftrightarrow> loopback_host h"
  by (auto simp: requireLoopback_def loopback_host_def split: option.splits)

section \<open>The registry of claimed addresses\<close>

text \<open>
  Both places that claim an address (the inline check of the route loop and \<open>claimAddr\<close>)
  keep one contract: a claim succeeds exactly if the address is free, and then it is taken.
  What follows from the contract for a sequence of claims is proved once.
\<close>

fun claim_all :: "('reg \<Rightarrow> 'o \<Rightarrow> string \<Rightarrow> int \<Rightarrow> 'e + 'reg) \<Rightarrow> 'reg \<Rightarrow> ('o \<times> string \<times> int) list \<Rightarrow> 'e + 'reg"
where
  "claim_all claim reg [] = Inr reg"
| "claim_all claim reg ((w, b, p) # ls) = andthen (claim reg w b p) (\<lambda>reg'. claim_all claim reg' ls)"

locale listener_registry =
  fixes claim :: "'reg \<Rightarrow> 'o \<Rightarrow> string \<Rightarrow> int \<Rightarrow> 'e + 'reg"
    and taken :: "'reg \<Rightarrow> (string \<times> int) set"
  assumes claim_free: "ok (claim reg w b p) \<longleftrightarrow> (b, p) \<notin> taken reg"
    and claim_taken: "claim reg w b p = Inr reg' \<Longrightarrow> taken reg' = insert (b, p) (taken reg)"
begin

lemma claim_Inr: "(b, p) \<notin> taken reg \<Longrightarrow> \<exists>reg'. claim reg w b p = Inr reg'"
  using claim_free by (simp add: ok_iff)

lemma claim_all_ok:
  "ok (claim_all claim reg ls) \<longleftrightarrow> distinct (map snd ls) \<and> set (map snd ls) \<inter> taken reg = {}"
proof (induction ls arbitrary: reg)
  case (Cons l ls)
  obtain w b p where l: "l = (w, b, p)" by (cases l)
  show ?case
  proof (cases "(b, p) \<in> taken reg")
    case True
    then have "\<not> ok (claim reg w b p)" using claim_free by blast
    then have "\<not> ok (claim_all claim reg (l # ls))" by (simp add: l ok_andthen) (simp add: ok_iff)
    with True show ?thesis by (auto simp: l)
  next
    case False
    then obtain reg' where c: "claim reg w b p = Inr reg'" using claim_Inr by blast
    with False Cons.IH [of reg'] claim_taken [OF c] show ?thesis by (auto simp: l)
  qed
qed simp

lemma claim_all_taken:
  "claim_all claim reg ls = Inr reg' \<Longrightarrow> taken reg' = taken reg \<union> set (map snd ls)"
proof (induction ls arbitrary: reg)
  case (Cons l ls)
  obtain w b p where l: "l = (w, b, p)" by (cases l)
  with Cons show ?case by (auto simp: l andthen_eq_Inr dest: claim_taken)
qed simp

end

definition seen_taken :: "seen_addrs \<Rightarrow> (string \<times> int) set" where
  "seen_taken seen = {(b, p). seen (listen_addr b p) \<noteq> None}"

interpretation addr_registry: listener_registry claimAddr seen_taken
  by unfold_locales (auto simp: claimAddr_def Let_def seen_taken_def split: option.splits if_splits)

text \<open>The check in the route loop differs from \<open>claimAddr\<close> in its message only.\<close>

lemma claimSocks_claim:
  "claimSocks seen n sp = Inr seen' \<longleftrightarrow>
     loopback_host (sp_Bind sp) \<and> claimAddr seen (RouteSocks n) (sp_Bind sp) (sp_Port sp) = Inr seen'"
  by (auto simp: claimSocks_def claimAddr_def Let_def andthen_eq_Inr split: option.splits)

definition socks_claims :: "route list \<Rightarrow> (owner \<times> string \<times> int) list" where
  "socks_claims rs = concat (map (\<lambda>r. map (Pair (RouteSocks (r_Name r))) (socks_listener r)) rs)"

lemma map_snd_socks_claims: "map snd (socks_claims rs) = concat (map socks_listener rs)"
  by (induction rs) (auto simp: socks_claims_def comp_def)

lemma validateRoutes_Inr:
  "validateRoutes names seen rs = Inr seen' \<longleftrightarrow>
     list_all (\<lambda>r. r_Name r \<noteq> [] \<and> r_JumpHost r \<noteq> []) rs \<and>
     distinct (map r_Name rs) \<and> r_Name ` set rs \<inter> names = {} \<and>
     list_all (\<lambda>(b, p). loopback_host b) (concat (map socks_listener rs)) \<and>
     claim_all claimAddr seen (socks_claims rs) = Inr seen'"
proof (induction rs arbitrary: names seen)
  case Nil
  show ?case by (auto simp: socks_claims_def)
next
  case (Cons r rs)
  show ?case
  proof (cases "r_SocksProxy r")
    case None
    with Cons.IH show ?thesis by (auto simp: socks_claims_def socks_listener_def)
  next
    case (Some sp)
    with Cons.IH show ?thesis
      by (auto simp: socks_claims_def socks_listener_def andthen_eq_Inr claimSocks_claim)
  qed
qed

lemma validatePAC_Inr:
  "validatePAC p seen = Inr seen' \<longleftrightarrow>
     list_all (\<lambda>(b, p). loopback_host b) (pac_listener p) \<and>
     claim_all claimAddr seen (map (Pair PacOwner) (pac_listener p)) = Inr seen'"
  by (auto simp: validatePAC_def pac_listener_def andthen_eq_Inr)

lemma validateProxy_Inr:
  "validateProxy p seen = Inr seen' \<longleftrightarrow>
     list_all (\<lambda>(b, p). loopback_host b) (proxy_listener p) \<and>
     (px_Enabled p \<longrightarrow> 0 < px_Port p \<and> px_Port p \<le> 65535) \<and>
     claim_all claimAddr seen (map (Pair ProxyOwner) (proxy_listener p)) = Inr seen'"
  by (auto simp: validateProxy_def proxy_listener_def andthen_eq_Inr)

lemma claim_all_append:
  "claim_all claim reg (ls @ ms) = andthen (claim_all claim reg ls) (\<lambda>reg'. claim_all claim reg' ms)"
proof (induction ls arbitrary: reg)
  case (Cons l ls)
  obtain w b p where "l = (w, b, p)" by (cases l)
  with Cons show ?case by (cases "claim reg w b p") auto
qed simp

theorem Validate_iff: "ok (Validate c) \<longleftrightarrow> valid_config c"
proof -
  let ?claims = "socks_claims (c_Routes c) @ map (Pair PacOwner) (pac_listener (c_PAC c)) @
    map (Pair ProxyOwner) (proxy_listener (c_Proxy c))"
  let ?rest = "list_all (\<lambda>r. r_Name r \<noteq> [] \<and> r_JumpHost r \<noteq> []) (c_Routes c) \<and>
     distinct (map r_Name (c_Routes c)) \<and>
     list_all (\<lambda>(b, p). loopback_host b) (listeners c) \<and>
     (px_Enabled (c_Proxy c) \<longrightarrow> 0 < px_Port (c_Proxy c) \<and> px_Port (c_Proxy c) \<le> 65535)"
  have "ok (Validate c) \<longleftrightarrow> ?rest \<and> ok (claim_all claimAddr (\<lambda>_. None) ?claims)"
    by (auto simp: Validate_def ok_iff andthen_eq_Inr validateRoutes_Inr validatePAC_Inr
        validateProxy_Inr listeners_def claim_all_append)
  also have "ok (claim_all claimAddr (\<lambda>_. None) ?claims) \<longleftrightarrow> distinct (listeners c)"
    by (simp add: addr_registry.claim_all_ok map_snd_socks_claims listeners_def seen_taken_def comp_def)
  finally show ?thesis by (auto simp: valid_config_def)
qed

lemma loopback_localhost [simp]: "loopback_host ''127.0.0.1''"
  by code_simp

lemma loopback_host6 [simp]: "loopback_host ''::1''" "loopback_host ''0::1''"
  by (simp_all add: loopback_host_def parse_ip_loopback6 parse_ip_loopback6' is_loopback6)

lemma valid_Default [simp]: "valid_config Default"
  by (simp add: valid_config_def Default_def listeners_def pac_listener_def proxy_listener_def)

section \<open>What Load returns\<close>

lemma Load_Inr:
  assumes "Load fp rd um pick w path = (Inr cfg, w')"
  shows "cfg = Default \<or> ok (Validate cfg)"
  using assms
  by (auto simp: Load_def Let_def andthen_eq_Inr ok_iff
      split: sum.splits read_result.splits prod.splits)

lemma Load_valid: "fst (Load fp rd um pick w path) = Inr cfg \<Longrightarrow> valid_config cfg"
proof -
  assume "fst (Load fp rd um pick w path) = Inr cfg"
  then have "Load fp rd um pick w path = (Inr cfg, snd (Load fp rd um pick w path))"
    by (simp add: prod_eq_iff)
  from Load_Inr [OF this] show "valid_config cfg"
    by (elim disjE) (simp_all only: Validate_iff valid_Default)
qed

text \<open>
  The effect of \<open>applyRouteDefaults\<close> on one route: everything but the socks proxy is kept, an
  explicit bind address and an explicit port are kept, and an unset port becomes 1080, or the
  port the operating system picked on the bind address when the proxy is active.
\<close>

definition defaulted :: "'w port_picker \<Rightarrow> route \<Rightarrow> route \<Rightarrow> bool" where
  "defaulted pick r r' \<longleftrightarrow>
     r' = r\<lparr>r_SocksProxy := r_SocksProxy r'\<rparr> \<and>
     (case (r_SocksProxy r, r_SocksProxy r') of
        (None, None) \<Rightarrow> True
      | (Some sp, Some sp') \<Rightarrow>
          sp_Bind sp' = (if sp_Bind sp = [] then ''127.0.0.1'' else sp_Bind sp) \<and>
          sp_Active sp' = sp_Active sp \<and>
          (if sp_Port sp \<noteq> 0 then sp_Port sp' = sp_Port sp
           else if sp_Active sp then \<exists>w. fst (pick w (sp_Bind sp')) = Inr (sp_Port sp')
           else sp_Port sp' = default_socks_port)
      | _ \<Rightarrow> False)"

lemma routeDefault_Inr: "routeDefault pick w r = (Inr r', w') \<Longrightarrow> defaulted pick r r'"
  by (cases "r_SocksProxy r")
     (auto simp: routeDefault_def Let_def defaulted_def split: prod.splits sum.splits if_splits;
      metis fst_conv)+

lemma applyRouteDefaults_Inr:
  "applyRouteDefaults pick w rs = (Inr rs', w') \<Longrightarrow> list_all2 (defaulted pick) rs rs'"
proof (induction rs arbitrary: w rs')
  case (Cons r rs)
  then obtain r1 rs1 w1 where "rs' = r1 # rs1"
    and "routeDefault pick w r = (Inr r1, w1)" "applyRouteDefaults pick w1 rs = (Inr rs1, w')"
    by (auto split: prod.splits sum.splits)
  then show ?case using Cons.IH routeDefault_Inr by simp
qed simp

section \<open>Properties\<close>

text \<open>
  Claim C9. \<open>Validate\<close> accepts a configuration exactly if every route has a name and a jump
  host, the names are distinct, every enabled listener (each route's socks proxy, the PAC
  server, the front-door proxy) binds a loopback address, no two of them have the same bind
  address and port, and the port of an enabled front-door proxy is between 1 and 65535.
\<close>

theorem validate_accepts_exactly: "ok (Validate c) \<longleftrightarrow> valid_config c"
  by (rule Validate_iff)

text \<open>
  Whatever the file system, the YAML decoder and the operating system's choice of
  ports do, a configuration that \<open>Load\<close> returns is valid: only loopback listeners, no two on
  one address, uniquely named routes.
\<close>

theorem load_returns_valid:
  "fst (Load filePath readFile unmarshal pick w path) = Inr cfg \<Longrightarrow> valid_config cfg"
  by (rule Load_valid)

definition example_route :: route where
  "example_route = \<lparr>r_Name = ''home'', r_JumpHost = ''gw'', r_HostPatterns = [''*.lan''],
     r_HostSubnets = [''10.20.0.0/21''], r_DirectProfiles = [],
     r_SocksProxy = Some \<lparr>sp_Active = False, sp_Bind = [], sp_Port = 0\<rparr>,
     r_KeepTunnelWhenDirect = False\<rparr>"

theorem load_returns_valid_witness:
  "\<exists>cfg. fst (Load (Some ''c'') (\<lambda>_. Data []) (\<lambda>_ c. Inr (c\<lparr>c_Routes := [example_route]\<rparr>))
       (\<lambda>w _. (Inr 1080, w)) () []) = Inr cfg \<and> valid_config cfg"
proof -
  let ?sp = "\<lparr>sp_Active = False, sp_Bind = ''127.0.0.1'', sp_Port = 1080\<rparr>"
  let ?cfg = "Default\<lparr>c_Routes := [example_route\<lparr>r_SocksProxy := Some ?sp\<rparr>]\<rparr>"
  have "valid_config ?cfg"
    by (simp add: valid_config_def Default_def example_route_def listeners_def
        socks_listener_def pac_listener_def proxy_listener_def)
  then have "ok (Validate ?cfg)" by (simp only: Validate_iff)
  then obtain u where "Validate ?cfg = Inr u" unfolding ok_iff ..
  then have "fst (Load (Some ''c'') (\<lambda>_. Data []) (\<lambda>_ c. Inr (c\<lparr>c_Routes := [example_route]\<rparr>))
       (\<lambda>w _. (Inr 1080, w)) () []) = Inr ?cfg"
    by (simp add: Load_def ResolvePath_def routeDefault_def example_route_def default_socks_port_def
        Default_def)
  from this load_returns_valid [OF this] show ?thesis by blast
qed

text \<open>
  \<open>applyRouteDefaults\<close>, when it succeeds, keeps the routes, their order and
  everything in them but the unset fields of a socks proxy: an empty bind address becomes
  127.0.0.1, and a port that is not set becomes 1080, or for an active proxy the port the
  operating system picked on that very bind address.
\<close>

theorem route_defaults_only_fill_unset:
  "applyRouteDefaults pick w rs = (Inr rs', w') \<Longrightarrow> list_all2 (defaulted pick) rs rs'"
  by (rule applyRouteDefaults_Inr)

theorem route_defaults_only_fill_unset_witness:
  "list_all2 (defaulted (\<lambda>(w :: unit) _. (Inr 40001, w)))
     [example_route, example_route\<lparr>r_SocksProxy := Some \<lparr>sp_Active = True, sp_Bind = [], sp_Port = 0\<rparr>\<rparr>]
     [example_route\<lparr>r_SocksProxy := Some \<lparr>sp_Active = False, sp_Bind = ''127.0.0.1'', sp_Port = 1080\<rparr>\<rparr>,
      example_route\<lparr>r_SocksProxy := Some \<lparr>sp_Active = True, sp_Bind = ''127.0.0.1'', sp_Port = 40001\<rparr>\<rparr>]"
  by (rule route_defaults_only_fill_unset [where w = "()" and w' = "()"])
     (simp add: routeDefault_def example_route_def default_socks_port_def)

text \<open>
  With a system that picks ports from 1 to 65535, every port that \<open>applyRouteDefaults\<close> fills in is in
  that range; an explicit port is not checked for a socks proxy or the PAC server, only for the
  front-door proxy: whatever port the PAC server is given, \<open>Validate\<close> accepts it.
\<close>

theorem filled_ports_in_range:
  assumes "\<And>w a p w'. listen w a = (Inr (Inr p), w') \<Longrightarrow> 0 < p \<and> p \<le> 65535"
    and "applyRouteDefaults (pickFreePort listen) w rs = (Inr rs', w')"
  shows "list_all2 (\<lambda>r r'. \<forall>sp sp'. r_SocksProxy r = Some sp \<longrightarrow> r_SocksProxy r' = Some sp' \<longrightarrow> sp_Port sp = 0 \<longrightarrow>
    0 < sp_Port sp' \<and> sp_Port sp' \<le> 65535) rs rs'"
proof (rule list_all2_mono [OF applyRouteDefaults_Inr [OF assms(2)]], intro allI impI)
  fix r r' sp sp'
  assume d: "defaulted (pickFreePort listen) r r'" and sp: "r_SocksProxy r = Some sp" "r_SocksProxy r' = Some sp'" "sp_Port sp = 0"
  have pick: "0 < p \<and> p \<le> 65535" if "fst (pickFreePort listen w b) = Inr p" for w b p
    using that assms(1) by (auto simp: pickFreePort_def split: prod.splits sum.splits)
  show "0 < sp_Port sp' \<and> sp_Port sp' \<le> 65535"
    using d sp pick by (cases "sp_Active sp") (auto simp: defaulted_def default_socks_port_def)
qed

theorem filled_ports_in_range_witness:
  "list_all2 (\<lambda>r r'. \<forall>sp sp'. r_SocksProxy r = Some sp \<longrightarrow> r_SocksProxy r' = Some sp' \<longrightarrow> sp_Port sp = 0 \<longrightarrow>
     0 < sp_Port sp' \<and> sp_Port sp' \<le> 65535)
     [example_route\<lparr>r_SocksProxy := Some \<lparr>sp_Active = True, sp_Bind = [], sp_Port = 0\<rparr>\<rparr>]
     [example_route\<lparr>r_SocksProxy := Some \<lparr>sp_Active = True, sp_Bind = ''127.0.0.1'', sp_Port = 40001\<rparr>\<rparr>]"
  by (rule filled_ports_in_range [where listen = "\<lambda>w _. (Inr (Inr 40001), w)" and w = "()" and w' = "()"])
     (auto simp: routeDefault_def pickFreePort_def example_route_def)

theorem pac_port_not_checked:
  "ok (Validate (Default\<lparr>c_PAC := (c_PAC Default)\<lparr>pac_Port := p\<rparr>\<rparr>)) \<longleftrightarrow> p \<noteq> 8851"
  by (simp add: Validate_iff valid_config_def Default_def listeners_def pac_listener_def proxy_listener_def)

text \<open>
  The clash check of \<open>Validate\<close> compares addresses as text: there is a configuration
  it accepts whose PAC server and front-door proxy listen on one and the same address and port
  (the IPv6 loopback address, written in two ways), so the second of them cannot be bound.
\<close>

theorem validate_accepts_aliased_listeners:
  "\<exists>c. ok (Validate c) \<and> pac_Enabled (c_PAC c) \<and> px_Enabled (c_Proxy c) \<and>
     parse_ip (pac_Bind (c_PAC c)) = parse_ip (px_Bind (c_Proxy c)) \<and>
     pac_Port (c_PAC c) = px_Port (c_Proxy c)"
proof -
  let ?c = "Default\<lparr>c_PAC := \<lparr>pac_Enabled = True, pac_Bind = ''::1'', pac_Port = 8850, pac_Path = []\<rparr>,
    c_Proxy := \<lparr>px_Enabled = True, px_Bind = ''0::1'', px_Port = 8850\<rparr>\<rparr>"
  have "valid_config ?c"
    by (simp add: valid_config_def Default_def listeners_def pac_listener_def proxy_listener_def)
  then have "ok (Validate ?c)" by (simp add: Validate_iff)
  then show ?thesis
    by (intro exI [of _ ?c]) (simp add: parse_ip_loopback6 parse_ip_loopback6')
qed

end
