(* ===== verification/NetState.thy ===== *)
theory NetState
  imports Config
begin

text \<open>
  \<open>internal/netstate\<close>: the snapshot of the network (\<open>query.go\<close>) and its evaluation against the
  direct-network profiles (\<open>evaluate.go\<close>). The outputs of \<open>ip\<close> and \<open>nmcli\<close> are parameters; what
  the program does with them (the two regular expressions, the terse format of \<open>nmcli\<close>) is
  modelled on bytes, the loop over runes with Go's decoding of invalid UTF-8.
\<close>

section \<open>evaluate.go\<close>

record net_state =
  ns_SSID :: string
  ns_Gateway :: string
  ns_Address :: string

definition addressInSubnet :: "string \<Rightarrow> string \<Rightarrow> bool" where
  "addressInSubnet address cidr =
     (if address = [] then False
      else (case parse_cidr cidr of
              None \<Rightarrow> False
            | Some ipnet \<Rightarrow> (case parse_ip address of None \<Rightarrow> False | Some ip \<Rightarrow> ipnet_contains ipnet ip)))"

definition profileMatches :: "direct_profile \<Rightarrow> net_state \<Rightarrow> bool" where
  "profileMatches p state =
     (if dp_SSID p = [] \<and> dp_Gateway p = [] \<and> dp_Subnet p = [] then False
      else if dp_SSID p \<noteq> [] \<and> dp_SSID p \<noteq> ns_SSID state then False
      else if dp_Gateway p \<noteq> [] \<and> dp_Gateway p \<noteq> ns_Gateway state then False
      else if dp_Subnet p \<noteq> [] \<and> \<not> addressInSubnet (ns_Address state) (dp_Subnet p) then False
      else True)"

fun Evaluate :: "direct_profile list \<Rightarrow> net_state \<Rightarrow> string \<times> bool" where
  "Evaluate [] state = ([], True)"
| "Evaluate (p # ps) state = (if profileMatches p state then (dp_Name p, False) else Evaluate ps state)"

section \<open>query.go\<close>

subsection \<open>The default route\<close>

definition word_char :: "char \<Rightarrow> bool" where
  "word_char c \<longleftrightarrow> is_digit c \<or> 65 \<le> code c \<and> code c \<le> 90 \<or> 97 \<le> code c \<and> code c \<le> 122 \<or> c = CHR ''_''"

text \<open>
  The regular expression \<open>\bvia\s+(\S+)\s+dev\s+(\S+)\<close>: a match that begins here, and the
  leftmost match; the flag says whether the previous character is a word character.
\<close>

definition via_here :: "string \<Rightarrow> (string \<times> string) option" where
  "via_here s =
     Option.bind (after_lit ''via'' s) (\<lambda>s.
     Option.bind (run1 is_space s) (\<lambda>(_, s).
     Option.bind (run1 (\<lambda>c. \<not> is_space c) s) (\<lambda>(gateway, s).
     Option.bind (run1 is_space s) (\<lambda>(_, s).
     Option.bind (after_lit ''dev'' s) (\<lambda>s.
     Option.bind (run1 is_space s) (\<lambda>(_, s).
     Option.bind (run1 (\<lambda>c. \<not> is_space c) s) (\<lambda>(dev, _). Some (gateway, dev))))))))"

fun find_via :: "bool \<Rightarrow> string \<Rightarrow> (string \<times> string) option" where
  "find_via prev [] = None"
| "find_via prev (c # s) =
     (case (if prev then None else via_here (c # s)) of
        Some r \<Rightarrow> Some r
      | None \<Rightarrow> find_via (word_char c) s)"

text \<open>How an external command ended: its output, a non-zero exit, or it could not be run.\<close>

datatype exec_result = Output string | ExitError | ExecError string

definition defaultRoute :: "exec_result \<Rightarrow> string + string \<times> string" where
  "defaultRoute ip_route =
     (case ip_route of
        ExitError \<Rightarrow> Inr ([], [])
      | ExecError e \<Rightarrow> Inl e
      | Output out \<Rightarrow>
          (case find_via False (takeWhile (\<lambda>c. c \<noteq> CHR 0x0A) out) of
             None \<Rightarrow> Inr ([], [])
           | Some (gateway, dev) \<Rightarrow> Inr (dev, gateway)))"

subsection \<open>The address of the interface\<close>

text \<open>The regular expression \<open>inet\s+(\d+\.\d+\.\d+\.\d+)/\d+\<close>.\<close>

definition inet_here :: "string \<Rightarrow> string option" where
  "inet_here s =
     Option.bind (after_lit ''inet'' s) (\<lambda>s.
     Option.bind (run1 is_space s) (\<lambda>(_, s).
     Option.bind (run1 is_digit s) (\<lambda>(a, s).
     Option.bind (after_lit ''.'' s) (\<lambda>s.
     Option.bind (run1 is_digit s) (\<lambda>(b, s).
     Option.bind (after_lit ''.'' s) (\<lambda>s.
     Option.bind (run1 is_digit s) (\<lambda>(c, s).
     Option.bind (after_lit ''.'' s) (\<lambda>s.
     Option.bind (run1 is_digit s) (\<lambda>(d, s).
     Option.bind (after_lit ''/'' s) (\<lambda>s.
     Option.bind (run1 is_digit s) (\<lambda>_. Some (a @ ''.'' @ b @ ''.'' @ c @ ''.'' @ d))))))))))))"

fun find_inet :: "string \<Rightarrow> string option" where
  "find_inet [] = None"
| "find_inet (c # s) = (case inet_here (c # s) of Some r \<Rightarrow> Some r | None \<Rightarrow> find_inet s)"

definition interfaceAddress :: "exec_result \<Rightarrow> string" where
  "interfaceAddress ip_addr =
     (case ip_addr of
        Output out \<Rightarrow> (case find_inet out of None \<Rightarrow> [] | Some a \<Rightarrow> a)
      | _ \<Rightarrow> [])"

subsection \<open>The SSID\<close>

text \<open>
  \<open>WriteRune\<close> of a rune the \<open>range\<close> loop decoded: its own bytes, but the encoding of U+FFFD for
  a byte that is not valid UTF-8.
\<close>

definition rune_text :: "nat \<Rightarrow> string \<Rightarrow> string" where
  "rune_text r bytes = (if r = rune_error then [CHR 0xEF, CHR 0xBF, CHR 0xBD] else bytes)"

function split_loop :: "string list \<Rightarrow> string \<Rightarrow> bool \<Rightarrow> string \<Rightarrow> string list" where
  "split_loop flds cur escaped [] = flds @ [cur]"
| "split_loop flds cur escaped (c # s) =
     (let (r, w) = decode_rune (c # s);
          text = rune_text r (take w (c # s));
          rest = drop w (c # s)
      in if escaped then split_loop flds (cur @ text) False rest
         else if r = 92 then split_loop flds cur True rest
         else if r = 58 then split_loop (flds @ [cur]) [] False rest
         else split_loop flds (cur @ text) False rest)"
  by pat_completeness auto
termination
  by (relation "measure (\<lambda>(_, _, _, s). length s)")
     (auto dest!: decode_rune_pos' simp: less_Suc_eq_le)

definition splitTerse :: "string \<Rightarrow> string list" where
  "splitTerse line = split_loop [] [] False line"

fun find_ssid :: "string \<Rightarrow> string list \<Rightarrow> string" where
  "find_ssid dev [] = []"
| "find_ssid dev (l # ls) =
     (let flds = splitTerse l in
      if length flds < 3 then find_ssid dev ls
      else if flds ! 0 = dev \<and> flds ! 1 = ''yes'' then flds ! 2
      else find_ssid dev ls)"

definition wifiSSID :: "exec_result \<Rightarrow> string \<Rightarrow> string" where
  "wifiSSID nmcli dev = (case nmcli of Output out \<Rightarrow> find_ssid dev (scan_lines out) | _ \<Rightarrow> [])"

subsection \<open>Query\<close>

definition Query :: "exec_result \<Rightarrow> (string \<Rightarrow> exec_result) \<Rightarrow> exec_result \<Rightarrow> string + net_state" where
  "Query ip_route ip_addr nmcli =
     andthen (defaultRoute ip_route) (\<lambda>(dev, gateway).
       Inr (if dev \<noteq> []
            then \<lparr>ns_SSID = wifiSSID nmcli dev, ns_Gateway = gateway,
                  ns_Address = interfaceAddress (ip_addr dev)\<rparr>
            else \<lparr>ns_SSID = [], ns_Gateway = gateway, ns_Address = []\<rparr>))"

section \<open>The terse format\<close>

text \<open>The terse format as \<open>nmcli\<close> writes it.\<close>

definition escape_char :: "char \<Rightarrow> string" where
  "escape_char c = (if c = CHR '':'' \<or> code c = 92 then [char_of (92 :: nat), c] else [c])"

definition escape_terse :: "string \<Rightarrow> string" where
  "escape_terse s = concat (map escape_char s)"

definition terse_line :: "string list \<Rightarrow> string" where
  "terse_line flds = join_with '':'' (map escape_terse flds)"

lemma escape_terse_append [simp]: "escape_terse (a @ b) = escape_terse a @ escape_terse b"
  by (simp add: escape_terse_def)

lemma escape_terse_high: "list_all (\<lambda>c. 128 \<le> code c) s \<Longrightarrow> escape_terse s = s"
  by (induction s) (auto simp: escape_terse_def escape_char_def)

lemma split_loop_escaped:
  assumes "utf8_valid f"
  shows "split_loop flds cur False (escape_terse f @ rest) = split_loop flds (cur @ f) False rest"
  using assms
proof (induction f arbitrary: cur rule: utf8_valid.induct)
  case 1
  show ?case by (simp add: escape_terse_def)
next
  case (2 c s)
  obtain r w where rw: "decode_rune (c # s) = (r, w)" by fastforce
  with 2(2) have ok: "rune_ok r w" and valid: "utf8_valid (drop w (c # s))" by auto
  define x where "x = take w (c # s)"
  have cs: "c # s = x @ drop w (c # s)" by (simp add: x_def)
  note app = decode_rune_app [OF rw ok, folded x_def]
  have IH: "split_loop flds cur' False (escape_terse (drop w (c # s)) @ rest)
      = split_loop flds (cur' @ drop w (c # s)) False rest" for cur'
    by (rule 2(1) [OF rw [symmetric] refl valid])
  have same: "rune_text r x = x"
    using rw ok by (auto simp: rune_text_def rune_ok_def x_def dest: decode_rune_error3)
  have dec: "decode_rune (x @ u) = (r, w)" "take w (x @ u) = x" "drop w (x @ u) = u" for u
    using app(1,2) by simp_all
  obtain d x' where x: "x = d # x'" using app(2) ok by (cases x) (auto simp: rune_ok_def)
  have step: "split_loop flds cur e (x @ u) =
      (if e then split_loop flds (cur @ x) False u
       else if r = 92 then split_loop flds cur True u
       else if r = 58 then split_loop (flds @ [cur]) [] False u
       else split_loop flds (cur @ x) False u)" for cur e u
    using dec [of u] same unfolding x append_Cons split_loop.simps by (simp add: Let_def)
  have "split_loop flds cur False (escape_terse x @ u) = split_loop flds (cur @ x) False u" for u
    using app(3)
  proof (elim disjE exE conjE)
    fix d assume d: "x = [d]" "code d = r" "r < 128"
    show ?thesis
    proof (cases "d = CHR '':'' \<or> code d = (92 :: nat)")
      case True
      then have "escape_terse x = char_of (92 :: nat) # x" by (simp add: d escape_terse_def escape_char_def)
      then show ?thesis using step [of cur True u] by (simp add: Let_def)
    next
      case False
      then have "escape_terse x = x" "r \<noteq> 92" "r \<noteq> 58" using d code_eq_58 [of d]
        by (auto simp: escape_terse_def escape_char_def)
      then show ?thesis using step [of cur False u] by simp
    qed
  next
    assume "1 < w" "128 \<le> r" "list_all (\<lambda>c. 128 \<le> code c) x"
    then show ?thesis using step [of cur False u] by (simp add: escape_terse_high)
  qed
  then have "split_loop flds cur False (escape_terse x @ escape_terse (drop w (c # s)) @ rest)
      = split_loop flds (cur @ x) False (escape_terse (drop w (c # s)) @ rest)" .
  then have "split_loop flds cur False (escape_terse (x @ drop w (c # s)) @ rest)
      = split_loop flds (cur @ (x @ drop w (c # s))) False rest"
    using IH [of "cur @ x"] by (simp only: escape_terse_append append_assoc)
  then show ?case by (simp only: cs [symmetric])
qed

lemma split_loop_terse:
  "list_all utf8_valid fs \<Longrightarrow> fs \<noteq> [] \<Longrightarrow>
     split_loop flds cur False (terse_line fs) = flds @ (cur @ hd fs) # tl fs"
proof (induction fs arbitrary: flds cur)
  case (Cons f fs)
  have esc: "split_loop flds cur False (escape_terse f @ rest) = split_loop flds (cur @ f) False rest" for rest
    using Cons.prems by (intro split_loop_escaped) simp
  show ?case
  proof (cases fs)
    case Nil
    then show ?thesis using esc [of "[]"] by (simp add: terse_line_def)
  next
    case (Cons g gs)
    have "terse_line (f # fs) = escape_terse f @ CHR '':'' # terse_line fs"
      by (simp add: terse_line_def Cons)
    then show ?thesis using esc [of "CHR '':'' # terse_line fs"] Cons.IH [of "flds @ [cur @ f]" "[]"] Cons.prems Cons
      by (simp add: Let_def)
  qed
qed simp

lemma splitTerse_terse_line: "list_all utf8_valid fs \<Longrightarrow> fs \<noteq> [] \<Longrightarrow> splitTerse (terse_line fs) = fs"
  by (simp add: splitTerse_def split_loop_terse)

section \<open>Tables of nmcli and the default route\<close>

text \<open>A row of the table \<open>nmcli\<close> prints: device, whether it is active, SSID.\<close>

type_synonym wifi_row = "string \<times> bool \<times> string"

fun wifi_line :: "wifi_row \<Rightarrow> string" where
  "wifi_line (dev, active, ssid) = terse_line [dev, if active then ''yes'' else ''no'', ssid]"

definition nmcli_table :: "wifi_row list \<Rightarrow> string" where
  "nmcli_table rows = concat (map (\<lambda>l. l @ [CHR 0x0A]) (map wifi_line rows))"

fun wifi_row_ok :: "wifi_row \<Rightarrow> bool" where
  "wifi_row_ok (dev, active, ssid) \<longleftrightarrow> utf8_valid dev \<and> utf8_valid ssid \<and>
     (let l = wifi_line (dev, active, ssid) in
      CHR 0x0A \<notin> set l \<and> last l \<noteq> CHR 0x0D \<and> length l < max_token)"

definition active_ssid :: "wifi_row list \<Rightarrow> string \<Rightarrow> string" where
  "active_ssid rows dev =
     (case find (\<lambda>(d, active, s). d = dev \<and> active) rows of None \<Rightarrow> [] | Some (_, _, s) \<Rightarrow> s)"

lemma utf8_valid_yes_no: "utf8_valid ''yes''" "utf8_valid ''no''"
  by (rule utf8_valid_ascii, simp add: is_ascii_def)+

lemma splitTerse_wifi_line:
  "wifi_row_ok (d, a, s) \<Longrightarrow> splitTerse (wifi_line (d, a, s)) = [d, if a then ''yes'' else ''no'', s]"
  using utf8_valid_yes_no by (auto intro!: splitTerse_terse_line simp del: utf8_valid.simps)

lemma find_ssid_lines: "list_all wifi_row_ok rows \<Longrightarrow> find_ssid dev (map wifi_line rows) = active_ssid rows dev"
proof (induction rows)
  case (Cons row rows)
  obtain d a s where row: "row = (d, a, s)" by (cases row)
  with Cons have *: "splitTerse (wifi_line (d, a, s)) = [d, if a then ''yes'' else ''no'', s]"
    by (intro splitTerse_wifi_line) simp
  show ?case using Cons
    by (simp add: row * active_ssid_def Let_def del: wifi_line.simps wifi_row_ok.simps)
qed (simp add: active_ssid_def)

lemma wifiSSID_table:
  assumes "list_all wifi_row_ok rows"
  shows "wifiSSID (Output (nmcli_table rows)) dev = active_ssid rows dev"
proof -
  have "list_all (\<lambda>l. CHR 0x0A \<notin> set l \<and> (l = [] \<or> last l \<noteq> CHR 0x0D) \<and> length l < max_token)
      (map wifi_line rows)"
    using assms by (auto simp: list_all_iff Let_def)
  from scan_lines_unlines [OF this] find_ssid_lines [OF assms] show ?thesis
    by (simp add: wifiSSID_def nmcli_table_def)
qed

text \<open>A word of \<open>ip\<close>'s output.\<close>

definition token :: "string \<Rightarrow> bool" where
  "token s \<longleftrightarrow> s \<noteq> [] \<and> list_all (\<lambda>c. \<not> is_space c) s"

lemma find_via_default:
  assumes "token g" "token d" "s = [] \<or> is_space (hd s)"
  shows "find_via False (''default via '' @ g @ '' dev '' @ d @ s) = Some (g, d)"
proof -
  have sp: "is_space CHR '' ''" by (simp add: is_space_def)
  have ne: "g \<noteq> []" "d \<noteq> []" "\<not> is_space (hd g)" "\<not> is_space (hd d)"
    using assms by (auto simp: token_def list_all_iff)
  have space: "run1 is_space (CHR '' '' # t) = Some ('' '', t)" if "t = [] \<or> \<not> is_space (hd t)" for t
    using run1_append [of is_space "'' ''" t] sp that by simp
  have tok: "run1 (\<lambda>c. \<not> is_space c) (t @ u) = Some (t, u)" if "token t" "u = [] \<or> is_space (hd u)" for t u
    using that by (intro run1_append) (auto simp: token_def)
  have "via_here (''via '' @ g @ '' dev '' @ d @ s) = Some (g, d)"
    using assms ne sp
    by (simp add: via_here_def after_lit_def has_prefix_def space tok is_space_def [of "CHR ''d''"])
  then show ?thesis
    by (simp add: via_here_def [of "_ # _"] after_lit_def has_prefix_def word_char_def is_digit_def)
qed

section \<open>Properties\<close>

text \<open>What a profile asks for, field by field: an empty field asks for nothing.\<close>

definition asks :: "string \<Rightarrow> (string \<Rightarrow> bool) \<Rightarrow> bool" where
  "asks want holds \<longleftrightarrow> want = [] \<or> holds want"

definition satisfied :: "net_state \<Rightarrow> direct_profile \<Rightarrow> bool" where
  "satisfied st p \<longleftrightarrow>
     asks (dp_SSID p) (\<lambda>s. s = ns_SSID st) \<and> asks (dp_Gateway p) (\<lambda>g. g = ns_Gateway st) \<and>
     asks (dp_Subnet p) (addressInSubnet (ns_Address st)) \<and>
     \<not> (dp_SSID p = [] \<and> dp_Gateway p = [] \<and> dp_Subnet p = [])"

lemma profileMatches_satisfied: "profileMatches p st \<longleftrightarrow> satisfied st p"
  by (auto simp: profileMatches_def satisfied_def asks_def)

lemma Evaluate_find:
  "Evaluate ps st = (case find (satisfied st) ps of Some p \<Rightarrow> (dp_Name p, False) | None \<Rightarrow> ([], True))"
  by (induction ps) (auto simp: profileMatches_satisfied)

definition unknown_network :: net_state where
  "unknown_network = \<lparr>ns_SSID = [], ns_Gateway = [], ns_Address = []\<rparr>"

lemma unknown_not_satisfied: "\<not> satisfied unknown_network p"
  by (auto simp: satisfied_def asks_def unknown_network_def addressInSubnet_def)

text \<open>
  Claim C31. \<open>Evaluate\<close> reports direct exactly for the first profile, in the configured order, that
  has a criterion and whose every non-empty criterion holds, and \<open>away\<close> when there is none; so a
  network nothing is known of (no default route) is away under every list of profiles, and the
  tunnel is never bypassed on it.
\<close>

theorem evaluate_first_satisfied_profile:
  "Evaluate ps st = (case find (satisfied st) ps of Some p \<Rightarrow> (dp_Name p, False) | None \<Rightarrow> ([], True)) \<and>
   Evaluate ps unknown_network = ([], True)"
proof
  show "Evaluate ps st = (case find (satisfied st) ps of Some p \<Rightarrow> (dp_Name p, False) | None \<Rightarrow> ([], True))"
    by (rule Evaluate_find)
  have "find (satisfied unknown_network) ps = None"
    by (simp add: find_None_iff unknown_not_satisfied)
  then show "Evaluate ps unknown_network = ([], True)" by (simp add: Evaluate_find)
qed

text \<open>
  Claim C32. \<open>splitTerse\<close> inverts the terse format of \<open>nmcli\<close>: for every non-empty list of valid
  UTF-8 fields, whatever colons, backslashes and multi-byte characters they hold, splitting the
  escaped line gives the fields back.
\<close>

theorem split_terse_roundtrip:
  "list_all utf8_valid fs \<Longrightarrow> fs \<noteq> [] \<Longrightarrow> splitTerse (terse_line fs) = fs"
  by (rule splitTerse_terse_line)

theorem split_terse_roundtrip_witness:
  "splitTerse (terse_line [''wlan0'', ''yes'', ''a:b'' @ [CHR 0x5C, CHR 0xC3, CHR 0xA9]]) =
     [''wlan0'', ''yes'', ''a:b'' @ [CHR 0x5C, CHR 0xC3, CHR 0xA9]]"
proof (rule split_terse_roundtrip)
  show "list_all utf8_valid [''wlan0'', ''yes'', ''a:b'' @ [CHR 0x5C, CHR 0xC3, CHR 0xA9]]"
    by (simp add: Let_def decode_rune_def rune_ok_def rune_error_def cont_byte_def)
qed simp

text \<open>
  \<open>Query\<close> reads what \<open>ip\<close> and \<open>nmcli\<close> print: from a default route line it takes the
  gateway and the device, and from the table of wireless networks the SSID of the row that is
  active on that device, for SSIDs with any characters but line breaks.
\<close>

theorem query_reads_network:
  assumes "token gateway" "token dev" "list_all wifi_row_ok rows"
  shows "Query (Output (''default via '' @ gateway @ '' dev '' @ dev @ '' '' @ rest)) ip_addr
      (Output (nmcli_table rows)) =
    Inr \<lparr>ns_SSID = active_ssid rows dev, ns_Gateway = gateway, ns_Address = interfaceAddress (ip_addr dev)\<rparr>"
proof -
  have nl: "\<not> is_space c \<Longrightarrow> c \<noteq> CHR 0x0A" for c by (auto simp: is_space_def)
  have "takeWhile (\<lambda>c. c \<noteq> CHR 0x0A) (''default via '' @ gateway @ '' dev '' @ dev @ '' '' @ rest)
      = ''default via '' @ gateway @ '' dev '' @ dev @ '' '' @ takeWhile (\<lambda>c. c \<noteq> CHR 0x0A) rest"
    using assms(1,2) nl by (simp add: token_def list_all_iff takeWhile_append2)
  moreover have "find_via False (''default via '' @ gateway @ '' dev '' @ dev @ '' '' @ takeWhile (\<lambda>c. c \<noteq> CHR 0x0A) rest)
      = Some (gateway, dev)"
    by (rule find_via_default [OF assms(1,2)]) (simp add: is_space_def)
  ultimately have "defaultRoute (Output (''default via '' @ gateway @ '' dev '' @ dev @ '' '' @ rest)) = Inr (dev, gateway)"
    by (simp only: defaultRoute_def exec_result.case option.case prod.case)
  moreover have "dev \<noteq> []" using assms(2) by (simp add: token_def)
  ultimately show ?thesis using wifiSSID_table [OF assms(3)]
    by (simp only: Query_def andthen.simps prod.case if_True simp_thms)
qed

lemma char_of_92: "char_of (92 :: nat) = CHR 0x5C"
  by code_simp

theorem query_reads_network_witness:
  "Query (Output (''default via '' @ ''10.0.0.1'' @ '' dev '' @ ''wlan0'' @ '' '' @ ''proto dhcp'')) (\<lambda>_. ExitError)
      (Output (nmcli_table [(''wlan0'', True, ''Cafe: up'')])) =
    Inr \<lparr>ns_SSID = active_ssid [(''wlan0'', True, ''Cafe: up'')] ''wlan0'', ns_Gateway = ''10.0.0.1'',
      ns_Address = interfaceAddress ExitError\<rparr>"
  by (rule query_reads_network)
     (simp_all add: token_def is_space_def Let_def rune_ok_def rune_error_def terse_line_def
      escape_terse_def escape_char_def char_of_92 max_token_def)

text \<open>
  Claim C33. The two packages the program parses subnets with agree on IPv4: a subnet that
  \<open>netip.ParsePrefix\<close> accepts (the front-door proxy's table) is one the direct-profile check
  accepts, and both contain the same IPv4 addresses.
\<close>

theorem subnet_check_agrees_with_table:
  assumes "parse_prefix cidr = Some p" "pfx_addr p = V4 x" "parse_addr address = Some (V4 y)"
  shows "addressInSubnet address cidr \<longleftrightarrow> prefix_contains (masked p) (V4 y)"
proof -
  note c = parse_cidr_prefix4 [OF assms(1,2)]
  have "address \<noteq> []" using assms(3) by (auto simp: parse_addr_def)
  moreover have "parse_ip address = Some (be_bytes 16 (as16 (V4 y)))"
    by (simp only: parse_ip_def assms(3) option.case zone.simps if_False simp_thms)
  ultimately have "addressInSubnet address cidr \<longleftrightarrow>
      ipnet_contains \<lparr>net_ip = mask_bytes (be_bytes 4 x) (cidr_mask (pfx_bits p) 4),
        net_mask = cidr_mask (pfx_bits p) 4\<rparr> (be_bytes 16 (as16 (V4 y)))"
    using c by (simp only: addressInSubnet_def option.case if_False)
  also have "\<dots> \<longleftrightarrow> prefix_contains (masked p) (V4 y)"
    using ipnet_contains_prefix4 [of "pfx_bits p" x y] c masked_contains4 [OF assms(2)] by simp
  finally show ?thesis .
qed

theorem subnet_check_agrees_with_table_witness:
  "addressInSubnet ''10.20.2.222'' ''10.20.0.0/21'' \<longleftrightarrow>
     prefix_contains (masked \<lparr>pfx_addr = V4 0x0A140000, pfx_bits = 21\<rparr>) (V4 0x0A1402DE)"
  by (rule subnet_check_agrees_with_table [where x = "0x0A140000"]) (code_simp, simp, code_simp)

end
