(* ===== verification/Duration.thy ===== *)
theory Duration
  imports Complex_Main Config "HOL-Library.Log_Nat"
begin

text \<open>
  The \<open>Duration\<close> type of \<open>internal/config/config.go\<close> with \<open>UnmarshalYAML\<close> and \<open>MarshalYAML\<close>, over
  the two functions of Go's \<open>time\<close> package they call, \<open>time.ParseDuration\<close> and
  \<open>time.Duration.String\<close>. A 64-bit duration is a word; the unsigned arithmetic of the parser is on
  naturals, with the wrap-around written out where it can happen; the \<open>float64\<close> product of a
  fraction and its unit is computed with its rounding. What the YAML decoder makes of the node (a
  string, or an error) is a parameter.
\<close>

section \<open>Floating point\<close>

text \<open>
  \<open>float64\<close> arithmetic on values that are zero or between \<open>2 ^ -100\<close> and \<open>2 ^ 100\<close>: the exact result
  rounded to 53 bits, ties to even. \<open>ulp x\<close> is the distance of neighbouring values at \<open>x\<close>, found from
  the length of the integer part of \<open>x\<close> scaled by \<open>2 ^ 128\<close>.
\<close>

definition round_half_even :: "rat \<Rightarrow> int" where
  "round_half_even q =
     (let n = \<lfloor>q\<rfloor>; r = q - of_int n
      in if r < 1 / 2 \<or> (r = 1 / 2 \<and> even n) then n else n + 1)"

definition ulp :: "rat \<Rightarrow> rat" where
  "ulp x = 2 ^ nat (bitlen \<lfloor>x * 2 ^ 128\<rfloor>) / 2 ^ 181"

definition round64 :: "rat \<Rightarrow> rat" where
  "round64 x = of_int (round_half_even (x / ulp x)) * ulp x"

text \<open>\<open>Duration.Seconds\<close>, and \<open>int(d.Seconds())\<close>, which truncates towards zero.\<close>

definition Seconds :: "duration \<Rightarrow> rat" where
  "Seconds d =
     (let n = nat \<bar>sint d\<bar>; sec = n div 1000000000; nsec = n mod 1000000000
      in of_int (sgn (sint d)) * round64 (of_nat sec + round64 (of_nat nsec / 1000000000)))"

definition seconds :: "duration \<Rightarrow> int" where
  "seconds d = (let x = Seconds d in if x < 0 then - \<lfloor>- x\<rfloor> else \<lfloor>x\<rfloor>)"

lemma round_half_even_int [simp]: "round_half_even (of_int n) = n"
  by (simp add: round_half_even_def Let_def)

lemma round_half_even_error: "\<bar>of_int (round_half_even q) - q\<bar> \<le> 1 / 2"
proof -
  have "of_int \<lfloor>q\<rfloor> \<le> q" "q < of_int \<lfloor>q\<rfloor> + 1" by linarith+
  then show ?thesis by (auto simp: round_half_even_def Let_def)
qed

lemma ulp_pos [simp]: "0 < ulp x" "ulp x \<noteq> 0"
  by (simp_all add: ulp_def)

lemma round64_0 [simp]: "round64 0 = 0"
  using round_half_even_int [of 0] by (simp add: round64_def del: round_half_even_int)

text \<open>Rounding is off by at most one part in \<open>2 ^ 53\<close>.\<close>

lemma round64_error:
  assumes "1 \<le> x * 2 ^ 128"
  shows "\<bar>round64 x - x\<bar> \<le> x / 2 ^ 53"
proof -
  define n where "n = \<lfloor>x * 2 ^ 128\<rfloor>"
  have n: "1 \<le> n" using assms by (simp add: n_def)
  then have b: "1 \<le> bitlen n" using bitlen_nonneg [of n] bitlen_eq_zero_iff [of n] by linarith
  have "2 ^ nat (bitlen n) = 2 * (2 :: int) ^ nat (bitlen n - 1)"
    using b by (simp add: nat_diff_distrib power_Suc [symmetric] del: power_Suc)
  also have "\<dots> \<le> 2 * n" using bitlen_bounds [of n] n by simp
  finally have "(of_int (2 ^ nat (bitlen n)) :: rat) \<le> of_int (2 * n)" by (simp only: of_int_le_iff)
  also have "\<dots> \<le> 2 * (x * 2 ^ 128)"
  proof -
    have "of_int n \<le> x * 2 ^ 128" unfolding n_def by (rule of_int_floor_le)
    then show ?thesis by simp
  qed
  finally have "ulp x * 2 ^ 181 \<le> 2 * (x * 2 ^ 128)" by (simp add: ulp_def n_def)
  then have ulp: "ulp x \<le> x / 2 ^ 52" by simp
  have "round64 x - x = (of_int (round_half_even (x / ulp x)) - x / ulp x) * ulp x"
    by (simp add: round64_def left_diff_distrib)
  then have "\<bar>round64 x - x\<bar> = \<bar>of_int (round_half_even (x / ulp x)) - x / ulp x\<bar> * ulp x"
    by (simp add: abs_mult less_imp_le)
  also have "\<dots> \<le> 1 / 2 * ulp x"
    using round_half_even_error by (intro mult_right_mono) (simp_all add: less_imp_le)
  finally show ?thesis using ulp by simp
qed

lemma round64_bounds:
  assumes "1 \<le> x * 2 ^ 128"
  shows "x * 9007199254740991 \<le> round64 x * 9007199254740992"
    "round64 x * 9007199254740992 \<le> x * 9007199254740993"
proof -
  have "\<bar>round64 x - x\<bar> * 9007199254740992 \<le> x" using round64_error [OF assms] by simp
  then have "\<bar>(round64 x - x) * 9007199254740992\<bar> \<le> x"
    by (simp only: abs_mult abs_numeral)
  from abs_le_D1 [OF this] abs_le_D2 [OF this]
  show "x * 9007199254740991 \<le> round64 x * 9007199254740992"
    "round64 x * 9007199254740992 \<le> x * 9007199254740993" by (simp_all add: left_diff_distrib)
qed

lemma round64_nat:
  assumes "0 < n" "n < 2 ^ 53"
  shows "round64 (of_nat n) = of_nat n"
proof -
  let ?b = "nat (bitlen \<lfloor>of_nat n * 2 ^ 128 :: rat\<rfloor>)"
  have "bitlen (int n) \<le> 53" using assms(2) by (simp add: bitlen_le_iff_power)
  moreover have "\<lfloor>of_nat n * 2 ^ 128 :: rat\<rfloor> = int n * 2 ^ 128"
    using floor_of_int [of "int n * 2 ^ 128", where 'a = rat] by simp
  ultimately have "?b \<le> 181" using bitlen_pow2 [of "int n" 128] assms(1) by (simp del: bitlen_pow2)
  then have u: "ulp (of_nat n) * 2 ^ (181 - ?b) = 1" by (simp add: ulp_def power_add [symmetric])
  then have "of_nat n / ulp (of_nat n) = of_nat n * (ulp (of_nat n) * 2 ^ (181 - ?b)) / ulp (of_nat n)" by simp
  then have "of_nat n / ulp (of_nat n) = of_int (int n * 2 ^ (181 - ?b))" by simp
  then have "round_half_even (of_nat n / ulp (of_nat n)) = int n * 2 ^ (181 - ?b)"
    by (simp only: round_half_even_int)
  then show ?thesis using u by (simp add: round64_def mult.assoc mult.commute [of _ "ulp (of_nat n)"])
qed

text \<open>Below \<open>2 ^ 22\<close> seconds (48 days) no rounding reaches the next integer.\<close>

lemma Seconds_floor:
  assumes "sec < 2 ^ 22" "nsec < 1000000000"
  shows "\<lfloor>round64 (of_nat sec + round64 (of_nat nsec / 1000000000))\<rfloor> = int sec"
proof (cases "nsec = 0")
  case True
  then show ?thesis using assms(1) round64_nat [of sec] by (cases "sec = 0") simp_all
next
  case False
  define x r where "x = (of_nat nsec / 1000000000 :: rat)" and "r = round64 x"
  have "nsec \<le> 999999999" "1 \<le> nsec" "sec \<le> 4194303" using assms False by simp_all
  then have "(of_nat nsec :: rat) \<le> of_nat 999999999" "(of_nat 1 :: rat) \<le> of_nat nsec"
    "(of_nat sec :: rat) \<le> of_nat 4194303" by (simp_all only: of_nat_le_iff)
  then have x: "1 / 1000000000 \<le> x" "x \<le> 1 - 1 / 1000000000" and sec: "of_nat sec \<le> (4194303 :: rat)"
    by (simp_all add: x_def)
  have sec0: "0 \<le> (of_nat sec :: rat)" by simp
  have r: "x * 9007199254740991 \<le> r * 9007199254740992" "r * 9007199254740992 \<le> x * 9007199254740993"
    unfolding r_def using x(1) by (intro round64_bounds; simp)+
  moreover have x': "1 \<le> x * 1000000000" "x * 1000000000 \<le> 999999999" using x by simp_all
  ultimately have "1 \<le> (of_nat sec + r) * 2000000000" using sec0 by (simp add: distrib_right)
  then have "1 \<le> (of_nat sec + r) * 2 ^ 128" by simp
  from round64_bounds [OF this, unfolded distrib_right]
  have "of_nat sec \<le> round64 (of_nat sec + r)" "round64 (of_nat sec + r) < of_nat sec + 1"
    using r x' sec by - linarith+
  then have "\<lfloor>round64 (of_nat sec + r)\<rfloor> = int sec" by (simp add: floor_eq_iff)
  then show ?thesis by (simp add: r_def x_def)
qed

lemma seconds_exact:
  assumes "\<bar>sint d\<bar> < 2 ^ 22 * 1000000000"
  shows "seconds d = sgn (sint d) * (\<bar>sint d\<bar> div 1000000000)"
proof -
  let ?n = "nat \<bar>sint d\<bar>"
  let ?x = "round64 (of_nat (?n div 1000000000) + round64 (of_nat (?n mod 1000000000) / 1000000000))"
  have "?n div 1000000000 < 2 ^ 22" using assms by (simp add: less_mult_imp_div_less)
  then have fl: "\<lfloor>?x\<rfloor> = int (?n div 1000000000)" by (intro Seconds_floor) simp_all
  then have "0 \<le> ?x" by linarith
  moreover have "int (?n div 1000000000) = \<bar>sint d\<bar> div 1000000000" by (simp add: zdiv_int)
  ultimately show ?thesis using fl
    by (cases "sint d" "0 :: int" rule: linorder_cases) (auto simp: seconds_def Seconds_def Let_def)
qed

section \<open>time.Duration.String\<close>

text \<open>
  \<open>fmtFrac\<close>: the digits of \<open>v / 10 ^ prec\<close> in front of the tail \<open>buf\<close>, without trailing zeros, and
  the integer part. The loop runs from the last digit, \<open>pr\<close> says whether it prints already.
\<close>

fun frac_digits :: "nat \<Rightarrow> bool \<Rightarrow> string \<Rightarrow> nat \<Rightarrow> bool \<times> string \<times> nat" where
  "frac_digits 0 pr buf v = (pr, buf, v)"
| "frac_digits (Suc n) pr buf v =
     (let digit = v mod 10; pr' = (pr \<or> digit \<noteq> 0)
      in frac_digits n pr' (if pr' then digit_char digit # buf else buf) (v div 10))"

definition fmtFrac :: "string \<Rightarrow> nat \<Rightarrow> nat \<Rightarrow> string \<times> nat" where
  "fmtFrac buf v prec =
     (case frac_digits prec False buf v of (pr, b, v') \<Rightarrow> (if pr then CHR ''.'' # b else b, v'))"

definition micro_unit :: string where
  "micro_unit = [char_of (194 :: nat), char_of (181 :: nat), CHR ''s'']"

definition format_small :: "nat \<Rightarrow> string" where
  "format_small u =
     (if u = 0 then ''0s''
      else let (unit, prec) = (if u < 1000 then (''ns'', 0)
                               else if u < 1000000 then (micro_unit, 3) else (''ms'', 6));
               (buf, v) = fmtFrac unit u prec
           in digits10 v @ buf)"

definition format_large :: "nat \<Rightarrow> string" where
  "format_large u =
     (let (buf, v) = fmtFrac ''s'' u 9;
          buf = digits10 (v mod 60) @ buf; v = v div 60
      in if v = 0 then buf
         else let buf = digits10 (v mod 60) @ CHR ''m'' # buf; v = v div 60
              in if v = 0 then buf else digits10 v @ CHR ''h'' # buf)"

text \<open>The negation of the least duration is itself, which as an unsigned word is its magnitude.\<close>

definition duration_string :: "duration \<Rightarrow> string" where
  "duration_string d =
     (let neg = d <s 0; u = unat (if neg then - d else d);
          body = (if u < 1000000000 then format_small u else format_large u)
      in if neg then CHR ''-'' # body else body)"

section \<open>time.ParseDuration\<close>

datatype duration_error = BadDuration string | MissingUnit string | UnknownUnit string string

text \<open>\<open>leadingInt\<close>: \<open>None\<close> when the value exceeds \<open>1 << 63\<close>.\<close>

fun leadingInt :: "nat \<Rightarrow> string \<Rightarrow> (nat \<times> string) option" where
  "leadingInt x [] = Some (x, [])"
| "leadingInt x (c # s) =
     (if \<not> is_digit c then Some (x, c # s)
      else if x > 2 ^ 63 div 10 then None
      else let y = x * 10 + digit_value c in if y > 2 ^ 63 then None else leadingInt y s)"

text \<open>\<open>leadingFraction\<close>: digits beyond what fits are read and ignored. The scale, a power of ten of
  at most 19 digits, is exact as a \<open>float64\<close>.\<close>

fun leadingFraction :: "bool \<Rightarrow> nat \<Rightarrow> nat \<Rightarrow> string \<Rightarrow> nat \<times> nat \<times> string" where
  "leadingFraction overflow x scale [] = (x, scale, [])"
| "leadingFraction overflow x scale (c # s) =
     (if \<not> is_digit c then (x, scale, c # s)
      else if overflow \<or> x > (2 ^ 63 - 1) div 10 then leadingFraction True x scale s
      else let y = x * 10 + digit_value c
           in if y > 2 ^ 63 then leadingFraction True x scale s
              else leadingFraction False y (scale * 10) s)"

definition unitMap :: "(string \<times> nat) list" where
  "unitMap = [(''ns'', 1), (''us'', 1000), (micro_unit, 1000),
     ([char_of (206 :: nat), char_of (188 :: nat), CHR ''s''], 1000),
     (''ms'', 1000000), (''s'', 1000000000), (''m'', 60000000000), (''h'', 3600000000000)]"

text \<open>\<open>uint64(float64(f) * (float64(unit) / scale))\<close>\<close>

definition frac_value :: "nat \<Rightarrow> nat \<Rightarrow> nat \<Rightarrow> nat" where
  "frac_value f scale unit = nat \<lfloor>round64 (round64 (of_nat f) * round64 (of_nat unit / of_nat scale))\<rfloor>"

text \<open>One iteration of the loop: a number with its unit. \<open>orig\<close> is the text the errors quote.\<close>

definition unit_char :: "char \<Rightarrow> bool" where
  "unit_char c \<longleftrightarrow> c \<noteq> CHR ''.'' \<and> \<not> is_digit c"

definition parse_number :: "string \<Rightarrow> string \<Rightarrow> duration_error + nat \<times> nat \<times> nat \<times> string" where
  "parse_number orig s =
     (if s = [] \<or> unit_char (hd s) then Inl (BadDuration orig)
      else case leadingInt 0 s of
        None \<Rightarrow> Inl (BadDuration orig)
      | Some (v, t) \<Rightarrow>
          let pre = length t \<noteq> length s in
          if t \<noteq> [] \<and> hd t = CHR ''.'' then
            (let (f, scale, t') = leadingFraction False 0 1 (tl t) in
             if \<not> pre \<and> length t' = length (tl t) then Inl (BadDuration orig)
             else Inr (v, f, scale, t'))
          else if \<not> pre then Inl (BadDuration orig) else Inr (v, 0, 1, t))"

definition parse_unit :: "string \<Rightarrow> string \<Rightarrow> duration_error + nat \<times> string" where
  "parse_unit orig s =
     (let u = takeWhile unit_char s in
      if u = [] then Inl (MissingUnit orig)
      else case map_of unitMap u of
        None \<Rightarrow> Inl (UnknownUnit u orig)
      | Some unit \<Rightarrow> Inr (unit, dropWhile unit_char s))"

definition parse_item :: "string \<Rightarrow> string \<Rightarrow> duration_error + nat \<times> string" where
  "parse_item orig s =
     andthen (parse_number orig s) (\<lambda>(v, f, scale, t).
     andthen (parse_unit orig t) (\<lambda>(unit, rest).
       if v > 2 ^ 63 div unit then Inl (BadDuration orig)
       else let v = v * unit + (if f > 0 then frac_value f scale unit else 0)
            in if f > 0 \<and> v > 2 ^ 63 then Inl (BadDuration orig) else Inr (v, rest)))"

lemma parse_unit_shorter: "parse_unit orig s = Inr (u, t) \<Longrightarrow> length t < length s"
  using length_dropWhile_le [of unit_char "tl s"]
  by (cases s) (auto simp: parse_unit_def Let_def split: if_splits option.splits)

lemma leadingInt_length: "leadingInt x s = Some (v, t) \<Longrightarrow> length t \<le> length s"
  by (induction x s rule: leadingInt.induct) (fastforce simp: Let_def split: if_splits)+

lemma leadingFraction_length: "leadingFraction ov x k s = (v, k', t) \<Longrightarrow> length t \<le> length s"
  by (induction ov x k s rule: leadingFraction.induct) (fastforce simp: Let_def split: if_splits)+

lemma parse_number_length: "parse_number orig s = Inr (v, f, k, t) \<Longrightarrow> length t \<le> length s"
  by (auto simp: parse_number_def Let_def split: if_splits option.splits prod.splits
      dest!: leadingInt_length leadingFraction_length)

lemma parse_item_shorter: "parse_item orig s = Inr (v, t) \<Longrightarrow> length t < length s"
  by (auto simp: parse_item_def andthen_eq_Inr Let_def split: if_splits
      dest!: parse_number_length parse_unit_shorter)

text \<open>The loop; \<open>d += v\<close> is an addition of \<open>uint64\<close>.\<close>

function parse_items :: "string \<Rightarrow> nat \<Rightarrow> string \<Rightarrow> duration_error + nat" where
  "parse_items orig d s =
     (if s = [] then Inr d
      else case parse_item orig s of
        Inl e \<Rightarrow> Inl e
      | Inr (v, t) \<Rightarrow>
          let d' = (d + v) mod 2 ^ 64
          in if d' > 2 ^ 63 then Inl (BadDuration orig) else parse_items orig d' t)"
  by pat_completeness auto
termination
  by (relation "measure (\<lambda>(orig, d, s). length s)") (auto dest: parse_item_shorter)

declare parse_items.simps [simp del]

definition ParseDuration :: "string \<Rightarrow> duration_error + duration" where
  "ParseDuration orig =
     (let (neg, s) = (case orig of
            c # t \<Rightarrow> if c = CHR ''-'' \<or> c = CHR ''+'' then (c = CHR ''-'', t) else (False, orig)
          | [] \<Rightarrow> (False, []))
      in if s = ''0'' then Inr 0
         else if s = [] then Inl (BadDuration orig)
         else andthen (parse_items orig 0 s) (\<lambda>d.
           if neg then Inr (- of_nat d)
           else if d > 2 ^ 63 - 1 then Inl (BadDuration orig)
           else Inr (of_nat d)))"

section \<open>The YAML codec of the type\<close>

text \<open>\<open>unmarshal(&s)\<close> is an error of the decoder or the string of the node.\<close>

datatype codec_error = NotAString string | InvalidDuration string duration_error

definition UnmarshalYAML :: "string + string \<Rightarrow> codec_error + duration" where
  "UnmarshalYAML unmarshal =
     (case unmarshal of
        Inl e \<Rightarrow> Inl (NotAString e)
      | Inr s \<Rightarrow>
          (case ParseDuration s of
             Inl e \<Rightarrow> Inl (InvalidDuration s e)
           | Inr parsed \<Rightarrow> Inr parsed))"

definition MarshalYAML :: "duration \<Rightarrow> string" where
  "MarshalYAML d = duration_string d"

section \<open>Parsing what is printed\<close>

lemma foldl_digits_ge: "x \<le> foldl (\<lambda>n c. 10 * n + digit_value c) x ds"
  by (induction ds arbitrary: x) (simp, fastforce intro: order.trans [rotated])

lemma leadingInt_digits:
  assumes "list_all is_digit ds" "r = [] \<or> \<not> is_digit (hd r)"
    and "foldl (\<lambda>n c. 10 * n + digit_value c) x ds \<le> 2 ^ 63"
  shows "leadingInt x (ds @ r) = Some (foldl (\<lambda>n c. 10 * n + digit_value c) x ds, r)"
  using assms
proof (induction ds arbitrary: x)
  case Nil
  then show ?case by (cases r) auto
next
  case (Cons c ds)
  have "10 * x + digit_value c \<le> 2 ^ 63"
    using foldl_digits_ge [of "10 * x + digit_value c" ds] Cons.prems(3) by simp
  then show ?case using Cons.IH [of "10 * x + digit_value c"] Cons.prems by (simp add: mult.commute Let_def)
qed

lemma leadingFraction_digits:
  assumes "list_all is_digit ds" "r = [] \<or> \<not> is_digit (hd r)"
    and "foldl (\<lambda>n c. 10 * n + digit_value c) x ds < 2 ^ 63"
  shows "leadingFraction False x k (ds @ r) =
    (foldl (\<lambda>n c. 10 * n + digit_value c) x ds, k * 10 ^ length ds, r)"
  using assms
proof (induction ds arbitrary: x k)
  case Nil
  then show ?case by (cases r) auto
next
  case (Cons c ds)
  have "10 * x + digit_value c < 2 ^ 63"
    using foldl_digits_ge [of "10 * x + digit_value c" ds] Cons.prems(3) by simp
  then show ?case using Cons.IH [of "10 * x + digit_value c" "k * 10"] Cons.prems by (simp add: mult.commute mult.left_commute Let_def)
qed

lemma mod_power_Suc: "v mod 10 ^ Suc n = 10 * (v div 10 mod 10 ^ n) + v mod (10 :: nat)"
  by (simp add: mod_mult2_eq)

lemma frac_digits_spec:
  "\<exists>ds. frac_digits n pr buf v = (pr \<or> v mod 10 ^ n \<noteq> 0, ds @ buf, v div 10 ^ n) \<and>
     list_all is_digit ds \<and> length ds \<le> n \<and> decimal ds * 10 ^ (n - length ds) = v mod 10 ^ n \<and>
     (pr \<longrightarrow> length ds = n) \<and> (\<not> pr \<and> v mod 10 ^ n = 0 \<longrightarrow> ds = [])"
proof (induction n arbitrary: pr buf v)
  case (Suc n)
  let ?d = "v mod 10" and ?pr = "pr \<or> v mod 10 \<noteq> 0"
  let ?buf = "if ?pr then digit_char ?d # buf else buf"
  from Suc.IH [of ?pr ?buf "v div 10"] obtain ds where ds:
    "frac_digits n ?pr ?buf (v div 10) = (?pr \<or> v div 10 mod 10 ^ n \<noteq> 0, ds @ ?buf, v div 10 div 10 ^ n)"
    "list_all is_digit ds" "length ds \<le> n" "decimal ds * 10 ^ (n - length ds) = v div 10 mod 10 ^ n"
    "?pr \<longrightarrow> length ds = n" "\<not> ?pr \<and> v div 10 mod 10 ^ n = 0 \<longrightarrow> ds = []"
    by blast
  have div: "v div 10 div 10 ^ n = v div 10 ^ Suc n" by (simp add: div_mult2_eq)
  have mod: "v mod 10 ^ Suc n = 10 * (v div 10 mod 10 ^ n) + ?d" by (rule mod_power_Suc)
  show ?case
  proof (cases ?pr)
    case True
    then show ?thesis using ds mod div
      by (intro exI [of _ "ds @ [digit_char ?d]"]) (auto simp: Let_def)
  next
    case False
    then have len: "Suc n - length ds = Suc (n - length ds)" using ds(3) by simp
    from False ds mod div show ?thesis
      by (intro exI [of _ ds]) (auto simp: Let_def len)
  qed
qed simp

definition frac_text :: "string \<Rightarrow> string" where
  "frac_text ds = (if ds = [] then [] else CHR ''.'' # ds)"

lemma fmtFrac_spec:
  obtains ds where "fmtFrac buf v n = (frac_text ds @ buf, v div 10 ^ n)" "list_all is_digit ds"
    "length ds \<le> n" "decimal ds * 10 ^ (n - length ds) = v mod 10 ^ n"
proof -
  from frac_digits_spec [of n False buf v] obtain ds where
    ds: "frac_digits n False buf v = (v mod 10 ^ n \<noteq> 0, ds @ buf, v div 10 ^ n)" "list_all is_digit ds"
      "length ds \<le> n" "decimal ds * 10 ^ (n - length ds) = v mod 10 ^ n" "v mod 10 ^ n = 0 \<longrightarrow> ds = []"
    by auto
  moreover have "ds \<noteq> []" if "v mod 10 ^ n \<noteq> 0" using ds(4) that by auto
  ultimately show thesis by (intro that [of ds]) (auto simp: fmtFrac_def frac_text_def)
qed

lemma frac_value_exact:
  assumes "0 < f" "f < scale" "scale dvd unit" "0 < unit" "unit < 2 ^ 53"
  shows "frac_value f scale unit = f * (unit div scale)"
proof -
  from assms(3) obtain k where k: "unit = scale * k" ..
  with assms have pos: "0 < scale" "0 < k" by auto
  have "f * k < unit" using assms(2) pos by (simp add: k)
  then have lt: "f * k < 2 ^ 53" using assms(5) by linarith
  have "k * 1 \<le> f * k" using assms(1) by simp
  then have k53: "k < 2 ^ 53" using lt by linarith
  have "f \<le> f * k" using pos by simp
  then have f53: "f < 2 ^ 53" using lt by linarith
  have q: "of_nat unit / of_nat scale = (of_nat k :: rat)" using pos by (simp add: k)
  have "round64 (round64 (of_nat f) * round64 (of_nat unit / of_nat scale)) = of_nat (f * k)"
    unfolding q round64_nat [OF assms(1) f53] round64_nat [OF pos(2) k53]
    using round64_nat [of "f * k"] assms(1) pos lt by simp
  then show ?thesis
    using pos floor_of_nat [of "f * k", where 'a = rat] by (simp add: frac_value_def k del: of_nat_mult)
qed

lemma decimal_bound: "list_all is_digit ds \<Longrightarrow> decimal ds < 10 ^ length ds"
proof (induction ds rule: rev_induct)
  case (snoc c ds)
  then have "digit_value c < 10" by (auto simp: is_digit_def digit_value_def)
  with snoc show ?case by simp
qed simp

lemma unit_charD: "unit_char c \<Longrightarrow> \<not> is_digit c" "unit_char c \<Longrightarrow> c \<noteq> CHR ''.''"
  by (simp_all add: unit_char_def)

lemma decimal_eq: "foldl (\<lambda>n c. 10 * n + digit_value c) 0 ds = decimal ds"
  by (simp add: decimal_def)

lemma parse_number_text:
  assumes "n \<le> 2 ^ 63" "list_all is_digit ds" "length ds \<le> 18" "u \<noteq> []" "unit_char (hd u)"
  shows "parse_number orig (digits10 n @ frac_text ds @ u) =
    Inr (n, decimal ds, 10 ^ length ds, u)"
proof -
  obtain c t where ct: "digits10 n = c # t" by (cases "digits10 n") auto
  then have c: "\<not> unit_char c" using digits10_hd_digit by (simp add: unit_char_def)
  have u: "\<not> is_digit (hd u)" "u ! 0 \<noteq> CHR ''.''" using assms(4,5) by (simp_all add: hd_conv_nth unit_char_def)
  have "leadingInt 0 (digits10 n @ frac_text ds @ u) = Some (n, frac_text ds @ u)"
    using leadingInt_digits [of "digits10 n" "frac_text ds @ u" 0] assms(1) u(1)
    by (simp add: decimal_eq frac_text_def is_digit_def)
  moreover have "(10 :: nat) ^ length ds \<le> 10 ^ 18" using assms(3) by (intro power_increasing) simp_all
  then have "decimal ds < 2 ^ 63" using decimal_bound [OF assms(2)] by simp
  then have "leadingFraction False 0 1 (ds @ u) = (decimal ds, 10 ^ length ds, u)"
    using leadingFraction_digits [of ds u 0 1] assms(2) u(1) by (simp add: decimal_eq)
  moreover obtain d t' where "u = d # t'" "d \<noteq> CHR ''.''" using assms(4,5) by (cases u) (auto dest: unit_charD)
  ultimately show ?thesis using c assms(2)
    by (cases ds) (auto simp: parse_number_def ct frac_text_def Let_def)
qed

definition unit_ok :: "string \<Rightarrow> nat \<Rightarrow> nat \<Rightarrow> bool" where
  "unit_ok u unit n \<longleftrightarrow> map_of unitMap u = Some unit \<and> u \<noteq> [] \<and> list_all unit_char u \<and>
     10 ^ n dvd unit \<and> 0 < unit \<and> unit < 2 ^ 53 \<and> n \<le> 18"

lemma parse_unit_text:
  assumes "unit_ok u unit n" "r = [] \<or> \<not> unit_char (hd r)"
  shows "parse_unit orig (u @ r) = Inr (unit, r)"
proof -
  have "takeWhile unit_char (u @ r) = u" "dropWhile unit_char (u @ r) = r"
    using assms by (cases r; simp add: unit_ok_def list_all_iff takeWhile_eq_all_conv dropWhile_eq_Nil_conv)+
  then show ?thesis using assms(1) by (simp add: parse_unit_def unit_ok_def Let_def)
qed

lemma parse_items_text:
  assumes unit: "unit_ok u unit n" and ds: "list_all is_digit ds" "length ds \<le> n"
    and r: "r = [] \<or> \<not> unit_char (hd r)"
    and val: "d + m * unit + decimal ds * (unit div 10 ^ length ds) \<le> 2 ^ 63"
  shows "parse_items orig d (digits10 m @ frac_text ds @ u @ r) =
    parse_items orig (d + m * unit + decimal ds * (unit div 10 ^ length ds)) r"
proof -
  let ?v = "m * unit + decimal ds * (unit div 10 ^ length ds)"
  have dvd: "10 ^ length ds dvd unit" using unit ds(2) by (metis unit_ok_def dvd_trans le_imp_power_dvd)
  have unit': "0 < unit" "unit < 2 ^ 53" "length ds \<le> 18" using unit ds(2) by (auto simp: unit_ok_def)
  have m: "m \<le> 2 ^ 63 div unit" using val unit'(1) by (simp add: less_eq_div_iff_mult_less_eq)
  then have "m \<le> 2 ^ 63" by (metis div_le_dividend order.trans)
  moreover have "unit_char (hd (u @ r))" "u @ r \<noteq> []" using unit by (cases u; simp add: unit_ok_def)+
  ultimately have num: "parse_number orig (digits10 m @ frac_text ds @ u @ r) =
      Inr (m, decimal ds, 10 ^ length ds, u @ r)"
    using ds unit'(3) by (intro parse_number_text)
  have frac: "(if 0 < decimal ds then frac_value (decimal ds) (10 ^ length ds) unit else 0) =
      decimal ds * (unit div 10 ^ length ds)"
    using frac_value_exact [OF _ decimal_bound [OF ds(1)] dvd unit'(1,2)] by simp
  have "parse_item orig (digits10 m @ frac_text ds @ u @ r) = Inr (?v, r)"
    unfolding parse_item_def num andthen.simps prod.case parse_unit_text [OF unit r] Let_def frac
    using m val by simp
  then show ?thesis using val by (subst parse_items.simps) (simp add: add.assoc)
qed

lemma micro_bytes: "char_of (194 :: nat) \<noteq> CHR ''.''" "char_of (181 :: nat) \<noteq> CHR ''.''"
  by (simp_all add: code_eq_iff [symmetric])

lemma units:
  "unit_ok ''ns'' 1 0" "unit_ok micro_unit 1000 3" "unit_ok ''ms'' 1000000 6"
  "unit_ok ''s'' 1000000000 9" "unit_ok ''m'' 60000000000 0" "unit_ok ''h'' 3600000000000 0"
  by (simp_all add: unit_ok_def unitMap_def micro_unit_def unit_char_def is_digit_def micro_bytes)

lemma fmtFrac_int: "fmtFrac u v n = (buf, w) \<Longrightarrow> w = v div 10 ^ n"
  using fmtFrac_spec [of u v n] by (metis snd_conv)

text \<open>The last item of a text, with the fraction that \<open>fmtFrac\<close> prints.\<close>

lemma parse_items_frac:
  assumes unit: "unit_ok u (10 ^ n) n" and buf: "fmtFrac u v n = (buf, w)"
    and val: "d + k * 10 ^ n + v mod 10 ^ n \<le> 2 ^ 63"
  shows "parse_items orig d (digits10 k @ buf) = Inr (d + k * 10 ^ n + v mod 10 ^ n)"
proof -
  obtain ds where f: "fmtFrac u v n = (frac_text ds @ u, v div 10 ^ n)" "list_all is_digit ds"
    "length ds \<le> n" "decimal ds * 10 ^ (n - length ds) = v mod 10 ^ n" by (rule fmtFrac_spec)
  have "decimal ds * (10 ^ n div 10 ^ length ds) = v mod 10 ^ n"
    using f(3,4) by (simp add: power_diff [symmetric])
  with parse_items_text [OF unit f(2,3), of "[]" d k orig] val buf
  show "parse_items orig d (digits10 k @ buf) = Inr (d + k * 10 ^ n + v mod 10 ^ n)"
    by (simp add: f(1) parse_items.simps)
qed

lemma parse_items_int:
  assumes "unit_ok u unit n" "r = [] \<or> \<not> unit_char (hd r)" "d + m * unit \<le> 2 ^ 63"
  shows "parse_items orig d (digits10 m @ u @ r) = parse_items orig (d + m * unit) r"
  using parse_items_text [OF assms(1), of "[]" r d m orig] assms(2,3) by (simp add: frac_text_def)

lemma digits_start: "digits10 n @ r = [] \<or> \<not> unit_char (hd (digits10 n @ r))"
  using digits10_hd_digit [of n] by (cases "digits10 n") (auto simp: unit_char_def)

lemma parse_items_frac_only:
  assumes "unit_ok u (10 ^ n) n" "v \<le> 2 ^ 63" "fmtFrac u v n = (buf, w)"
  shows "parse_items orig 0 (digits10 w @ buf) = Inr v"
  using fmtFrac_int [OF assms(3)] parse_items_frac [OF assms(1,3), of 0 "v div 10 ^ n" orig]
    assms(2) by (simp add: div_mult_mod_eq)

lemma parse_items_small:
  assumes "0 < u" "u < 1000000000"
  shows "parse_items orig 0 (format_small u) = Inr u"
proof -
  have u: "u \<le> 2 ^ 63" using assms(2) by simp
  note frac = parse_items_frac_only [OF _ u, where orig = orig]
  consider "u < 1000" | "1000 \<le> u" "u < 1000000" | "1000000 \<le> u" by linarith
  then show ?thesis
    using frac [of "''ns''" 0] frac [of micro_unit 3] frac [of "''ms''" 6] units assms
    by cases (simp_all add: format_small_def split: prod.split)
qed

lemma parse_items_large:
  assumes "u \<le> 2 ^ 63"
  shows "parse_items orig 0 (format_large u) = Inr u"
proof -
  define sec m h where "sec = u div 10 ^ 9" and "m = sec div 60" and "h = m div 60"
  obtain buf w where buf: "fmtFrac ''s'' u 9 = (buf, w)" by (cases "fmtFrac ''s'' u 9")
  have s9: "unit_ok ''s'' (10 ^ 9) 9" using units by simp
  have w: "w = sec" using fmtFrac_int [OF buf] by (simp add: sec_def)
  have last: "parse_items orig d (digits10 (sec mod 60) @ buf) = Inr (d + sec mod 60 * 10 ^ 9 + u mod 10 ^ 9)"
    if "d + sec mod 60 * 10 ^ 9 + u mod 10 ^ 9 \<le> 2 ^ 63" for d
    using parse_items_frac [OF s9 buf] that by simp
  have sum: "u = h * 3600000000000 + m mod 60 * 60000000000 + sec mod 60 * 10 ^ 9 + u mod 10 ^ 9"
    using div_mult_mod_eq [of u "10 ^ 9"] div_mult_mod_eq [of sec 60] div_mult_mod_eq [of m 60]
    unfolding h_def [symmetric] m_def [symmetric] sec_def [symmetric] by simp
  have mins: "parse_items orig d (digits10 (m mod 60) @ ''m'' @ digits10 (sec mod 60) @ buf) =
      Inr (d + m mod 60 * 60000000000 + sec mod 60 * 10 ^ 9 + u mod 10 ^ 9)"
    if "d + m mod 60 * 60000000000 + sec mod 60 * 10 ^ 9 + u mod 10 ^ 9 \<le> 2 ^ 63" for d
    using parse_items_int [OF units(5) digits_start, of d "m mod 60" orig "sec mod 60" buf] last that
    by simp
  have hours: "parse_items orig 0 (digits10 h @ ''h'' @ digits10 (m mod 60) @ ''m'' @ digits10 (sec mod 60) @ buf) = Inr u"
    using parse_items_int [OF units(6) digits_start, of 0 h orig "m mod 60" "''m'' @ digits10 (sec mod 60) @ buf"]
      mins [of "h * 3600000000000"] assms sum by simp
  consider "m = 0" | "m \<noteq> 0" "h = 0" | "h \<noteq> 0" by blast
  then show ?thesis
  proof cases
    case 1
    then have "h = 0" by (simp add: h_def)
    with 1 show ?thesis using last [of 0] sum assms by (simp add: format_large_def buf w m_def)
  next
    case 2
    then show ?thesis using mins [of 0] sum assms by (simp add: format_large_def Let_def buf w m_def h_def)
  next
    case 3
    then have "m \<noteq> 0" by (auto simp: h_def)
    with 3 show ?thesis using hours by (simp add: format_large_def Let_def buf w m_def h_def)
  qed
qed

lemma digits10_zero: "digits10 0 = ''0''"
  by (subst digits10.simps) (simp add: digit_char_def code_eq_iff [symmetric])

lemma parse_items_Nil: "parse_items orig d [] = Inr d"
  by (simp add: parse_items.simps)

lemma magnitude:
  fixes d :: int64
  assumes "u = unat (if d <s 0 then - d else d)"
  shows "u \<le> 2 ^ 63" "\<not> d <s 0 \<Longrightarrow> u \<le> 2 ^ 63 - 1" "d = (if d <s 0 then - of_nat u else of_nat u)"
proof -
  have r: "- (2 ^ 63) \<le> sint d" "sint d < 2 ^ 63"
    using sint_greater_eq [of d] sint_less [of d] by simp_all
  have word: "unat (word_of_int k :: int64) = nat k" if "0 \<le> k" "k < 2 ^ 64" for k
    using that by (simp add: unat_eq_nat_uint uint_word_of_int_eq take_bit_int_eq_self)
  have neg: "unat (- d) = nat (- sint d)" if "sint d < 0" using word [of "- sint d"] that r by simp
  have pos: "unat d = nat (sint d)" if "0 \<le> sint d" using word [of "sint d"] that r by simp
  show "u \<le> 2 ^ 63" "\<not> d <s 0 \<Longrightarrow> u \<le> 2 ^ 63 - 1"
    using assms neg pos r by (auto simp: word_sless_alt split: if_splits)
  show "d = (if d <s 0 then - of_nat u else of_nat u)" using assms by simp
qed

lemma parse_items_start:
  assumes "parse_items orig 0 s = Inr u" "0 < u"
  obtains c t where "s = c # t" "c \<noteq> CHR ''-''" "c \<noteq> CHR ''+''" "s \<noteq> ''0''"
proof (cases s)
  case Nil
  with assms show thesis by (simp add: parse_items.simps)
next
  case (Cons c t)
  then have item: "ok (parse_item orig s)"
    using assms by (subst (asm) parse_items.simps) (auto split: sum.splits)
  have "\<not> ok (parse_item orig ''0'')"
    by (simp add: parse_item_def parse_number_def parse_unit_def unit_char_def is_digit_def digit_value_def Let_def)
  with item have "s \<noteq> ''0''" by blast
  moreover have "\<not> unit_char c"
    using item Cons by (auto simp: parse_item_def ok_andthen parse_number_def)
  ultimately show thesis using Cons that by (auto simp: unit_char_def is_digit_def)
qed

lemma parse_duration_string: "ParseDuration (duration_string d) = Inr d"
proof (cases "d = 0")
  case True
  have "parse_items ''0s'' 0 ''0s'' = Inr 0"
    using parse_items_int [OF units(4), of "[]" 0 0 "''0s''"] by (simp add: digits10_zero parse_items_Nil)
  with True show ?thesis by (simp add: duration_string_def ParseDuration_def format_small_def)
next
  case False
  define neg u where "neg = (d <s 0)" and "u = unat (if neg then - d else d)"
  define body where "body = (if u < 1000000000 then format_small u else format_large u)"
  have u: "0 < u" using False by (simp add: u_def unat_gt_0)
  have le: "u \<le> 2 ^ 63" and pos: "\<not> neg \<Longrightarrow> u \<le> 2 ^ 63 - 1" and d: "d = (if neg then - of_nat u else of_nat u)"
    using magnitude [OF u_def [unfolded neg_def]] by (simp_all add: neg_def)
  have items: "parse_items orig 0 body = Inr u" for orig
    using parse_items_small [OF u] parse_items_large [OF le] by (simp add: body_def)
  then obtain c t where body: "body = c # t" "c \<noteq> CHR ''-''" "c \<noteq> CHR ''+''" "body \<noteq> ''0''"
    using parse_items_start [OF _ u] by metis
  have "duration_string d = (if neg then CHR ''-'' # body else body)"
    by (simp add: duration_string_def Let_def neg_def u_def body_def)
  then show ?thesis using items body pos d by (cases neg) (auto simp: ParseDuration_def)
qed

section \<open>Properties\<close>

text \<open>
  Claim C21. A duration written to YAML is read back unchanged, for each of the
  \<open>2 ^ 64\<close> durations: zero, the least one (whose magnitude does not fit a positive duration),
  fractions of a second in each of the units \<open>ns\<close>, microseconds and \<open>ms\<close>, and every number of hours, minutes
  and seconds. The fraction takes the way through \<open>float64\<close> and is exact there.
\<close>

theorem duration_codec_roundtrip: "UnmarshalYAML (Inr (MarshalYAML d)) = Inr d"
  by (simp add: UnmarshalYAML_def MarshalYAML_def parse_duration_string)

text \<open>
  The documented examples, and the texts of the default configuration: \<open>Default\<close> and a file that
  spells the same values out agree.
\<close>

lemma parse_one_unit:
  assumes "unit_ok u unit n" "m * unit < 2 ^ 63"
  shows "ParseDuration (digits10 m @ u) = Inr (of_nat (m * unit))"
proof -
  have items: "parse_items orig 0 (digits10 m @ u) = Inr (m * unit)" for orig
    using parse_items_int [OF assms(1), of "[]" 0 m orig] assms(2) by (simp add: parse_items_Nil)
  obtain c t where ct: "digits10 m = c # t" by (cases "digits10 m") auto
  then have "is_digit c" by (rule digits10_hd_digit)
  moreover have "digits10 m @ u \<noteq> ''0''"
    using assms(1) ct by (auto simp: unit_ok_def)
  ultimately show ?thesis using items [of "digits10 m @ u"] assms(2) ct by (auto simp: ParseDuration_def)
qed

theorem documented_durations:
  "ParseDuration ''10m'' = Inr (ssh_ControlPersist (c_SSH Default))"
  "ParseDuration ''30s'' = Inr (c_PollInterval Default)"
  "ParseDuration ''15'' = Inl (MissingUnit ''15'')"
proof -
  have d: "digits10 10 = ''10''" "digits10 30 = ''30''"
    by (simp_all add: digits10_small digits10_two digit_char_def code_eq_iff [symmetric])
  show "ParseDuration ''10m'' = Inr (ssh_ControlPersist (c_SSH Default))"
    using parse_one_unit [OF units(5), of 10] by (simp add: d Default_def minute_def second_def)
  show "ParseDuration ''30s'' = Inr (c_PollInterval Default)"
    using parse_one_unit [OF units(4), of 30] by (simp add: d Default_def second_def)
  show "ParseDuration ''15'' = Inl (MissingUnit ''15'')"
    by (simp add: ParseDuration_def parse_items.simps parse_item_def parse_number_def parse_unit_def
        unit_char_def is_digit_def digit_value_def Let_def)
qed

end
