(* ===== verification/Tunnel.thy ===== *)
theory Tunnel
  imports Duration
begin

text \<open>
  The pure parts of \<open>internal/tunnel\<close>: the reconnect delay (\<open>backoff.go\<close>) on 64-bit signed
  words with their wrap-around, the classification of ssh's standard error and the SOCKS
  request line (\<open>stderr.go\<close>), the ssh command line (\<open>sshArgs\<close> of \<open>supervisor.go\<close>), and the
  control socket (\<open>controlsocket.go\<close>). The random number generator, the file system and the
  result of dialling the socket are parameters.
\<close>

section \<open>backoff.go\<close>

text \<open>Go's truncated signed division.\<close>

definition quot :: "int64 \<Rightarrow> int64 \<Rightarrow> int64" where
  "quot a b = word_of_int (sgn (sint a) * sgn (sint b) * (\<bar>sint a\<bar> div \<bar>sint b\<bar>))"

text \<open>
  \<open>int64N n\<close> stands for \<open>rng.Int64N(n)\<close>. The product wraps around as Go's does; the shift
  is unsigned, so a negative attempt shifts everything out.
\<close>

definition nextDelay :: "(int64 \<Rightarrow> int64) \<Rightarrow> int64 \<Rightarrow> duration \<Rightarrow> duration \<Rightarrow> duration" where
  "nextDelay int64N attempt base0 max0 =
     (let base = (if base0 \<le>s 0 then second else base0);
          max = (if max0 \<le>s 0 then base else max0);
          shift = (if 20 <s attempt then 20 else attempt);
          raw0 = base * push_bit (unat shift) 1;
          raw = (if max <s raw0 \<or> raw0 \<le>s 0 then max else raw0);
          half = quot raw 2
      in if half \<le>s 0 then raw else half + int64N (half + 1))"

text \<open>The documented contract of \<open>Int64N\<close>: a value in \<open>[0, n)\<close>.\<close>

definition rng_in_range :: "(int64 \<Rightarrow> int64) \<Rightarrow> bool" where
  "rng_in_range int64N \<longleftrightarrow> (\<forall>n. 0 < sint n \<longrightarrow> 0 \<le> sint (int64N n) \<and> sint (int64N n) < sint n)"

section \<open>stderr.go\<close>

datatype ErrorCategory =
  CategoryAuthPublicKey | CategoryAuthAgent | CategoryHostKeyVerification | CategoryHostKeyChanged

fun category_string :: "ErrorCategory \<Rightarrow> string" where
  "category_string CategoryAuthPublicKey = ''auth_publickey''"
| "category_string CategoryAuthAgent = ''auth_agent''"
| "category_string CategoryHostKeyVerification = ''hostkey_verification_failed''"
| "category_string CategoryHostKeyChanged = ''hostkey_changed''"

definition stderrSignatures :: "(string \<times> ErrorCategory) list" where
  "stderrSignatures =
     [(''REMOTE HOST IDENTIFICATION HAS CHANGED'', CategoryHostKeyChanged),
      (''Host key verification failed'', CategoryHostKeyVerification),
      (''Permission denied (publickey'', CategoryAuthPublicKey),
      (''Could not open a connection to your authentication agent'', CategoryAuthAgent)]"

definition classifyStderrLine :: "string \<Rightarrow> ErrorCategory option" where
  "classifyStderrLine line =
     map_option snd (find (\<lambda>(sub, cat). contains line sub) stderrSignatures)"

text \<open>
  The regular expression \<open>dynamic request: socks\d+ host (\S+) port (\d+)\<close>. Every repetition
  in it is followed by a character it cannot match, so each takes the longest run.
\<close>

definition socks_request_here :: "string \<Rightarrow> (string \<times> string) option" where
  "socks_request_here s =
     Option.bind (after_lit ''dynamic request: socks'' s) (\<lambda>s.
     Option.bind (run1 is_digit s) (\<lambda>(_, s).
     Option.bind (after_lit '' host '' s) (\<lambda>s.
     Option.bind (run1 (\<lambda>c. \<not> is_space c) s) (\<lambda>(host, s).
     Option.bind (after_lit '' port '' s) (\<lambda>s.
     Option.bind (run1 is_digit s) (\<lambda>(port, _). Some (host, port)))))))"

fun parseSocksRequest :: "string \<Rightarrow> (string \<times> string) option" where
  "parseSocksRequest [] = None"
| "parseSocksRequest (c # s) =
     (case socks_request_here (c # s) of Some r \<Rightarrow> Some r | None \<Rightarrow> parseSocksRequest s)"

text \<open>
  \<open>scanStderr\<close>, one line at a time: the buffered channel \<open>Errors\<close> (capacity 16) takes a
  category if there is room and drops it otherwise.
\<close>

definition errors_capacity :: nat where
  "errors_capacity = 16"

definition scanStderr_line :: "ErrorCategory list \<Rightarrow> string \<Rightarrow> ErrorCategory list" where
  "scanStderr_line errs line =
     (case classifyStderrLine line of
        None \<Rightarrow> errs
      | Some cat \<Rightarrow> if length errs < errors_capacity then errs @ [cat] else errs)"

text \<open>
  The whole scan, while nothing is received from the channel: what \<open>Errors\<close> holds afterwards,
  and the requests a verbose supervisor logs.
\<close>

definition scanStderr ::
  "bool \<Rightarrow> string \<Rightarrow> ErrorCategory list \<Rightarrow> ErrorCategory list \<times> (string \<times> string) list"
where
  "scanStderr verbose out errs =
     (foldl scanStderr_line errs (scan_lines out),
      if verbose then List.map_filter parseSocksRequest (scan_lines out) else [])"

section \<open>sshArgs\<close>

definition sshArgs :: "route \<Rightarrow> ssh_config \<Rightarrow> bool \<Rightarrow> string list" where
  "sshArgs r ssh verbose =
     [''-M'', ''-N'',
      ''-o'', ''ControlPath='' @ ssh_ControlPath ssh,
      ''-o'', ''ControlPersist=no'',
      ''-o'', ''ConnectTimeout='' @ itoa (seconds (ssh_ConnectTimeout ssh)),
      ''-o'', ''ServerAliveInterval='' @ itoa (seconds (ssh_ServerAliveInterval ssh)),
      ''-o'', ''ServerAliveCountMax='' @ itoa (ssh_ServerAliveCountMax ssh),
      ''-o'', ''ExitOnForwardFailure=yes''] @
     (if verbose then [''-vv''] else []) @
     (case r_SocksProxy r of
        None \<Rightarrow> []
      | Some sp \<Rightarrow> [''-D'', listen_addr (sp_Bind sp) (sp_Port sp)]) @
     [r_JumpHost r]"

section \<open>controlsocket.go\<close>

datatype control_path_error = NoControlPath | NoControlPathLine | SshFailed

fun find_control_path :: "string list \<Rightarrow> control_path_error + string" where
  "find_control_path [] = Inl NoControlPathLine"
| "find_control_path (l # ls) =
     (case cut (CHR '' '') l of
        Some (key, value) \<Rightarrow>
          if equal_fold key ''controlpath'' then
            (if value = [] \<or> equal_fold value ''none'' then Inl NoControlPath else Inr value)
          else find_control_path ls
      | None \<Rightarrow> find_control_path ls)"

definition parseControlPath :: "string \<Rightarrow> control_path_error + string" where
  "parseControlPath out = find_control_path (scan_lines out)"

datatype lstat_result = LstatMissing | LstatError | LstatSocket | LstatOther

datatype dial_unix = DialOk | DialRefused | DialOtherError

datatype remove_result = Removed | RemoveMissing | RemoveError

definition removeIfStale :: "lstat_result \<Rightarrow> dial_unix \<Rightarrow> remove_result \<Rightarrow> unit + bool" where
  "removeIfStale lstat dial remove =
     (case lstat of
        LstatMissing \<Rightarrow> Inr False
      | LstatError \<Rightarrow> Inl ()
      | LstatOther \<Rightarrow> Inr False
      | LstatSocket \<Rightarrow>
          (case dial of
             DialOk \<Rightarrow> Inr False
           | DialOtherError \<Rightarrow> Inr False
           | DialRefused \<Rightarrow> (case remove of RemoveError \<Rightarrow> Inl () | _ \<Rightarrow> Inr True)))"

text \<open>
  \<open>run_ssh\<close> is the output of an ssh command (\<open>None\<close> when it fails or times out); the result of
  \<open>removeStaleControlSocket\<close> is what it logs: why there is no path, or what became of the path.
\<close>

definition resolveControlPath ::
  "(string list \<Rightarrow> string option) \<Rightarrow> string \<Rightarrow> string \<Rightarrow> control_path_error + string"
where
  "resolveControlPath run_ssh controlPath host =
     (case run_ssh [''-G'', ''-o'', ''ControlPath='' @ controlPath, host] of
        None \<Rightarrow> Inl SshFailed
      | Some out \<Rightarrow> parseControlPath out)"

datatype stale_outcome =
  ResolveFailed control_path_error | RemovalFailed string | RemovedSocket string | LeftAlone string

definition removeStaleControlSocket ::
  "(string list \<Rightarrow> string option) \<Rightarrow> (string \<Rightarrow> lstat_result) \<Rightarrow> (string \<Rightarrow> dial_unix) \<Rightarrow>
   (string \<Rightarrow> remove_result) \<Rightarrow> ssh_config \<Rightarrow> route \<Rightarrow> stale_outcome"
where
  "removeStaleControlSocket run_ssh lstat dial remove ssh r =
     (case resolveControlPath run_ssh (ssh_ControlPath ssh) (r_JumpHost r) of
        Inl e \<Rightarrow> ResolveFailed e
      | Inr path \<Rightarrow>
          (case removeIfStale (lstat path) (dial path) (remove path) of
             Inl _ \<Rightarrow> RemovalFailed path
           | Inr removed \<Rightarrow> if removed then RemovedSocket path else LeftAlone path))"

section \<open>Signed 64-bit arithmetic\<close>

lemma sint_of_int64: "- (2 ^ 63) \<le> x \<Longrightarrow> x < 2 ^ 63 \<Longrightarrow> sint (word_of_int x :: int64) = x"
  by (simp add: signed_take_bit_int_eq_self sint_sbintrunc' )

lemma sint_range64: "- (2 ^ 63) \<le> sint (a :: int64)" "sint (a :: int64) < 2 ^ 63"
  using sint_ge [of a] sint_lt [of a] by simp_all

lemma sint_plus64:
  assumes "- (2 ^ 63) \<le> sint a + sint b" "sint a + sint b < 2 ^ 63"
  shows "sint (a + b :: int64) = sint a + sint b"
proof -
  have "a + b = word_of_int (sint a + sint b)" by simp
  then show ?thesis using assms sint_of_int64 by metis
qed

lemma sint_times64:
  assumes "- (2 ^ 63) \<le> sint a * sint b" "sint a * sint b < 2 ^ 63"
  shows "sint (a * b :: int64) = sint a * sint b"
proof -
  have "a * b = word_of_int (sint a * sint b)" by simp
  then show ?thesis using assms sint_of_int64 by metis
qed

lemma sint_quot2:
  assumes "0 < sint a"
  shows "sint (quot a 2) = sint a div 2"
proof -
  have "quot a 2 = word_of_int (sint a div 2)" using assms by (simp add: quot_def)
  then show ?thesis using assms sint_range64 [of a] sint_of_int64 [of "sint a div 2"] by simp
qed

lemma sint_second [simp]: "sint second = 1000000000"
  by (simp add: second_def)

section \<open>The delay\<close>

definition eff_base :: "duration \<Rightarrow> duration" where
  "eff_base base = (if base \<le>s 0 then second else base)"

definition eff_max :: "duration \<Rightarrow> duration \<Rightarrow> duration" where
  "eff_max base mx = (if mx \<le>s 0 then eff_base base else mx)"

definition raw_delay :: "int64 \<Rightarrow> duration \<Rightarrow> duration \<Rightarrow> duration" where
  "raw_delay attempt base mx =
     (let raw0 = eff_base base * push_bit (unat (if 20 <s attempt then 20 else attempt)) 1
      in if eff_max base mx <s raw0 \<or> raw0 \<le>s 0 then eff_max base mx else raw0)"

lemma nextDelay_raw:
  "nextDelay f attempt base mx =
     (let raw = raw_delay attempt base mx; half = quot raw 2
      in if half \<le>s 0 then raw else half + f (half + 1))"
  by (simp add: nextDelay_def raw_delay_def eff_max_def eff_base_def Let_def)

lemma eff_base_pos: "0 < sint (eff_base base)"
  by (auto simp: eff_base_def word_sle_eq)

lemma eff_max_pos: "0 < sint (eff_max base mx)"
  using eff_base_pos by (auto simp: eff_max_def word_sle_eq)

lemma raw_delay_bounds: "0 < sint (raw_delay attempt base mx)"
  "sint (raw_delay attempt base mx) \<le> sint (eff_max base mx)"
  using eff_max_pos [of base mx] by (auto simp: raw_delay_def Let_def word_sle_eq word_sless_alt)

lemma nextDelay_between:
  assumes "rng_in_range f"
  shows "sint (raw_delay attempt base mx) div 2 \<le> sint (nextDelay f attempt base mx)"
    and "sint (nextDelay f attempt base mx) \<le> sint (raw_delay attempt base mx)"
    and "0 < sint (nextDelay f attempt base mx)"
proof -
  let ?raw = "raw_delay attempt base mx"
  let ?half = "quot ?raw 2"
  note pos = raw_delay_bounds(1) [of attempt base mx]
  have half: "sint ?half = sint ?raw div 2" by (rule sint_quot2 [OF pos])
  have "sint (raw_delay attempt base mx) div 2 \<le> sint (nextDelay f attempt base mx) \<and>
    sint (nextDelay f attempt base mx) \<le> sint (raw_delay attempt base mx) \<and>
    0 < sint (nextDelay f attempt base mx)"
  proof (cases "sint ?raw div 2 \<le> 0")
    case True
    then have "nextDelay f attempt base mx = ?raw"
      using half by (simp add: nextDelay_raw Let_def word_sle_eq)
    with pos True show ?thesis by simp
  next
    case False
    let ?d = "f (?half + 1)"
    have n: "sint (?half + 1) = sint ?raw div 2 + 1"
      using half pos sint_range64 [of ?raw] by (subst sint_plus64) auto
    then have d: "0 \<le> sint ?d" "sint ?d \<le> sint ?raw div 2"
      using assms [unfolded rng_in_range_def, rule_format, of "?half + 1"] pos by simp_all
    have "sint (?half + ?d) = sint ?raw div 2 + sint ?d"
      using half d pos sint_range64 [of ?raw] by (subst sint_plus64) auto
    moreover have "nextDelay f attempt base mx = ?half + ?d"
      using half False by (simp add: nextDelay_raw Let_def word_sle_eq)
    ultimately show ?thesis using d False by auto
  qed
  then show "sint (raw_delay attempt base mx) div 2 \<le> sint (nextDelay f attempt base mx)"
    and "sint (nextDelay f attempt base mx) \<le> sint (raw_delay attempt base mx)"
    and "0 < sint (nextDelay f attempt base mx)" by auto
qed

lemma sint_push_one:
  assumes "k \<le> 20" shows "sint (push_bit k 1 :: int64) = 2 ^ k"
proof -
  have "(2 :: int) ^ k \<le> 2 ^ 20" using assms by (intro power_increasing) auto
  then have "sint (word_of_int (2 ^ k) :: int64) = 2 ^ k" by (intro sint_of_int64) (auto intro: order_trans [of _ 0])
  then show ?thesis by (simp add: push_bit_eq_mult)
qed

lemma raw_delay_exact:
  assumes "0 \<le> sint attempt" "sint (eff_base base) * 2 ^ 20 < 2 ^ 63"
  shows "sint (raw_delay attempt base mx) =
    min (sint (eff_max base mx)) (sint (eff_base base) * 2 ^ min 20 (unat attempt))"
proof -
  let ?k = "min 20 (unat attempt)"
  have "uint attempt = sint attempt"
    using assms(1) sint_range64 [of attempt] by (simp add: uint_sint take_bit_int_eq_self)
  then have ua: "unat attempt = nat (sint attempt)" by (metis unat_eq_nat_uint)
  have shift: "unat (if 20 <s attempt then 20 else attempt) = ?k"
    using ua by (auto simp: word_sless_alt min_def)
  have pw: "(2 :: int) ^ ?k \<le> 2 ^ 20" by (intro power_increasing) auto
  have pos: "0 < sint (eff_base base)" by (rule eff_base_pos)
  have le: "sint (eff_base base) * 2 ^ ?k \<le> sint (eff_base base) * 2 ^ 20"
    using pw pos by (intro mult_left_mono) auto
  have raw0: "sint (eff_base base * push_bit ?k 1) = sint (eff_base base) * 2 ^ ?k"
  proof -
    have sp: "sint (push_bit ?k 1 :: int64) = 2 ^ ?k" by (rule sint_push_one) simp
    have "0 < sint (eff_base base) * 2 ^ ?k" using pos by simp
    with le assms(2) show ?thesis
      by (subst sint_times64) (simp_all only: sp)
  qed
  define x where "x = eff_base base * push_bit ?k 1"
  have x: "sint x = sint (eff_base base) * 2 ^ ?k" unfolding x_def by (rule raw0)
  have "raw_delay attempt base mx = (if eff_max base mx <s x \<or> x \<le>s 0 then eff_max base mx else x)"
    unfolding raw_delay_def shift Let_def x_def ..
  moreover have "0 < sint x" using pos by (simp add: x)
  ultimately show ?thesis unfolding x [symmetric] by (auto simp: word_sle_eq word_sless_alt)
qed

section \<open>Standard error, arguments, control socket\<close>

lemma classifyStderrLine_eq:
  "classifyStderrLine line =
     (if contains line ''REMOTE HOST IDENTIFICATION HAS CHANGED'' then Some CategoryHostKeyChanged
      else if contains line ''Host key verification failed'' then Some CategoryHostKeyVerification
      else if contains line ''Permission denied (publickey'' then Some CategoryAuthPublicKey
      else if contains line ''Could not open a connection to your authentication agent''
        then Some CategoryAuthAgent
      else None)"
  by (simp add: classifyStderrLine_def stderrSignatures_def)

lemma scanStderr_line_bounded:
  "length errs \<le> errors_capacity \<Longrightarrow> length (scanStderr_line errs line) \<le> errors_capacity"
  by (auto simp: scanStderr_line_def split: option.splits)

lemma category_string_inj [simp]: "category_string c = category_string d \<longleftrightarrow> c = d"
  by (cases c; cases d) simp_all

lemma category_string_no_colon: "CHR '':'' \<notin> set (category_string c)"
  by (cases c) simp_all

lemma removeIfStale_iff:
  "removeIfStale lstat dial rm = Inr True \<longleftrightarrow> lstat = LstatSocket \<and> dial = DialRefused \<and> rm \<noteq> RemoveError"
  by (simp add: removeIfStale_def split: lstat_result.splits dial_unix.splits remove_result.splits)

text \<open>What \<open>ssh -G\<close> prints: one line per option, a key and its value; and the control path it names.\<close>

definition ssh_options :: "(string \<times> string) list \<Rightarrow> string" where
  "ssh_options opts = concat (map (\<lambda>(key, value). (key @ CHR '' '' # value) @ [CHR 0x0A]) opts)"

definition plain_option :: "string \<times> string \<Rightarrow> bool" where
  "plain_option opt \<longleftrightarrow>
     CHR '' '' \<notin> set (fst opt) \<and> CHR 0x0A \<notin> set (fst opt) \<and> CHR 0x0A \<notin> set (snd opt) \<and>
     (snd opt = [] \<or> last (snd opt) \<noteq> CHR 0x0D) \<and> length (fst opt) + length (snd opt) + 1 < max_token"

definition control_path_of :: "(string \<times> string) list \<Rightarrow> control_path_error + string" where
  "control_path_of opts =
     (case find (\<lambda>(key, _). equal_fold key ''controlpath'') opts of
        None \<Rightarrow> Inl NoControlPathLine
      | Some (_, value) \<Rightarrow> if value = [] \<or> equal_fold value ''none'' then Inl NoControlPath else Inr value)"

lemma find_control_path_options:
  "list_all plain_option opts \<Longrightarrow>
    find_control_path (map (\<lambda>(key, value). key @ CHR '' '' # value) opts) = control_path_of opts"
proof (induction opts)
  case (Cons opt opts)
  obtain key val where opt: "opt = (key, val)" by (cases opt)
  with Cons.prems have "cut CHR '' '' (key @ CHR '' '' # val) = Some (key, val)"
    by (simp add: cut_Some plain_option_def)
  with Cons opt show ?case by (simp add: control_path_of_def)
qed (simp add: control_path_of_def)

lemma parseControlPath_options:
  assumes "list_all plain_option opts"
  shows "parseControlPath (ssh_options opts) = control_path_of opts"
proof -
  let ?ls = "map (\<lambda>(key, value). key @ CHR '' '' # value) opts"
  have "list_all (\<lambda>l. CHR 0x0A \<notin> set l \<and> (l = [] \<or> last l \<noteq> CHR 0x0D) \<and> length l < max_token) ?ls"
    using assms by (auto simp: list_all_iff plain_option_def split: if_splits)
  then have "scan_lines (concat (map (\<lambda>l. l @ [CHR 0x0A]) ?ls)) = ?ls" by (rule scan_lines_unlines)
  moreover have "ssh_options opts = concat (map (\<lambda>l. l @ [CHR 0x0A]) ?ls)"
    by (simp add: ssh_options_def comp_def case_prod_unfold)
  ultimately show ?thesis by (simp add: parseControlPath_def find_control_path_options [OF assms])
qed

section \<open>Properties\<close>

text \<open>
  Claim C34. For every attempt count, base and maximum, also non-positive ones and ones whose
  product overflows 64 bits, the reconnect delay is positive and never above the configured
  maximum (which falls back to the base, and the base to one second), provided the random
  number generator keeps its contract.
\<close>

theorem reconnect_delay_positive_and_capped:
  "rng_in_range int64N \<Longrightarrow>
     0 < sint (nextDelay int64N attempt base mx) \<and>
     sint (nextDelay int64N attempt base mx) \<le> sint (eff_max base mx)"
  using nextDelay_between [of int64N attempt base mx] raw_delay_bounds [of attempt base mx] by simp

lemma rng_in_range_zero: "rng_in_range (\<lambda>_. 0)"
  by (simp add: rng_in_range_def)

theorem reconnect_delay_positive_and_capped_witness:
  "0 < sint (nextDelay (\<lambda>_. 0) 3 (2 * second) (2 * minute)) \<and>
   sint (nextDelay (\<lambda>_. 0) 3 (2 * second) (2 * minute)) \<le> sint (eff_max (2 * second) (2 * minute))"
  by (rule reconnect_delay_positive_and_capped [OF rng_in_range_zero])

text \<open>
  Claim C35. Up to a base of about 2.4 hours (\<open>base * 2^20 < 2^63\<close> nanoseconds) the delay is
  the documented capped exponential backoff with equal jitter: with
  \<open>raw = min max (base * 2^attempt)\<close>, the exponent stopping at 20, the delay lies between
  half of \<open>raw\<close> and \<open>raw\<close>.
\<close>

theorem reconnect_delay_exponential:
  assumes "rng_in_range int64N" "0 \<le> sint attempt" "0 < sint base" "0 < sint mx"
    and "sint base * 2 ^ 20 < 2 ^ 63"
  shows "min (sint mx) (sint base * 2 ^ min 20 (unat attempt)) div 2
           \<le> sint (nextDelay int64N attempt base mx) \<and>
         sint (nextDelay int64N attempt base mx)
           \<le> min (sint mx) (sint base * 2 ^ min 20 (unat attempt))"
proof -
  have e: "eff_base base = base" "eff_max base mx = mx"
    using assms(3,4) by (auto simp: eff_base_def eff_max_def word_sle_eq)
  have "sint (raw_delay attempt base mx) = min (sint mx) (sint base * 2 ^ min 20 (unat attempt))"
    using raw_delay_exact [of attempt base mx] assms(2,5) by (simp only: e)
  with nextDelay_between [OF assms(1), of attempt base mx] show ?thesis by simp
qed

theorem reconnect_delay_exponential_witness:
  "4000000000 \<le> sint (nextDelay (\<lambda>_. 0) 2 2000000000 120000000000) \<and>
   sint (nextDelay (\<lambda>_. 0) 2 2000000000 120000000000) \<le> 8000000000"
  using reconnect_delay_exponential [OF rng_in_range_zero, of 2 2000000000 120000000000]
  by simp

text \<open>
  Above that base the guard \<open>raw <= 0\<close> does not catch every overflow: with a base of
  \<open>2^44 + 1\<close> nanoseconds (4h53m) and a maximum of 13 days, the product wraps to a small positive
  number, and from the twentieth attempt on the delay is at most 1.1 milliseconds, a ten-millionth
  of the base.
\<close>

theorem reconnect_delay_overflow:
  "rng_in_range int64N \<Longrightarrow> 20 \<le> sint attempt \<Longrightarrow>
     sint (nextDelay int64N attempt (2 ^ 44 + 1) (2 ^ 50)) \<le> 2 ^ 20"
proof -
  assume rng: "rng_in_range int64N" and ge: "20 \<le> sint attempt"
  have "attempt = 20" if "sint attempt = 20"
  proof -
    have "attempt = word_of_int (sint attempt)" by simp
    then show ?thesis unfolding that by simp
  qed
  then have "(if 20 <s attempt then 20 else attempt) = (20 :: int64)"
    using ge by (auto simp: word_sless_alt)
  then have "raw_delay attempt (2 ^ 44 + 1) (2 ^ 50) = raw_delay 20 (2 ^ 44 + 1) (2 ^ 50)"
    by (simp add: raw_delay_def)
  also have "sint \<dots> = 2 ^ 20"
    by (simp add: raw_delay_def eff_base_def eff_max_def Let_def word_sle_eq word_sless_alt)
  finally show ?thesis
    using nextDelay_between(2) [OF rng, of attempt "2 ^ 44 + 1" "2 ^ 50"] by simp
qed

theorem reconnect_delay_overflow_witness:
  "sint (nextDelay (\<lambda>_. 0) 20 (2 ^ 44 + 1) (2 ^ 50)) \<le> 2 ^ 20"
  by (rule reconnect_delay_overflow [OF rng_in_range_zero]) simp

lemma find_splitD:
  "find (\<lambda>(k, _). P k) xs = Some (key, v) \<Longrightarrow>
   \<exists>before after. xs = before @ (key, v) # after \<and> P key \<and> list_all (\<lambda>(k, _). \<not> P k) before"
proof (induction xs)
  case (Cons x xs)
  obtain k w where x: "x = (k, w)" by (cases x)
  show ?case
  proof (cases "P k")
    case True
    with Cons.prems show ?thesis by (intro exI [of _ "[]"] exI [of _ xs]) (auto simp: x)
  next
    case False
    with Cons.prems have "find (\<lambda>(k, _). P k) xs = Some (key, v)" by (simp add: x)
    from Cons.IH [OF this] obtain before after
      where "xs = before @ (key, v) # after" "P key" "list_all (\<lambda>(k, _). \<not> P k) before" by blast
    with False show ?thesis by (intro exI [of _ "x # before"] exI [of _ after]) (simp add: x)
  qed
qed simp

lemma find_splitI:
  "list_all (\<lambda>(k, _). \<not> P k) before \<Longrightarrow> P key \<Longrightarrow>
   find (\<lambda>(k, _). P k) (before @ (key, v) # after) = Some (key, v)"
  by (induction before) auto

lemma find_split:
  "(\<exists>key. find (\<lambda>(k, _). P k) xs = Some (key, v)) \<longleftrightarrow>
    (\<exists>key before after. xs = before @ (key, v) # after \<and> P key \<and> list_all (\<lambda>(k, _). \<not> P k) before)"
  using find_splitD [of P xs _ v] find_splitI [of P] by metis

text \<open>
  Claim C36. Only a dead control socket is removed, and it is the one ssh names. Whatever options
  \<open>ssh -G\<close> prints before and after it, the control path is the value of the first \<open>controlpath\<close> line,
  in any case of letters; that file is removed exactly when it is a socket, dialling it is refused and
  \<open>os.Remove\<close> does not fail (or finds it gone already): never a regular file, never a socket something still listens on or whose state
  is unknown, and nothing when ssh prints no path, an empty one or \<open>none\<close>.
\<close>

theorem stale_socket_removed_iff:
  assumes "list_all plain_option opts"
    and "run_ssh [''-G'', ''-o'', ''ControlPath='' @ ssh_ControlPath ssh, r_JumpHost r] = Some (ssh_options opts)"
  shows "removeStaleControlSocket run_ssh lstat dial rm ssh r = RemovedSocket path \<longleftrightarrow>
    (\<exists>key before after. opts = before @ (key, path) # after \<and> equal_fold key ''controlpath'' \<and>
       list_all (\<lambda>(k, _). \<not> equal_fold k ''controlpath'') before) \<and>
    path \<noteq> [] \<and> \<not> equal_fold path ''none'' \<and>
    lstat path = LstatSocket \<and> dial path = DialRefused \<and> rm path \<noteq> RemoveError"
proof -
  have "control_path_of opts = Inr path \<longleftrightarrow>
      (\<exists>key. find (\<lambda>(k, _). equal_fold k ''controlpath'') opts = Some (key, path)) \<and>
      path \<noteq> [] \<and> \<not> equal_fold path ''none''"
    unfolding control_path_of_def by (auto split: option.split)
  moreover have "(\<exists>key. find (\<lambda>(k, _). equal_fold k ''controlpath'') opts = Some (key, path)) \<longleftrightarrow>
      (\<exists>key before after. opts = before @ (key, path) # after \<and> equal_fold key ''controlpath'' \<and>
       list_all (\<lambda>(k, _). \<not> equal_fold k ''controlpath'') before)"
    by (rule find_split)
  moreover have "removeStaleControlSocket run_ssh lstat dial rm ssh r = RemovedSocket path \<longleftrightarrow>
      control_path_of opts = Inr path \<and> removeIfStale (lstat path) (dial path) (rm path) = Inr True"
    using assms(2) parseControlPath_options [OF assms(1)]
    by (auto simp: removeStaleControlSocket_def resolveControlPath_def split: sum.splits)
  ultimately show ?thesis by (simp only: removeIfStale_iff conj_assoc)
qed

definition demo_options :: "(string \<times> string) list" where
  "demo_options = [(''user'', ''me''), (''ControlPath'', ''/run/my ctl''), (''port'', ''22'')]"

lemma demo_options_fold:
  "equal_fold ''ControlPath'' ''controlpath'' \<and> \<not> equal_fold ''user'' ''controlpath'' \<and> \<not> equal_fold ''/run/my ctl'' ''none''"
  by code_simp

definition demo_jump :: route where
  "demo_jump = \<lparr>r_Name = ''home'', r_JumpHost = ''bastion'', r_HostPatterns = [], r_HostSubnets = [],
     r_DirectProfiles = [], r_SocksProxy = None, r_KeepTunnelWhenDirect = False\<rparr>"

theorem stale_socket_removed_iff_witness:
  "removeStaleControlSocket (\<lambda>_. Some (ssh_options demo_options)) (\<lambda>_. LstatSocket) (\<lambda>_. DialRefused)
     (\<lambda>_. Removed) (c_SSH Default) demo_jump = RemovedSocket ''/run/my ctl''"
proof -
  have "list_all plain_option demo_options"
    by (simp add: demo_options_def plain_option_def max_token_def)
  moreover have "\<exists>key before after. demo_options = before @ (key, ''/run/my ctl'') # after \<and>
      equal_fold key ''controlpath'' \<and> list_all (\<lambda>(k, _). \<not> equal_fold k ''controlpath'') before"
    using demo_options_fold
    by (intro exI [of _ "''ControlPath''"] exI [of _ "[(''user'', ''me'')]"] exI [of _ "[(''port'', ''22'')]"])
      (simp add: demo_options_def)
  ultimately show ?thesis
    using demo_options_fold by (subst stale_socket_removed_iff [where opts = demo_options]) simp_all
qed

end
