(* ===== verification/Supervisor.thy ===== *)
theory Supervisor
  imports Tunnel
begin

text \<open>
  The supervisor of \<open>internal/tunnel/supervisor.go\<close>: its fields (\<open>desired\<close>, the cancel
  function, the \<open>done\<close> channel) and the goroutines it has started, as a state machine.
  \<open>Ensure\<close>, \<open>Stop\<close>, \<open>startLocked\<close> and \<open>stopLocked\<close> are functions on that state (each runs
  under the mutex); a goroutine's \<open>run\<close> loop is the step function \<open>run_step\<close>, one step per
  point at which the loop can be interrupted. \<open>sup_step\<close> interleaves them. A channel or a
  cancel function is named by the index of the goroutine it belongs to.
\<close>

section \<open>The run loop\<close>

text \<open>
  Where a goroutine is: at the top of the loop, waiting for its ssh subprocess, waiting for
  the backoff delay, or returned (its \<open>done\<close> channel is closed).
\<close>

datatype phase = Top | InSSH | Backoff duration | Exited

record tunnel_run =
  cancelled :: bool
  phase :: phase
  attempt :: int64

definition new_run :: tunnel_run where
  "new_run = \<lparr>cancelled = False, phase = Top, attempt = 0\<rparr>"

text \<open>
  What can happen to a goroutine: it evaluates \<open>ctx.Err()\<close> at the top, its ssh subprocess
  exits (having run for more than \<open>stabilityThreshold\<close> or not), the backoff timer fires, or
  it sees the cancelled context while it waits for the timer.
\<close>

datatype run_event = CheckContext | SshExit bool | Timer | ContextDone

fun run_step :: "(int64 \<Rightarrow> int64) \<Rightarrow> backoff_config \<Rightarrow> run_event \<Rightarrow> tunnel_run \<Rightarrow> tunnel_run option" where
  "run_step rng bo CheckContext r =
     (if phase r = Top then Some (r\<lparr>phase := if cancelled r then Exited else InSSH\<rparr>) else None)"
| "run_step rng bo (SshExit was_stable) r =
     (if phase r = InSSH then
        (if cancelled r then Some (r\<lparr>phase := Exited\<rparr>)
         else (let a = (if was_stable then 0 else attempt r + 1)
               in Some (r\<lparr>attempt := a, phase := Backoff (nextDelay rng a (bo_Base bo) (bo_Max bo))\<rparr>)))
      else None)"
| "run_step rng bo Timer r =
     (case phase r of Backoff d \<Rightarrow> Some (r\<lparr>phase := Top\<rparr>) | _ \<Rightarrow> None)"
| "run_step rng bo ContextDone r =
     (case phase r of
        Backoff d \<Rightarrow> if cancelled r then Some (r\<lparr>phase := Exited\<rparr>) else None
      | _ \<Rightarrow> None)"

section \<open>The supervisor\<close>

record supervisor =
  desired :: bool
  cancel :: "nat option"
  done_chan :: "nat option"
  runs :: "tunnel_run list"

definition NewSupervisor :: supervisor where
  "NewSupervisor = \<lparr>desired = False, cancel = None, done_chan = None, runs = []\<rparr>"

definition Running :: "supervisor \<Rightarrow> bool" where
  "Running s = desired s"

definition startLocked :: "supervisor \<Rightarrow> supervisor" where
  "startLocked s = s\<lparr>cancel := Some (length (runs s)), done_chan := Some (length (runs s)),
     runs := runs s @ [new_run]\<rparr>"

definition stopLocked :: "supervisor \<Rightarrow> supervisor" where
  "stopLocked s =
     (case cancel s of
        None \<Rightarrow> s
      | Some i \<Rightarrow> s\<lparr>runs := (runs s)[i := (runs s ! i)\<lparr>cancelled := True\<rparr>], cancel := None\<rparr>)"

definition Ensure :: "bool \<Rightarrow> supervisor \<Rightarrow> supervisor" where
  "Ensure want s =
     (if want = desired s then s
      else if want then startLocked (s\<lparr>desired := want\<rparr>)
      else stopLocked (s\<lparr>desired := want\<rparr>))"

text \<open>
  \<open>Stop\<close> up to the wait, and the channel it then waits on; it may return once that channel
  is closed.
\<close>

definition Stop :: "supervisor \<Rightarrow> supervisor \<times> nat option" where
  "Stop s = (let s' = stopLocked (s\<lparr>desired := False\<rparr>) in (s', done_chan s'))"

definition stop_may_return :: "nat option \<Rightarrow> supervisor \<Rightarrow> bool" where
  "stop_may_return ch s = (case ch of None \<Rightarrow> True | Some i \<Rightarrow> phase (runs s ! i) = Exited)"

inductive sup_step :: "(int64 \<Rightarrow> int64) \<Rightarrow> backoff_config \<Rightarrow> supervisor \<Rightarrow> supervisor \<Rightarrow> bool"
  for rng bo where
  ensure: "sup_step rng bo s (Ensure want s)"
| stop: "sup_step rng bo s (fst (Stop s))"
| run: "i < length (runs s) \<Longrightarrow> run_step rng bo e (runs s ! i) = Some r \<Longrightarrow>
    sup_step rng bo s (s\<lparr>runs := (runs s)[i := r]\<rparr>)"

inductive reachable :: "(int64 \<Rightarrow> int64) \<Rightarrow> backoff_config \<Rightarrow> supervisor \<Rightarrow> bool" for rng bo where
  init: "reachable rng bo NewSupervisor"
| step: "reachable rng bo s \<Longrightarrow> sup_step rng bo s s' \<Longrightarrow> reachable rng bo s'"

inductive_cases sup_stepE: "sup_step rng bo s s'"

section \<open>The invariant\<close>

text \<open>
  The tunnel is desired exactly while a cancel function is stored; it belongs to the newest
  goroutine, which is the only one not cancelled; a goroutine returns only when cancelled.
\<close>

definition runs_ok :: "nat option \<Rightarrow> tunnel_run list \<Rightarrow> bool" where
  "runs_ok c rs \<longleftrightarrow>
     (\<forall>i < length rs. cancelled (rs ! i) \<longleftrightarrow> c \<noteq> Some i) \<and>
     (\<forall>i < length rs. phase (rs ! i) = Exited \<longrightarrow> cancelled (rs ! i))"

definition sup_inv :: "supervisor \<Rightarrow> bool" where
  "sup_inv s \<longleftrightarrow>
     (desired s \<longleftrightarrow> cancel s \<noteq> None) \<and>
     done_chan s = (if runs s = [] then None else Some (length (runs s) - 1)) \<and>
     (cancel s \<noteq> None \<longrightarrow> cancel s = done_chan s \<and> runs s \<noteq> []) \<and>
     runs_ok (cancel s) (runs s)"

lemma run_step_cancelled: "run_step rng bo e r = Some r' \<Longrightarrow> cancelled r' = cancelled r"
  by (cases e) (auto simp: Let_def split: if_splits phase.splits)

lemma run_step_exited: "run_step rng bo e r = Some r' \<Longrightarrow> phase r' = Exited \<Longrightarrow> cancelled r'"
  by (cases e) (auto simp: Let_def split: if_splits phase.splits)

lemma sup_inv_init: "sup_inv NewSupervisor"
  by (simp add: sup_inv_def NewSupervisor_def runs_ok_def)

lemma sup_inv_start: "sup_inv s \<Longrightarrow> \<not> desired s \<Longrightarrow> sup_inv (startLocked (s\<lparr>desired := True\<rparr>))"
  by (auto simp: sup_inv_def startLocked_def runs_ok_def nth_append new_run_def)

lemma sup_inv_stop: "sup_inv s \<Longrightarrow> sup_inv (stopLocked (s\<lparr>desired := False\<rparr>))"
  by (auto simp: sup_inv_def stopLocked_def runs_ok_def nth_list_update split: option.splits if_splits)

lemma sup_inv_Ensure: "sup_inv s \<Longrightarrow> sup_inv (Ensure want s)"
  using sup_inv_start sup_inv_stop by (auto simp: Ensure_def)

lemma sup_inv_Stop: "sup_inv s \<Longrightarrow> sup_inv (fst (Stop s))"
  by (simp add: Stop_def Let_def sup_inv_stop)

lemma sup_inv_run:
  assumes "sup_inv s" "i < length (runs s)" "run_step rng bo e (runs s ! i) = Some r"
  shows "sup_inv (s\<lparr>runs := (runs s)[i := r]\<rparr>)"
  using assms run_step_cancelled [OF assms(3)] run_step_exited [OF assms(3)]
  by (auto simp: sup_inv_def runs_ok_def nth_list_update)

lemma sup_step_inv: "sup_step rng bo s s' \<Longrightarrow> sup_inv s \<Longrightarrow> sup_inv s'"
  by (elim sup_stepE) (auto intro: sup_inv_Ensure sup_inv_Stop sup_inv_run)

lemma reachable_inv: "reachable rng bo s \<Longrightarrow> sup_inv s"
  by (induction rule: reachable.induct) (auto intro: sup_inv_init sup_step_inv)

section \<open>The interface the daemon relies on\<close>

text \<open>
  What the daemon's loop needs of a tunnel: after \<open>ensure d\<close> it is desired exactly if \<open>d\<close>,
  and asking again for the state it is in changes nothing.
\<close>

locale tunnel_control =
  fixes ensure :: "bool \<Rightarrow> 's \<Rightarrow> 's" and running :: "'s \<Rightarrow> bool"
  assumes running_ensure: "running (ensure want s) = want"
    and ensure_same: "running s = want \<Longrightarrow> ensure want s = s"
begin

lemma ensure_idem: "ensure want (ensure want s) = ensure want s"
  by (rule ensure_same) (rule running_ensure)

lemma map_running_ensure:
  "length wants = length ss \<Longrightarrow> map running (map2 ensure wants ss) = wants"
  by (induction wants ss rule: list_induct2) (simp_all add: running_ensure)

lemma map2_ensure_same:
  "length wants = length ss \<Longrightarrow> map running ss = wants \<Longrightarrow> map2 ensure wants ss = ss"
  by (induction wants ss rule: list_induct2) (simp_all add: ensure_same)

end

interpretation sup: tunnel_control Ensure Running
  by unfold_locales
     (auto simp: Ensure_def Running_def startLocked_def stopLocked_def split: option.splits)

section \<open>Properties\<close>

lemma runs_ok_none: "runs_ok None rs \<Longrightarrow> filter (\<lambda>r. \<not> cancelled r) rs = []"
  by (auto simp: runs_ok_def filter_empty_conv in_set_conv_nth)

lemma runs_ok_last:
  assumes "runs_ok (Some (length rs - 1)) rs" "rs \<noteq> []"
  shows "filter (\<lambda>r. \<not> cancelled r) rs = [last rs]"
proof -
  obtain ys y where rs: "rs = ys @ [y]" using assms(2) by (cases rs rule: rev_cases) auto
  have "\<not> cancelled y" using assms(1) by (auto simp: rs runs_ok_def dest: spec [of _ "length ys"])
  moreover have "cancelled r" if mem: "r \<in> set ys" for r
  proof -
    obtain i where i: "i < length ys" "ys ! i = r" using mem unfolding in_set_conv_nth by blast
    then have "cancelled ((ys @ [y]) ! i)"
      using assms(1) unfolding runs_ok_def rs by (auto simp del: nth_append)
    with i show ?thesis by (simp add: nth_append)
  qed
  ultimately show ?thesis by (auto simp: rs filter_empty_conv)
qed

lemma live_goroutines:
  "reachable rng bo s \<Longrightarrow>
     length (filter (\<lambda>r. \<not> cancelled r) (runs s)) = (if Running s then 1 else 0) \<and>
     list_all (\<lambda>r. cancelled r \<or> phase r \<noteq> Exited) (runs s)"
proof -
  assume "reachable rng bo s"
  then have inv: "sup_inv s" by (rule reachable_inv)
  then have ok: "runs_ok (cancel s) (runs s)" by (simp add: sup_inv_def)
  have "list_all (\<lambda>r. cancelled r \<or> phase r \<noteq> Exited) (runs s)"
    using ok unfolding list_all_length runs_ok_def by blast
  moreover have "length (filter (\<lambda>r. \<not> cancelled r) (runs s)) = (if Running s then 1 else 0)"
  proof (cases "cancel s")
    case None
    then have "\<not> Running s" using inv by (simp add: sup_inv_def Running_def)
    then show ?thesis using runs_ok_none ok None by simp
  next
    case (Some i)
    then have run: "Running s" using inv by (simp add: sup_inv_def Running_def)
    have "cancel s = Some (length (runs s) - 1)" and ne: "runs s \<noteq> []"
      using inv Some by (auto simp: sup_inv_def split: if_splits)
    then have "filter (\<lambda>r. \<not> cancelled r) (runs s) = [last (runs s)]"
      using runs_ok_last ok by metis
    with run show ?thesis by simp
  qed
  ultimately show ?thesis by simp
qed

text \<open>
  Claim C18. In every state a supervisor can reach, however calls of \<open>Ensure\<close> and \<open>Stop\<close>, ssh
  exits, timers and context checks interleave, exactly one goroutine is not cancelled while
  the tunnel is desired and none is while it is not; and a goroutine that is not cancelled has
  not returned, so a desired tunnel is always being kept up or retried.
\<close>

theorem supervisor_one_live_goroutine:
  "reachable rng bo s \<Longrightarrow>
     length (filter (\<lambda>r. \<not> cancelled r) (runs s)) = (if Running s then 1 else 0) \<and>
     list_all (\<lambda>r. cancelled r \<or> phase r \<noteq> Exited) (runs s)"
  by (rule live_goroutines)

lemma reach_ensure: "reachable rng bo s \<Longrightarrow> reachable rng bo (Ensure want s)"
  by (rule reachable.step, assumption) (rule sup_step.ensure)

lemma reach_run:
  "reachable rng bo s \<Longrightarrow> i < length (runs s) \<Longrightarrow> run_step rng bo e (runs s ! i) = Some r \<Longrightarrow>
   reachable rng bo (s\<lparr>runs := (runs s)[i := r]\<rparr>)"
  by (rule reachable.step, assumption) (rule sup_step.run)

theorem supervisor_one_live_goroutine_witness:
  "length (filter (\<lambda>r. \<not> cancelled r) (runs (Ensure True NewSupervisor))) = 1"
  using supervisor_one_live_goroutine
    [OF reach_ensure [OF reachable.init [of "\<lambda>_. 0" "c_Backoff Default"], of True]]
  by (simp add: sup.running_ensure)

text \<open>The steps a cancelled goroutine can still take.\<close>

fun rank :: "phase \<Rightarrow> nat" where
  "rank Exited = 0"
| "rank Top = 1"
| "rank InSSH = 1"
| "rank (Backoff d) = 2"

text \<open>
  Claim C37. A cancelled goroutine returns within two steps of its own, whatever they are: until
  it has returned it can take a step, each step it can take lowers \<open>rank\<close>, which is at most 2
  and 0 only once it has returned, and no step makes it start ssh again.
\<close>

theorem cancelled_goroutine_returns:
  assumes "cancelled r"
  shows "(phase r = Exited \<or> (\<exists>e r'. run_step rng bo e r = Some r')) \<and>
    (\<forall>e r'. run_step rng bo e r = Some r' \<longrightarrow>
       rank (phase r') < rank (phase r) \<and> rank (phase r) \<le> 2 \<and> phase r' \<noteq> InSSH)"
proof
  show "phase r = Exited \<or> (\<exists>e r'. run_step rng bo e r = Some r')"
  proof (cases "phase r")
    case Top
    then show ?thesis by (intro disjI2 exI [of _ CheckContext]) simp
  next
    case InSSH
    with assms show ?thesis by (intro disjI2 exI [of _ "SshExit False"]) simp
  next
    case Backoff
    then show ?thesis by (intro disjI2 exI [of _ Timer]) simp
  qed simp
  show "\<forall>e r'. run_step rng bo e r = Some r' \<longrightarrow>
      rank (phase r') < rank (phase r) \<and> rank (phase r) \<le> 2 \<and> phase r' \<noteq> InSSH"
  proof (intro allI impI)
    fix e r' assume "run_step rng bo e r = Some r'"
    with assms show "rank (phase r') < rank (phase r) \<and> rank (phase r) \<le> 2 \<and> phase r' \<noteq> InSSH"
      by (cases e; cases "phase r") auto
  qed
qed

theorem cancelled_goroutine_returns_witness:
  "phase (new_run\<lparr>cancelled := True\<rparr>) = Top \<and>
   (\<exists>e r'. run_step (\<lambda>_. 0) (c_Backoff Default) e (new_run\<lparr>cancelled := True\<rparr>) = Some r')"
  using cancelled_goroutine_returns [of "new_run\<lparr>cancelled := True\<rparr>" "\<lambda>_. 0" "c_Backoff Default"]
  by (simp add: new_run_def)

text \<open>A tunnel switched off and on again while its ssh is still shutting down.\<close>

definition up_once :: supervisor where
  "up_once = (Ensure True NewSupervisor)\<lparr>runs := [new_run\<lparr>phase := InSSH\<rparr>]\<rparr>"

definition flapped :: supervisor where
  "flapped = Ensure True (Ensure False up_once)"

lemma up_once_reachable: "reachable rng bo up_once"
proof -
  have "reachable rng bo ((Ensure True NewSupervisor)
      \<lparr>runs := (runs (Ensure True NewSupervisor))[0 := new_run\<lparr>phase := InSSH\<rparr>]\<rparr>)"
    by (rule reach_run [OF reach_ensure [OF reachable.init], where e = CheckContext])
       (simp_all add: Ensure_def startLocked_def NewSupervisor_def new_run_def)
  then show ?thesis
    by (simp add: up_once_def Ensure_def startLocked_def NewSupervisor_def)
qed

lemma flapped_reachable: "reachable rng bo flapped"
  unfolding flapped_def by (intro reach_ensure up_once_reachable)

lemma flapped_eq:
  "flapped = \<lparr>desired = True, cancel = Some 1, done_chan = Some 1,
     runs = [new_run\<lparr>cancelled := True, phase := InSSH\<rparr>, new_run]\<rparr>"
  by (simp add: flapped_def up_once_def Ensure_def startLocked_def stopLocked_def NewSupervisor_def)

text \<open>
  \<open>Ensure(false)\<close> does not wait for the goroutine it cancels, so a tunnel that is
  switched off and on again can have two ssh processes alive at once for one route: the old
  one still shutting down and the new one, on the same control socket and the same forwarded
  port.
\<close>

theorem two_ssh_processes_reachable:
  "\<exists>s. reachable rng bo s \<and> Running s \<and>
     length (filter (\<lambda>r. phase r = InSSH) (runs s)) = 2"
proof -
  have "reachable rng bo (flapped\<lparr>runs := (runs flapped)[1 := new_run\<lparr>phase := InSSH\<rparr>]\<rparr>)"
    by (rule reach_run [OF flapped_reachable, where e = CheckContext])
       (simp_all add: flapped_eq new_run_def)
  then show ?thesis
    by (intro exI conjI, assumption) (simp_all add: flapped_eq Running_def new_run_def)
qed

text \<open>
  \<open>Stop\<close> waits on the channel of the newest goroutine only: there is a state from
  which \<open>Stop\<close> can return while the ssh process of an older goroutine is still running.
\<close>

theorem stop_can_return_before_ssh_exits:
  "\<exists>s s'. reachable rng bo s \<and> sup_step rng bo (fst (Stop s)) s' \<and>
     stop_may_return (snd (Stop s)) s' \<and> list_ex (\<lambda>r. phase r = InSSH) (runs s')"
proof -
  let ?stopped = "fst (Stop flapped)"
  let ?r = "new_run\<lparr>cancelled := True, phase := Exited\<rparr>"
  have "sup_step rng bo ?stopped (?stopped\<lparr>runs := (runs ?stopped)[1 := ?r]\<rparr>)"
    by (rule sup_step.run [where e = CheckContext])
       (simp_all add: flapped_eq Stop_def stopLocked_def new_run_def Let_def)
  moreover have "stop_may_return (snd (Stop flapped)) (?stopped\<lparr>runs := (runs ?stopped)[1 := ?r]\<rparr>)"
    "list_ex (\<lambda>r. phase r = InSSH) (runs (?stopped\<lparr>runs := (runs ?stopped)[1 := ?r]\<rparr>))"
    by (simp_all add: flapped_eq Stop_def stopLocked_def stop_may_return_def Let_def)
  ultimately show ?thesis using flapped_reachable by blast
qed

end
