(* ===== verification/PathMatch.thy ===== *)
theory PathMatch
  imports GoStrings
begin

text \<open>
  Go's \<open>path.Match\<close>, which the routing table uses for \<open>host_patterns\<close>: \<open>scanChunk\<close>,
  \<open>matchChunk\<close>, \<open>getEsc\<close> and the star search of \<open>Match\<close>, with character
  classes, escapes and \<open>ErrBadPattern\<close> (the result \<^term>\<open>None\<close>). The abstract
  specification is \<open>glob\<close>, the textbook backtracking matcher; the greedy search of the
  library is proved equal to it on the patterns a configuration is documented to hold.
\<close>

section \<open>Character classes\<close>

definition get_esc :: "string \<Rightarrow> (nat \<times> string) option" where
  "get_esc chunk =
     (if chunk = [] \<or> hd chunk = CHR ''-'' \<or> hd chunk = CHR '']'' then None
      else if hd chunk = CHR 0x5C \<and> tl chunk = [] then None
      else (let ch = (if hd chunk = CHR 0x5C then tl chunk else chunk);
                (r, n) = decode_rune ch; nchunk = drop n ch
            in if r = rune_error \<and> n = 1 then None
               else if nchunk = [] then None
               else Some (r, nchunk)))"

lemma get_esc_shorter:
  assumes "get_esc chunk = Some (r, chunk')"
  shows "length chunk' < length chunk" and "chunk' \<noteq> []"
proof -
  let ?ch = "if hd chunk = CHR 0x5C then tl chunk else chunk"
  from assms have ne: "chunk \<noteq> []" and ch: "?ch \<noteq> []"
    and r: "drop (snd (decode_rune ?ch)) ?ch = chunk'" and ne': "chunk' \<noteq> []"
    by (auto simp: get_esc_def Let_def split: prod.splits if_splits)
  from ch obtain x xs where xs: "?ch = x # xs" by (cases ?ch) auto
  have "0 < snd (decode_rune ?ch)" unfolding xs by (rule decode_rune_pos)
  then have "length chunk' < length ?ch"
    unfolding r [symmetric] length_drop using ch
    by (intro diff_less) (simp_all only: length_greater_0_conv not_False_eq_True)
  also have "\<dots> \<le> length chunk" by simp
  finally show "length chunk' < length chunk" .
  show "chunk' \<noteq> []" by (rule ne')
qed

text \<open>
  The ranges of a class up to its closing bracket: whether the rune is in one of them, and the
  rest of the chunk.
\<close>

function class_loop :: "nat \<Rightarrow> bool \<Rightarrow> nat \<Rightarrow> string \<Rightarrow> (bool \<times> string) option" where
  "class_loop r matched nrange chunk =
     (if chunk \<noteq> [] \<and> hd chunk = CHR '']'' \<and> nrange > 0 then Some (matched, tl chunk)
      else case get_esc chunk of
        None \<Rightarrow> None
      | Some (lo, c1) \<Rightarrow>
          if hd c1 = CHR ''-'' then
            (case get_esc (tl c1) of
               None \<Rightarrow> None
             | Some (hi, c2) \<Rightarrow>
                 class_loop r (matched \<or> (lo \<le> r \<and> r \<le> hi)) (Suc nrange) c2)
          else class_loop r (matched \<or> r = lo) (Suc nrange) c1)"
  by pat_completeness auto
termination
  by (relation "measure (\<lambda>(r, m, n, chunk). length chunk)")
     (auto dest!: get_esc_shorter(1))

declare class_loop.simps [simp del]

lemma class_loop_shorter:
  "class_loop r m n chunk = Some (b, rest) \<Longrightarrow> length rest < length chunk \<or> (rest = [] \<and> chunk = [])"
proof (induction r m n chunk rule: class_loop.induct)
  case (1 r m n chunk)
  show ?case
  proof (cases "chunk \<noteq> [] \<and> hd chunk = CHR '']'' \<and> n > 0")
    case True
    with "1.prems" show ?thesis by (auto simp: class_loop.simps [of r m n chunk])
  next
    case False
    with "1.prems" obtain lo c1 where g: "get_esc chunk = Some (lo, c1)"
      by (auto simp: class_loop.simps [of r m n chunk] split: option.splits if_splits)
    note sh = get_esc_shorter [OF g]
    show ?thesis
    proof (cases "hd c1 = CHR ''-''")
      case True
      with False g "1.prems" obtain hi c2 where g2: "get_esc (tl c1) = Some (hi, c2)"
        and r: "class_loop r (m \<or> (lo \<le> r \<and> r \<le> hi)) (Suc n) c2 = Some (b, rest)"
        by (auto simp: class_loop.simps [of r m n chunk] split: option.splits)
      from "1.IH"(1) [OF False g refl True g2 refl r] get_esc_shorter(1) [OF g2] sh
      show ?thesis by auto
    next
      case nodash: False
      with False g "1.prems" have r: "class_loop r (m \<or> r = lo) (Suc n) c1 = Some (b, rest)"
        by (auto simp: class_loop.simps [of r m n chunk])
      from "1.IH"(2) [OF False g refl nodash r] sh show ?thesis by auto
    qed
  qed
qed

section \<open>Chunks\<close>

text \<open>
  \<open>matchChunk\<close>: once the match has failed the loop goes on to check that the chunk is well
  formed. \<open>Some (rest, ok)\<close> is its result, \<^term>\<open>None\<close> is \<open>ErrBadPattern\<close>.
\<close>

function match_chunk :: "bool \<Rightarrow> string \<Rightarrow> string \<Rightarrow> (string \<times> bool) option" where
  "match_chunk failed0 chunk s =
     (case chunk of
        [] \<Rightarrow> Some (if failed0 then ([], False) else (s, True))
      | c # cs \<Rightarrow>
          (let failed = (failed0 \<or> s = []) in
           if c = CHR ''['' then
             (let (r, n) = (if failed then (0, 0) else decode_rune s);
                  negated = (cs \<noteq> [] \<and> hd cs = CHR ''^'');
                  cs' = (if negated then tl cs else cs)
              in case class_loop r False 0 cs' of
                   None \<Rightarrow> None
                 | Some (m, cs'') \<Rightarrow> match_chunk (failed \<or> m = negated) cs'' (drop n s))
           else if c = CHR ''?'' then
             (if failed then match_chunk True cs s
              else match_chunk (hd s = CHR ''/'') cs (drop (snd (decode_rune s)) s))
           else if c = CHR 0x5C then
             (case cs of
                [] \<Rightarrow> None
              | d # ds \<Rightarrow> if failed then match_chunk True ds s
                          else match_chunk (d \<noteq> hd s) ds (tl s))
           else if failed then match_chunk True cs s
           else match_chunk (c \<noteq> hd s) cs (tl s)))"
  by pat_completeness auto
termination
  by (relation "measure (\<lambda>(f, chunk, s). length chunk)")
     (auto dest!: class_loop_shorter split: if_splits)

declare match_chunk.simps [simp del]

text \<open>The segment of the pattern up to the next star that is not in a class.\<close>

fun scan :: "bool \<Rightarrow> string \<Rightarrow> string \<times> string" where
  "scan inrange [] = ([], [])"
| "scan inrange [c] =
     (if c = CHR ''*'' \<and> \<not> inrange then ([], [c]) else ([c], []))"
| "scan inrange (c # d # ds) =
     (if c = CHR 0x5C then map_prod (append [c, d]) id (scan inrange ds)
      else if c = CHR ''['' then map_prod (Cons c) id (scan True (d # ds))
      else if c = CHR '']'' then map_prod (Cons c) id (scan False (d # ds))
      else if c = CHR ''*'' \<and> \<not> inrange then ([], c # d # ds)
      else map_prod (Cons c) id (scan inrange (d # ds)))"

definition scan_chunk :: "string \<Rightarrow> bool \<times> string \<times> string" where
  "scan_chunk pattern =
     (pattern \<noteq> [] \<and> hd pattern = CHR ''*'', scan False (dropWhile (\<lambda>c. c = CHR ''*'') pattern))"

lemma scan_append_eq: "fst (scan b p) @ snd (scan b p) = p"
  by (induction b p rule: scan.induct) auto

lemma scan_append: "scan b p = (a, r) \<Longrightarrow> p = a @ r"
  using scan_append_eq [of b p] by simp

lemma scan_nonempty: "scan False (c # cs) = (a, r) \<Longrightarrow> c \<noteq> CHR ''*'' \<Longrightarrow> a \<noteq> []"
  by (cases cs) (auto simp: map_prod_def split: if_splits prod.splits)

lemma scan_chunk_shorter:
  assumes "scan_chunk pattern = (star, chunk, rest)" and "pattern \<noteq> []"
  shows "length rest < length pattern"
proof -
  let ?p = "dropWhile (\<lambda>c. c = CHR ''*'') pattern"
  from assms have s: "scan False ?p = (chunk, rest)" and st: "star = (hd pattern = CHR ''*'')"
    by (auto simp: scan_chunk_def)
  have le: "length ?p \<le> length pattern" by (rule length_dropWhile_le)
  show ?thesis
  proof (cases ?p)
    case Nil
    with s have "rest = []" by simp
    with assms(2) show ?thesis by simp
  next
    case (Cons c cs)
    have "c \<noteq> CHR ''*''"
      using hd_dropWhile [of "\<lambda>c. c = CHR ''*''" pattern] Cons by simp
    with s Cons have "chunk \<noteq> []" using scan_nonempty by metis
    then have "0 < length chunk" by simp
    moreover have "length ?p = length chunk + length rest"
      unfolding scan_append [OF s] by (rule length_append)
    ultimately show ?thesis using le by linarith
  qed
qed

section \<open>Match\<close>

datatype search = Found string | NotFound | BadPattern

text \<open>
  The search for the position where the chunk after a star matches: it cannot skip a slash,
  and where the chunk is the last of the pattern it must match up to the end of the name.
\<close>

fun star_search :: "string \<Rightarrow> bool \<Rightarrow> string \<Rightarrow> search" where
  "star_search chunk is_last [] = NotFound"
| "star_search chunk is_last (c # cs) =
     (if c = CHR ''/'' then NotFound
      else case match_chunk False chunk cs of
        None \<Rightarrow> BadPattern
      | Some (t, matched) \<Rightarrow>
          if matched \<and> \<not> (is_last \<and> t \<noteq> []) then Found t
          else star_search chunk is_last cs)"

text \<open>Whether the remaining chunks are well formed.\<close>

function check_rest :: "string \<Rightarrow> bool" where
  "check_rest pattern =
     (if pattern = [] then True
      else case scan_chunk pattern of (star, chunk, rest) \<Rightarrow>
        match_chunk False chunk [] \<noteq> None \<and> check_rest rest)"
  by pat_completeness auto
termination
  by (relation "measure length") (auto dest: scan_chunk_shorter [OF sym])

declare check_rest.simps [simp del]

function path_match :: "string \<Rightarrow> string \<Rightarrow> bool option" where
  "path_match pattern name =
     (if pattern = [] then Some (name = [])
      else case scan_chunk pattern of (star, chunk, rest) \<Rightarrow>
        if star \<and> chunk = [] then Some (CHR ''/'' \<notin> set name)
        else (case match_chunk False chunk name of
            None \<Rightarrow> None
          | Some (t, matched) \<Rightarrow>
              if matched \<and> (t = [] \<or> rest \<noteq> []) then path_match rest t
              else (case (if star then star_search chunk (rest = []) name else NotFound) of
                  Found t' \<Rightarrow> path_match rest t'
                | BadPattern \<Rightarrow> None
                | NotFound \<Rightarrow> if check_rest rest then Some False else None)))"
  by pat_completeness auto
termination
  by (relation "measure (\<lambda>(p, n). length p)") (auto dest: scan_chunk_shorter [OF sym])

declare path_match.simps [simp del]

section \<open>The specification: backtracking glob matching\<close>

fun glob :: "string \<Rightarrow> string \<Rightarrow> bool" where
  "glob [] n = (n = [])"
| "glob (p # ps) n =
     (if p = CHR ''*'' then
        glob ps n \<or> (case n of [] \<Rightarrow> False | c # cs \<Rightarrow> c \<noteq> CHR ''/'' \<and> glob (p # ps) cs)
      else (case n of
          [] \<Rightarrow> False
        | c # cs \<Rightarrow> (if p = CHR ''?'' then c \<noteq> CHR ''/'' else p = c) \<and> glob ps cs))"

declare glob.simps(2) [simp del]

text \<open>
  The patterns a configuration is documented to hold: literals, \<open>*\<close> and \<open>?\<close>, no classes and
  no escapes. The names: ASCII, no slash.
\<close>

definition simple_pattern :: "string \<Rightarrow> bool" where
  "simple_pattern p \<longleftrightarrow> CHR ''['' \<notin> set p \<and> CHR 0x5C \<notin> set p"

definition host_name :: "string \<Rightarrow> bool" where
  "host_name n \<longleftrightarrow> is_ascii n \<and> CHR ''/'' \<notin> set n"

definition char_ok :: "char \<Rightarrow> char \<Rightarrow> bool" where
  "char_ok p c \<longleftrightarrow> (if p = CHR ''?'' then c \<noteq> CHR ''/'' else p = c)"

definition literal_chunk :: "string \<Rightarrow> bool" where
  "literal_chunk a \<longleftrightarrow> simple_pattern a \<and> CHR ''*'' \<notin> set a"

lemma literal_chunk_Cons [simp]:
  "literal_chunk (c # a) \<longleftrightarrow> c \<noteq> CHR ''['' \<and> c \<noteq> CHR 0x5C \<and> c \<noteq> CHR ''*'' \<and> literal_chunk a"
  by (auto simp: literal_chunk_def simple_pattern_def)

lemma host_name_Cons [simp]:
  "host_name (c # n) \<longleftrightarrow> code c < 128 \<and> c \<noteq> CHR ''/'' \<and> host_name n"
  by (auto simp: host_name_def is_ascii_def)

lemma host_name_append [simp]: "host_name (a @ b) \<longleftrightarrow> host_name a \<and> host_name b"
  by (auto simp: host_name_def is_ascii_def)

lemma host_name_drop: "host_name n \<Longrightarrow> host_name (drop k n)"
  using host_name_append [of "take k n" "drop k n"] by simp

definition chunk_at :: "string \<Rightarrow> string \<Rightarrow> bool" where
  "chunk_at a n \<longleftrightarrow> length a \<le> length n \<and> list_all2 char_ok a (take (length a) n)"

lemma chunk_at_simps [simp]:
  "chunk_at [] n" "\<not> chunk_at (p # a) []"
  "chunk_at (p # a) (c # n) \<longleftrightarrow> char_ok p c \<and> chunk_at a n"
  by (auto simp: chunk_at_def)

lemma glob_chunk:
  "literal_chunk a \<Longrightarrow> glob (a @ r) n \<longleftrightarrow> chunk_at a n \<and> glob r (drop (length a) n)"
proof (induction a arbitrary: n)
  case (Cons p a)
  then show ?case
    by (cases n) (auto simp: glob.simps(2) [of p] char_ok_def)
qed simp

lemma glob_star:
  "host_name n \<Longrightarrow> glob (CHR ''*'' # r) n \<longleftrightarrow> (\<exists>k \<le> length n. glob r (drop k n))"
proof (induction n)
  case (Cons c n)
  have "glob (CHR ''*'' # r) (c # n) \<longleftrightarrow> glob r (c # n) \<or> glob (CHR ''*'' # r) n"
    using Cons.prems by (subst glob.simps(2)) simp
  also have "\<dots> \<longleftrightarrow> glob r (drop 0 (c # n)) \<or> (\<exists>k \<le> length n. glob r (drop (Suc k) (c # n)))"
    using Cons by simp
  also have "\<dots> \<longleftrightarrow> (\<exists>k \<le> length (c # n). glob r (drop k (c # n)))"
    by (metis Suc_le_mono le0 length_Cons not0_implies_Suc)
  finally show ?case .
qed (simp add: glob.simps(2))

lemma glob_star_drop:
  "host_name n \<Longrightarrow> glob (CHR ''*'' # r) (drop k n) \<Longrightarrow> glob (CHR ''*'' # r) n"
  by (auto simp: glob_star host_name_drop)
     (metis drop_all nat_le_linear)

lemma glob_stars:
  "host_name n \<Longrightarrow> glob (CHR ''*'' # p) n =
     glob (CHR ''*'' # dropWhile (\<lambda>c. c = CHR ''*'') p) n"
proof (induction p)
  case (Cons c p)
  show ?case
  proof (cases "c = CHR ''*''")
    case True
    have "glob (CHR ''*'' # CHR ''*'' # p) n = glob (CHR ''*'' # p) n"
      using glob_star_drop [OF Cons.prems, of p]
      by (auto simp: glob_star [OF Cons.prems, of "CHR ''*'' # p"] intro: exI [of _ 0])
    with True Cons show ?thesis by simp
  qed simp
qed simp

section \<open>The chunks of a simple pattern\<close>

lemma match_chunk_literal:
  "literal_chunk a \<Longrightarrow> host_name n \<Longrightarrow>
   match_chunk f a n = Some (if \<not> f \<and> chunk_at a n then (drop (length a) n, True) else ([], False))"
proof (induction a arbitrary: f n)
  case Nil
  then show ?case by (simp add: match_chunk.simps)
next
  case (Cons p a)
  then have lit: "p \<noteq> CHR ''[''" "p \<noteq> CHR 0x5C" "literal_chunk a" by auto
  show ?case
  proof (cases "f \<or> n = []")
    case True
    with Cons lit show ?thesis by (subst match_chunk.simps) (auto simp: Let_def)
  next
    case False
    then obtain c cs where n: "n = c # cs" and f: "\<not> f" by (cases n) auto
    with Cons lit show ?thesis
      by (subst match_chunk.simps) (auto simp: Let_def char_ok_def)
  qed
qed

lemma scan_simple:
  "simple_pattern p \<Longrightarrow>
   scan False p = (takeWhile (\<lambda>c. c \<noteq> CHR ''*'') p, dropWhile (\<lambda>c. c \<noteq> CHR ''*'') p)"
proof (induction p rule: induct_list012)
  case (3 c d ds)
  from "3.prems" have "c \<noteq> CHR 0x5C" "c \<noteq> CHR ''[''" "simple_pattern (d # ds)"
    by (auto simp: simple_pattern_def)
  with "3.IH"(2) show ?case by (cases "c = CHR '']''") simp_all
qed simp_all

lemma scan_chunk_simple:
  assumes "simple_pattern p" "scan_chunk p = (star, a, rest)"
  shows "literal_chunk a" "simple_pattern rest" "rest = [] \<or> hd rest = CHR ''*''"
    and "star \<longleftrightarrow> p \<noteq> [] \<and> hd p = CHR ''*''" "dropWhile (\<lambda>c. c = CHR ''*'') p = a @ rest"
proof -
  let ?p = "dropWhile (\<lambda>c. c = CHR ''*'') p"
  have simple: "simple_pattern ?p"
    using assms(1) by (auto simp: simple_pattern_def dest: set_dropWhileD)
  have a: "a = takeWhile (\<lambda>c. c \<noteq> CHR ''*'') ?p" and r: "rest = dropWhile (\<lambda>c. c \<noteq> CHR ''*'') ?p"
    and st: "star \<longleftrightarrow> p \<noteq> [] \<and> hd p = CHR ''*''"
    using assms(2) scan_simple [OF simple] by (auto simp: scan_chunk_def)
  show "literal_chunk a"
    using simple by (auto simp: a literal_chunk_def simple_pattern_def dest: set_takeWhileD)
  show "simple_pattern rest"
    using simple by (auto simp: r simple_pattern_def dest: set_dropWhileD)
  show "rest = [] \<or> hd rest = CHR ''*''"
    using hd_dropWhile [of "\<lambda>c. c \<noteq> CHR ''*''" ?p] unfolding r by auto
  show "star \<longleftrightarrow> p \<noteq> [] \<and> hd p = CHR ''*''" by (rule st)
  show "?p = a @ rest" unfolding a r by simp
qed

lemma check_rest_simple: "simple_pattern p \<Longrightarrow> check_rest p"
proof (induction p rule: check_rest.induct)
  case (1 p)
  obtain star a rest where sc: "scan_chunk p = (star, a, rest)" by (cases "scan_chunk p") auto
  have "host_name []" by (simp add: host_name_def is_ascii_def)
  then have "match_chunk False a [] \<noteq> None"
    using match_chunk_literal scan_chunk_simple(1) [OF "1.prems" sc] by simp
  then show ?case
    using 1 sc scan_chunk_simple(2) [OF "1.prems" sc] by (subst check_rest.simps) simp
qed

section \<open>The greedy search is complete\<close>

text \<open>
  What is left after the leftmost match of a chunk decides the whole match: a later match of
  the chunk leaves a suffix of it, and the rest of the pattern starts with a star.
\<close>

definition star_rest :: "string \<Rightarrow> bool" where
  "star_rest rest \<longleftrightarrow> rest = [] \<or> hd rest = CHR ''*''"

lemma glob_rest_drop:
  assumes "star_rest rest" "rest \<noteq> []" "host_name n" "glob rest (drop k n)"
  shows "glob rest n"
  using assms glob_star_drop by (cases rest) (auto simp: star_rest_def)

lemma glob_leftmost:
  assumes "literal_chunk a" "star_rest rest" "rest \<noteq> []" "host_name n" "chunk_at a n"
    and "glob (a @ rest) (drop k n)"
  shows "glob rest (drop (length a) n)"
proof -
  have "glob rest (drop (length a) (drop k n))"
    using assms glob_chunk by blast
  then have "glob rest (drop k (drop (length a) n))"
    by (simp add: add.commute)
  then show ?thesis
    using assms glob_rest_drop host_name_drop by blast
qed

lemma ex_pos_le: "(\<exists>k \<le> Suc m. 0 < k \<and> Q k) \<longleftrightarrow> (\<exists>j \<le> m. Q (Suc j))"
  using gr0_conv_Suc by auto

lemma ex_le_split: "(\<exists>j \<le> m. Q j) \<longleftrightarrow> Q 0 \<or> (\<exists>j \<le> m. 0 < j \<and> Q (j :: nat))"
  by auto

lemma star_search_correct:
  assumes "literal_chunk a" "star_rest rest" "host_name n"
  shows "(case star_search a (rest = []) n of
      Found t \<Rightarrow> host_name t \<and> (glob rest t \<longleftrightarrow> (\<exists>k \<le> length n. 0 < k \<and> glob (a @ rest) (drop k n)))
    | NotFound \<Rightarrow> \<not> (\<exists>k \<le> length n. 0 < k \<and> glob (a @ rest) (drop k n))
    | BadPattern \<Rightarrow> False)"
  using assms(3)
proof (induction n)
  case (Cons c n)
  have split_k: "(\<exists>k \<le> length (c # n). 0 < k \<and> P (drop k (c # n))) \<longleftrightarrow>
      P n \<or> (\<exists>k \<le> length n. 0 < k \<and> P (drop k n))" for P :: "string \<Rightarrow> bool"
    using ex_pos_le [of "length n" "\<lambda>k. P (drop k (c # n))"] ex_le_split [of "length n" "\<lambda>k. P (drop k n)"]
    by simp
  have m: "match_chunk False a n = Some (if chunk_at a n then (drop (length a) n, True) else ([], False))"
    using Cons.prems assms(1) by (simp add: match_chunk_literal)
  have g: "glob (a @ rest) n \<longleftrightarrow> chunk_at a n \<and> glob rest (drop (length a) n)"
    by (rule glob_chunk [OF assms(1)])
  show ?case
  proof (cases "chunk_at a n \<and> \<not> (rest = [] \<and> drop (length a) n \<noteq> [])")
    case True
    let ?t = "drop (length a) n"
    have s: "star_search a (rest = []) (c # n) = Found ?t"
      using True m Cons.prems by (auto split: if_splits)
    have "glob rest ?t" if "glob (a @ rest) (drop k n)" for k
    proof (cases "rest = []")
      case False
      with that True Cons.prems show ?thesis
        using glob_leftmost [OF assms(1,2) False] by auto
    qed (use True in simp)
    then have "glob rest ?t \<longleftrightarrow> (\<exists>k \<le> length (c # n). 0 < k \<and> glob (a @ rest) (drop k (c # n)))"
      unfolding split_k using g True by auto
    moreover have "host_name ?t" using Cons.prems host_name_drop by auto
    ultimately show ?thesis unfolding s by simp
  next
    case False
    then have "\<not> glob (a @ rest) n" using g by auto
    moreover have "star_search a (rest = []) (c # n) = star_search a (rest = []) n"
      using False m Cons.prems by (auto split: if_splits)
    moreover note Cons.IH
    ultimately show ?thesis using Cons.prems unfolding split_k by (auto split: search.splits)
  qed
qed simp

lemma glob_first_chunk:
  assumes sc: "scan_chunk p = (star, a, rest)" and p: "simple_pattern p" "p \<noteq> []" and n: "host_name n"
  shows "glob p n \<longleftrightarrow>
    (if star then \<exists>k \<le> length n. glob (a @ rest) (drop k n) else glob (a @ rest) n)"
proof (cases star)
  case True
  note sp = scan_chunk_simple [OF p(1) sc]
  from True sp(4) obtain p' where p': "p = CHR ''*'' # p'" by (cases p) auto
  have "glob p n = glob (CHR ''*'' # dropWhile (\<lambda>c. c = CHR ''*'') p) n"
    unfolding p' using glob_stars [OF n] by simp
  then show ?thesis using True n by (simp add: sp(5) glob_star)
next
  case False
  note sp = scan_chunk_simple [OF p(1) sc]
  from False sp(4,5) p(2) have "p = a @ rest" by (cases p) auto
  with False show ?thesis by simp
qed

lemma path_match_step:
  assumes sc: "scan_chunk p = (star, a, rest)" and p: "simple_pattern p" "p \<noteq> []" and n: "host_name n"
  shows "path_match p n =
    (if star \<and> a = [] then Some True
     else if chunk_at a n \<and> (drop (length a) n = [] \<or> rest \<noteq> [])
     then path_match rest (drop (length a) n)
     else case (if star then star_search a (rest = []) n else NotFound) of
         Found t \<Rightarrow> path_match rest t | BadPattern \<Rightarrow> None | NotFound \<Rightarrow> Some False)"
proof -
  note sp = scan_chunk_simple [OF p(1) sc]
  have "match_chunk False a n = Some (if chunk_at a n then (drop (length a) n, True) else ([], False))"
    using match_chunk_literal [OF sp(1) n] by simp
  moreover have "CHR ''/'' \<notin> set n" using n by (simp add: host_name_def)
  ultimately show ?thesis
    using p(2) check_rest_simple [OF sp(2)]
    by (subst path_match.simps) (auto simp: sc split: search.splits)
qed

theorem path_match_glob:
  "simple_pattern p \<Longrightarrow> host_name n \<Longrightarrow> path_match p n = Some (glob p n)"
proof (induction "length p" arbitrary: p n rule: less_induct)
  case less
  note n = less.prems(2)
  show ?case
  proof (cases "p = []")
    case True
    then show ?thesis by (simp add: path_match.simps)
  next
    case ne: False
    obtain star a rest where sc: "scan_chunk p = (star, a, rest)" by (cases "scan_chunk p") auto
    note sp = scan_chunk_simple [OF less.prems(1) sc]
    have sr: "star_rest rest" using sp(3) by (simp add: star_rest_def)
    note step = path_match_step [OF sc less.prems(1) ne n]
    note first = glob_first_chunk [OF sc less.prems(1) ne n]
    have IH: "path_match rest t = Some (glob rest t)" if "host_name t" for t
      using less.hyps scan_chunk_shorter [OF sc ne] sp(2) that by blast
    consider (all) "star" "a = []"
      | (here) "\<not> (star \<and> a = [])" "chunk_at a n" "drop (length a) n = [] \<or> rest \<noteq> []"
      | (later) "\<not> (star \<and> a = [])" "\<not> (chunk_at a n \<and> (drop (length a) n = [] \<or> rest \<noteq> []))"
      by blast
    then show ?thesis
    proof cases
      case all
      have "rest = []"
        using sp(3,5) all(2) hd_dropWhile [of "\<lambda>c. c = CHR ''*''" p] by auto
      then have "glob p n"
        using first all by (auto intro: exI [of _ "length n"])
      then show ?thesis using step all by simp
    next
      case here
      have "glob rest (drop (length a) n)" if "glob (a @ rest) (drop k n)" for k
        using that here(3) glob_leftmost [OF sp(1) sr _ n here(2)] by (cases "rest = []") auto
      moreover have "glob (a @ rest) (drop 0 n) \<longleftrightarrow> glob rest (drop (length a) n)"
        using glob_chunk [OF sp(1)] here(2) by simp
      ultimately have "glob p n \<longleftrightarrow> glob rest (drop (length a) n)"
        using first by (metis drop0 le0)
      then show ?thesis using step here IH [OF host_name_drop [OF n]] by simp
    next
      case later
      have not0: "\<not> glob (a @ rest) n"
        using later(2) glob_chunk [OF sp(1)] by auto
      then have "(\<exists>k \<le> length n. glob (a @ rest) (drop k n)) \<longleftrightarrow>
          (\<exists>k \<le> length n. 0 < k \<and> glob (a @ rest) (drop k n))"
        by (metis drop0 gr0I)
      then show ?thesis
        using star_search_correct [OF sp(1) sr n] step first later not0 IH
        by (cases star) (auto split: search.splits)
    qed
  qed
qed

end
