(* ===== verification/ProxyTable.thy ===== *)
theory ProxyTable
  imports Config PathMatch
begin

text \<open>
  \<open>internal/proxy/table.go\<close>: the routing table of the front-door proxy. A table holds the
  routes with a socks proxy, in the order of the configuration, with lower-cased patterns,
  masked prefixes and the upstream address, and the recorded direct-or-proxy state of each
  route. \<open>uni\<close> is the lower-casing of non-ASCII strings.
\<close>

section \<open>The table\<close>

record decision =
  d_Route :: string
  d_Upstream :: string

record table_route =
  tr_name :: string
  tr_upstream :: string
  tr_patterns :: "string list"
  tr_subnets :: "prefix list"

record table =
  t_routes :: "table_route list"
  t_proxyNeeded :: "string \<rightharpoonup> bool"

definition upstream_addr :: "socks_proxy_config \<Rightarrow> string" where
  "upstream_addr sp = join_host_port (sp_Bind sp) (itoa (sp_Port sp))"

definition tableRoute :: "(string \<Rightarrow> string) \<Rightarrow> route \<Rightarrow> table_route option" where
  "tableRoute uni r =
     (case r_SocksProxy r of
        None \<Rightarrow> None
      | Some sp \<Rightarrow> Some \<lparr>
          tr_name = r_Name r,
          tr_upstream = upstream_addr sp,
          tr_patterns = map (to_lower uni) (r_HostPatterns r),
          tr_subnets = map masked (List.map_filter parse_prefix (r_HostSubnets r))\<rparr>)"

definition NewTable :: "(string \<Rightarrow> string) \<Rightarrow> route list \<Rightarrow> table" where
  "NewTable uni routes =
     \<lparr>t_routes = List.map_filter (tableRoute uni) routes, t_proxyNeeded = (\<lambda>_. None)\<rparr>"

definition Update :: "(string \<rightharpoonup> bool) \<Rightarrow> table \<Rightarrow> table" where
  "Update proxyNeeded t = t\<lparr>t_proxyNeeded := proxyNeeded\<rparr>"

section \<open>match and Decide\<close>

definition route_matches :: "string \<Rightarrow> addr option \<Rightarrow> table_route \<Rightarrow> bool" where
  "route_matches host addr r \<longleftrightarrow>
     list_ex (\<lambda>p. path_match p host = Some True) (tr_patterns r) \<or>
     (case addr of
        None \<Rightarrow> False
      | Some a \<Rightarrow> list_ex (\<lambda>prefix. prefix_contains prefix (unmap a)) (tr_subnets r))"

fun match_routes :: "string \<Rightarrow> addr option \<Rightarrow> table_route list \<Rightarrow> (string \<times> string) option" where
  "match_routes host addr [] = None"
| "match_routes host addr (r # rs) =
     (if route_matches host addr r then Some (tr_name r, tr_upstream r)
      else match_routes host addr rs)"

definition canonical_host :: "(string \<Rightarrow> string) \<Rightarrow> string \<Rightarrow> string" where
  "canonical_host uni host = trim_suffix (to_lower uni host) ''.''"

definition table_match :: "(string \<Rightarrow> string) \<Rightarrow> table \<Rightarrow> string \<Rightarrow> (string \<times> string) option" where
  "table_match uni t host0 =
     (let host = canonical_host uni host0
      in match_routes host (parse_addr host) (t_routes t))"

definition Decide :: "(string \<Rightarrow> string) \<Rightarrow> table \<Rightarrow> string \<Rightarrow> decision" where
  "Decide uni t host =
     (case table_match uni t host of
        None \<Rightarrow> \<lparr>d_Route = [], d_Upstream = []\<rparr>
      | Some (name, upstream) \<Rightarrow>
          if t_proxyNeeded t name = Some False then \<lparr>d_Route = name, d_Upstream = []\<rparr>
          else \<lparr>d_Route = name, d_Upstream = upstream\<rparr>)"

section \<open>The specification\<close>

text \<open>
  On the configuration itself: a route covers a destination if one of its patterns, read
  without regard to case, matches by \<open>glob\<close>, or the destination is a literal address
  (an IPv4 address also in its IPv6-mapped form) inside one of its subnets.
\<close>

definition in_subnet :: "string \<Rightarrow> string \<Rightarrow> bool" where
  "in_subnet host s =
     (case (parse_addr host, parse_prefix s) of
        (Some a, Some p) \<Rightarrow> prefix_contains (masked p) (unmap a)
      | _ \<Rightarrow> False)"

definition covers :: "route \<Rightarrow> string \<Rightarrow> bool" where
  "covers r host \<longleftrightarrow>
     list_ex (\<lambda>p. glob (map lower_char p) host) (r_HostPatterns r) \<or>
     list_ex (in_subnet host) (r_HostSubnets r)"

definition plain_pattern :: "string \<Rightarrow> bool" where
  "plain_pattern p \<longleftrightarrow> is_ascii p \<and> simple_pattern p"

definition routing_spec :: "(string \<rightharpoonup> bool) \<Rightarrow> route list \<Rightarrow> string \<Rightarrow> decision" where
  "routing_spec needed routes host =
     (case find (\<lambda>r. r_SocksProxy r \<noteq> None \<and> covers r host) routes of
        None \<Rightarrow> \<lparr>d_Route = [], d_Upstream = []\<rparr>
      | Some r \<Rightarrow> \<lparr>d_Route = r_Name r,
          d_Upstream = (case r_SocksProxy r of
              Some sp \<Rightarrow> if needed (r_Name r) = Some False then [] else upstream_addr sp
            | None \<Rightarrow> [])\<rparr>)"

section \<open>The table implements the specification\<close>

lemma is_ascii_lower: "is_ascii s \<Longrightarrow> is_ascii (map lower_char s)"
  by (auto simp: is_ascii_def list_all_iff code_lower_char)

lemma lower_char_eq:
  assumes "code d < (65 :: nat) \<or> 90 < (code d :: nat) \<and> code d < (97 :: nat) \<or> 122 < (code d :: nat)"
  shows "lower_char c = d \<longleftrightarrow> c = d"
proof -
  have "lower_char c = d \<longleftrightarrow> code (lower_char c) = (code d :: nat)" by (rule code_eq_iff [symmetric])
  also have "\<dots> \<longleftrightarrow> code c = (code d :: nat)" using assms by (auto simp: code_lower_char)
  finally show ?thesis by (simp only: code_eq_iff)
qed

lemma map_lower_mem:
  assumes "code d < (65 :: nat) \<or> 90 < (code d :: nat) \<and> code d < (97 :: nat) \<or> 122 < (code d :: nat)"
  shows "d \<in> set (map lower_char s) \<longleftrightarrow> d \<in> set s"
  unfolding set_map image_iff using lower_char_eq [OF assms] by metis

lemma plain_pattern_lower: "plain_pattern p \<Longrightarrow> simple_pattern (map lower_char p)"
  using map_lower_mem [of "CHR ''[''" p] map_lower_mem [of "CHR 0x5C" p]
  by (simp add: plain_pattern_def simple_pattern_def del: set_map)

lemma host_name_lower: "host_name h \<Longrightarrow> host_name (map lower_char h)"
  using map_lower_mem [of "CHR ''/''" h] is_ascii_lower by (simp add: host_name_def del: set_map)

lemma host_name_trim: "host_name h \<Longrightarrow> host_name (trim_suffix h s)"
  using host_name_append [of "take (length h - length s) h"]
  by (metis append_take_drop_id trim_suffix_def)

lemma host_name_canonical: "host_name h \<Longrightarrow> host_name (canonical_host uni h)"
  using host_name_trim [OF host_name_lower] by (simp add: canonical_host_def to_lower_def host_name_def)

lemma tableRoute_name: "tableRoute uni r = Some t \<Longrightarrow> tr_name t = r_Name r"
  by (auto simp: tableRoute_def split: option.splits)

lemma table_route_covers:
  assumes "tableRoute uni r = Some t" "list_all plain_pattern (r_HostPatterns r)" "host_name h"
  shows "route_matches h (parse_addr h) t \<longleftrightarrow> covers r h"
proof -
  from assms(1) have t: "tr_patterns t = map (to_lower uni) (r_HostPatterns r)"
    "tr_subnets t = map masked (List.map_filter parse_prefix (r_HostSubnets r))"
    by (auto simp: tableRoute_def split: option.splits)
  have "path_match (to_lower uni p) h = Some True \<longleftrightarrow> glob (map lower_char p) h"
    if "p \<in> set (r_HostPatterns r)" for p
  proof -
    from that assms(2) have p: "plain_pattern p" by (auto simp: list_all_iff)
    then have "to_lower uni p = map lower_char p" by (simp add: plain_pattern_def to_lower_def)
    then show ?thesis using path_match_glob [OF plain_pattern_lower [OF p] assms(3)] by simp
  qed
  then have "list_ex (\<lambda>p. path_match p h = Some True) (tr_patterns t) \<longleftrightarrow>
      list_ex (\<lambda>p. glob (map lower_char p) h) (r_HostPatterns r)"
    by (auto simp: t list_ex_iff)
  moreover have "(case parse_addr h of None \<Rightarrow> False
      | Some a \<Rightarrow> list_ex (\<lambda>prefix. prefix_contains prefix (unmap a)) (tr_subnets t)) \<longleftrightarrow>
      list_ex (in_subnet h) (r_HostSubnets r)"
    by (auto simp: t list_ex_iff in_subnet_def map_filter_def simp del: prefix_contains.simps
        split: option.splits)
  ultimately show ?thesis by (simp only: route_matches_def covers_def)
qed

lemma match_routes_find:
  assumes "list_all (\<lambda>r. list_all plain_pattern (r_HostPatterns r)) rs" "host_name h"
  shows "match_routes h (parse_addr h) (List.map_filter (tableRoute uni) rs) =
    (case find (\<lambda>r. r_SocksProxy r \<noteq> None \<and> covers r h) rs of
       None \<Rightarrow> None
     | Some r \<Rightarrow> map_option (\<lambda>sp. (r_Name r, upstream_addr sp)) (r_SocksProxy r))"
  using assms(1)
proof (induction rs)
  case (Cons r rs)
  show ?case
  proof (cases "r_SocksProxy r")
    case None
    then have "tableRoute uni r = None" by (simp add: tableRoute_def)
    with None Cons show ?thesis by (simp add: map_filter_simps)
  next
    case (Some sp)
    then obtain t where t: "tableRoute uni r = Some t" "tr_name t = r_Name r"
      "tr_upstream t = upstream_addr sp" by (simp add: tableRoute_def)
    have "route_matches h (parse_addr h) t \<longleftrightarrow> covers r h"
      using table_route_covers [OF t(1) _ assms(2)] Cons.prems by simp
    with t Some Cons show ?thesis by (simp add: map_filter_simps)
  qed
qed (simp add: map_filter_simps)

lemma join_host_port_nonempty [simp]: "join_host_port h p \<noteq> []"
  by (simp add: join_host_port_def)

lemma Decide_routing_spec:
  assumes "list_all (\<lambda>r. list_all plain_pattern (r_HostPatterns r)) routes" "host_name host"
  shows "Decide uni (Update needed (NewTable uni routes)) host =
    routing_spec needed routes (trim_suffix (map lower_char host) ''.'')"
proof -
  have h: "canonical_host uni host = trim_suffix (map lower_char host) ''.''"
    using assms(2) by (simp add: canonical_host_def to_lower_def host_name_def)
  have "host_name (trim_suffix (map lower_char host) ''.'')"
    using assms(2) by (intro host_name_trim host_name_lower)
  note m = match_routes_find [OF assms(1) this, of uni]
  let ?P = "\<lambda>r. r_SocksProxy r \<noteq> None \<and> covers r (trim_suffix (map lower_char host) ''.'')"
  have tm: "table_match uni (Update needed (NewTable uni routes)) host =
    (case find ?P routes of
       None \<Rightarrow> None
     | Some r \<Rightarrow> map_option (\<lambda>sp. (r_Name r, upstream_addr sp)) (r_SocksProxy r))"
    by (simp only: table_match_def h m Let_def Update_def NewTable_def table.simps)
  show ?thesis
  proof (cases "find ?P routes")
    case None
    then show ?thesis by (simp only: Decide_def tm routing_spec_def option.case)
  next
    case (Some r)
    then have "?P r" by (auto simp: find_Some_iff)
    then obtain sp where sp: "r_SocksProxy r = Some sp" by blast
    have "t_proxyNeeded (Update needed (NewTable uni routes)) = needed" by (simp add: Update_def)
    with sp show ?thesis
      by (simp only: Decide_def tm Some routing_spec_def option.case option.map prod.case) simp
  qed
qed

section \<open>Properties\<close>

text \<open>
  Claim C6. For patterns of literals, \<open>*\<close> and \<open>?\<close>, and any ASCII host, \<open>Decide\<close> implements the
  routing rule: the first route of the configuration that has a socks proxy and covers the host
  (case and one trailing dot ignored) is chosen; the connection is dialled directly only if that
  route is recorded as direct or no route covers the host, and goes to the route's socks proxy
  otherwise, also while its state is unknown.
\<close>

theorem decide_refines_routing_rule:
  assumes "list_all (\<lambda>r. list_all plain_pattern (r_HostPatterns r)) routes" "host_name host"
  shows "Decide uni (Update needed (NewTable uni routes)) host =
    routing_spec needed routes (trim_suffix (map lower_char host) ''.'')"
  by (rule Decide_routing_spec [OF assms])

definition wiki_route :: route where
  "wiki_route = \<lparr>r_Name = ''home'', r_JumpHost = ''gw'', r_HostPatterns = [''*.Lan''],
     r_HostSubnets = [''10.20.0.0/21''], r_DirectProfiles = [],
     r_SocksProxy = Some \<lparr>sp_Active = False, sp_Bind = ''127.0.0.1'', sp_Port = 1080\<rparr>,
     r_KeepTunnelWhenDirect = False\<rparr>"

theorem decide_refines_routing_rule_witness:
  "Decide id (Update (\<lambda>_. None) (NewTable id [wiki_route])) ''Wiki.LAN.'' =
     routing_spec (\<lambda>_. None) [wiki_route] (trim_suffix (map lower_char ''Wiki.LAN.'') ''.'')"
  by (rule decide_refines_routing_rule)
     (simp_all add: wiki_route_def plain_pattern_def simple_pattern_def is_ascii_def host_name_def)

lemma match_routes_upstream:
  "match_routes h a (List.map_filter (tableRoute uni) rs) = Some (name, up) \<Longrightarrow> up \<noteq> []"
proof (induction rs)
  case (Cons r rs)
  then show ?case
    by (cases "tableRoute uni r")
       (auto simp: map_filter_simps tableRoute_def upstream_addr_def split: option.splits if_splits)
qed (simp add: map_filter_simps)

lemma table_match_upstream: "table_match uni (NewTable uni routes) h = Some (name, up) \<Longrightarrow> up \<noteq> []"
  using match_routes_upstream by (auto simp: table_match_def NewTable_def Let_def)

text \<open>
  The fail-safe direction, for every configuration and every host, odd patterns
  included: a destination that some route claims is dialled directly only if that route is
  recorded as not needing its jump host; a fresh table, with nothing recorded, sends it through
  the tunnel.
\<close>

theorem claimed_destination_direct_only_if_recorded:
  assumes "table_match uni (NewTable uni routes) host = Some (name, upstream)"
  shows "d_Route (Decide uni (Update needed (NewTable uni routes)) host) = name \<and>
    (d_Upstream (Decide uni (Update needed (NewTable uni routes)) host) = [] \<longleftrightarrow> needed name = Some False) \<and>
    d_Upstream (Decide uni (NewTable uni routes) host) = upstream \<and> upstream \<noteq> []"
proof -
  have up: "upstream \<noteq> []" by (rule table_match_upstream [OF assms])
  have m: "table_match uni (Update needed (NewTable uni routes)) host = Some (name, upstream)"
    using assms by (simp add: table_match_def Update_def NewTable_def)
  have "d_Route (Decide uni (Update needed (NewTable uni routes)) host) = name"
    "d_Upstream (Decide uni (Update needed (NewTable uni routes)) host) = [] \<longleftrightarrow> needed name = Some False"
    using up by (simp_all add: Decide_def m) (simp add: Update_def)+
  moreover have "d_Upstream (Decide uni (NewTable uni routes) host) = upstream"
    by (simp add: Decide_def assms) (simp add: NewTable_def)
  ultimately show ?thesis using up by simp
qed

theorem claimed_destination_direct_only_if_recorded_witness:
  "d_Upstream (Decide id (NewTable id [wiki_route]) ''10.20.3.4'') = ''127.0.0.1:1080''"
proof -
  have "table_match id (NewTable id [wiki_route]) ''10.20.3.4'' = Some (''home'', ''127.0.0.1:1080'')"
    by code_simp
  from claimed_destination_direct_only_if_recorded [OF this] show ?thesis by blast
qed

text \<open>
  The two parsers of subnets disagree on leading zeros in the prefix length: the PAC
  file lists \<open>10.0.0.0/08\<close> of a route as proxied, while the table silently drops it, so the
  front-door proxy that the PAC file names dials the destination directly.
\<close>

theorem leading_zero_subnet_dialled_directly:
  "parse_cidr ''10.0.0.0/08'' \<noteq> None \<and>
   Decide uni (Update (\<lambda>_. Some True) (NewTable uni
     [wiki_route\<lparr>r_HostPatterns := [], r_HostSubnets := [''10.0.0.0/08'']\<rparr>])) ''10.1.2.3'' =
   \<lparr>d_Route = [], d_Upstream = []\<rparr>"
proof
  have "cut CHR ''/'' ''10.0.0.0/08'' = Some (''10.0.0.0'', ''08'')" by simp
  moreover have "parse_addr ''10.0.0.0'' = Some (V4 0x0A000000)" by code_simp
  moreover have "dtoi ''08'' = Some 8" by (simp add: dtoi_def decimal_def digit_value_def is_digit_def)
  ultimately show "parse_cidr ''10.0.0.0/08'' \<noteq> None" by (simp add: parse_cidr_def Let_def)
  have "parse_prefix ''10.0.0.0/08'' = None" by code_simp
  then show "Decide uni (Update (\<lambda>_. Some True) (NewTable uni
     [wiki_route\<lparr>r_HostPatterns := [], r_HostSubnets := [''10.0.0.0/08'']\<rparr>])) ''10.1.2.3'' =
   \<lparr>d_Route = [], d_Upstream = []\<rparr>"
    by (simp add: Decide_def table_match_def NewTable_def Update_def tableRoute_def wiki_route_def
        map_filter_simps route_matches_def Let_def split: option.splits)
qed

end
