(* ===== verification/Pac.thy ===== *)
theory Pac
  imports ProxyTable
begin

text \<open>
  \<open>internal/pac\<close>: the text \<open>Generate\<close> renders (\<open>generate.go\<close>), byte for byte, the list of
  rules it encodes and what a browser decides with them, and the server of the PAC file
  (\<open>server.go\<close>). The browser's \<open>shExpMatch\<close> and \<open>isInNet\<close> are parameters, and so is the
  table of printable non-ASCII characters that \<open>%q\<close> consults.
\<close>

section \<open>The format verb q\<close>

definition hex_lower :: "nat \<Rightarrow> char" where
  "hex_lower d = char_of (if d < 10 then 48 + d else 87 + d)"

fun hex_pad :: "nat \<Rightarrow> nat \<Rightarrow> string" where
  "hex_pad 0 n = []"
| "hex_pad (Suc k) n = hex_pad k (n div 16) @ [hex_lower (n mod 16)]"

definition backslash :: char where
  "backslash = CHR 0x5C"

definition dquote :: char where
  "dquote = CHR 0x22"

text \<open>\<open>strconv.Quote\<close> of one decoded rune with its bytes.\<close>

definition quote_rune :: "(nat \<Rightarrow> bool) \<Rightarrow> nat \<Rightarrow> string \<Rightarrow> string" where
  "quote_rune is_print r bytes =
     (if r = rune_error \<and> length bytes = 1 then backslash # CHR ''x'' # hex_pad 2 (code (hd bytes))
      else if r = 34 \<or> r = 92 then backslash # bytes
      else if (if r < 128 then 32 \<le> r \<and> r < 127 else is_print r) then bytes
      else if r = 7 then [backslash, CHR ''a'']
      else if r = 8 then [backslash, CHR ''b'']
      else if r = 12 then [backslash, CHR ''f'']
      else if r = 10 then [backslash, CHR ''n'']
      else if r = 13 then [backslash, CHR ''r'']
      else if r = 9 then [backslash, CHR ''t'']
      else if r = 11 then [backslash, CHR ''v'']
      else if r < 32 \<or> r = 127 then backslash # CHR ''x'' # hex_pad 2 r
      else if r < 0x10000 then backslash # CHR ''u'' # hex_pad 4 r
      else backslash # CHR ''U'' # hex_pad 8 r)"

function quote_runes :: "(nat \<Rightarrow> bool) \<Rightarrow> string \<Rightarrow> string" where
  "quote_runes is_print [] = []"
| "quote_runes is_print (c # s) =
     (let (r, w) = decode_rune (c # s)
      in quote_rune is_print r (take w (c # s)) @ quote_runes is_print (drop w (c # s)))"
  by pat_completeness auto
termination
  by (relation "measure (\<lambda>(_, s). length s)") (auto dest!: decode_rune_pos' simp: less_Suc_eq_le)

definition go_quote :: "(nat \<Rightarrow> bool) \<Rightarrow> string \<Rightarrow> string" where
  "go_quote is_print s = dquote # quote_runes is_print s @ [dquote]"

section \<open>generate.go\<close>

definition nl :: string where
  "nl = [CHR 0x0A]"

definition em_dash :: string where
  "em_dash = [CHR 0xE2, CHR 0x80, CHR 0x94]"

definition pac_header :: string where
  "pac_header =
     ''// Generated by ssh-autoproxy '' @ em_dash @ '' do not edit by hand.'' @ nl @
     ''// Regenerated automatically whenever the network state changes.'' @ nl @
     ''function FindProxyForURL(url, host) {'' @ nl"

definition pac_footer :: string where
  "pac_footer = ''    return '' @ [dquote] @ ''DIRECT'' @ [dquote] @ '';'' @ nl @ ''}'' @ nl"

definition cidrToNetmask :: "string \<Rightarrow> (string \<times> string) option" where
  "cidrToNetmask cidr =
     (case parse_cidr cidr of
        None \<Rightarrow> None
      | Some n \<Rightarrow> Some (ip_string (net_ip n), ip_string (net_mask n)))"

text \<open>\<open>proxyNeeded[route.Name]\<close> of a Go map: false for a missing key.\<close>

definition proxyValue :: "(string \<rightharpoonup> bool) \<Rightarrow> string \<Rightarrow> route \<Rightarrow> socks_proxy_config \<Rightarrow> string" where
  "proxyValue proxyNeeded frontAddr r sp =
     (if proxyNeeded (r_Name r) = Some True then
        ''SOCKS5 '' @ (if frontAddr = [] then upstream_addr sp else frontAddr) @ ''; DIRECT''
      else ''DIRECT'')"

definition return_stmt :: "(nat \<Rightarrow> bool) \<Rightarrow> string \<Rightarrow> string \<Rightarrow> string" where
  "return_stmt is_print val name =
     ''        return '' @ go_quote is_print val @ ''; // route: '' @ name @ nl @ ''    }'' @ nl"

definition pattern_stmt :: "(nat \<Rightarrow> bool) \<Rightarrow> string \<Rightarrow> string \<Rightarrow> string \<Rightarrow> string" where
  "pattern_stmt is_print val name pattern =
     ''    if (shExpMatch(host, '' @ go_quote is_print pattern @ '')) {'' @ nl @ return_stmt is_print val name"

definition subnet_stmt :: "(nat \<Rightarrow> bool) \<Rightarrow> string \<Rightarrow> string \<Rightarrow> string \<Rightarrow> string" where
  "subnet_stmt is_print val name cidr =
     (case cidrToNetmask cidr of
        None \<Rightarrow> []
      | Some (network, netmask) \<Rightarrow>
          ''    if (isInNet(host, '' @ go_quote is_print network @ '', '' @ go_quote is_print netmask @ '')) {'' @
          nl @ return_stmt is_print val name)"

definition route_stmts :: "(nat \<Rightarrow> bool) \<Rightarrow> (string \<rightharpoonup> bool) \<Rightarrow> string \<Rightarrow> route \<Rightarrow> string" where
  "route_stmts is_print proxyNeeded frontAddr r =
     (case r_SocksProxy r of
        None \<Rightarrow> []
      | Some sp \<Rightarrow>
          let val = proxyValue proxyNeeded frontAddr r sp in
          concat (map (pattern_stmt is_print val (r_Name r)) (r_HostPatterns r)) @
          concat (map (subnet_stmt is_print val (r_Name r)) (r_HostSubnets r)))"

definition Generate :: "(nat \<Rightarrow> bool) \<Rightarrow> route list \<Rightarrow> (string \<rightharpoonup> bool) \<Rightarrow> string \<Rightarrow> string" where
  "Generate is_print routes proxyNeeded frontAddr =
     pac_header @ concat (map (route_stmts is_print proxyNeeded frontAddr) routes) @ pac_footer"

section \<open>server.go\<close>

record pac_server =
  ps_path :: string
  ps_body :: string
  ps_serving :: bool

definition NewPacServer :: "string \<Rightarrow> pac_server" where
  "NewPacServer path =
     \<lparr>ps_path = (if path = [] then ''/proxy.pac'' else path), ps_body = [], ps_serving = False\<rparr>"

definition PacUpdate :: "string \<Rightarrow> pac_server \<Rightarrow> pac_server" where
  "PacUpdate body s = s\<lparr>ps_body := body\<rparr>"

text \<open>\<open>bind_ok\<close>: the listener could be bound.\<close>

definition PacStart :: "bool \<Rightarrow> pac_server \<Rightarrow> bool \<times> pac_server" where
  "PacStart bind_ok s = (if bind_ok then (True, s\<lparr>ps_serving := True\<rparr>) else (False, s))"

definition PacShutdown :: "pac_server \<Rightarrow> pac_server" where
  "PacShutdown s = s\<lparr>ps_serving := False\<rparr>"

text \<open>The response to a request for the PAC file: its content type and body.\<close>

definition pac_response :: "pac_server \<Rightarrow> (string \<times> string) option" where
  "pac_response s =
     (if ps_serving s then Some (''application/x-ns-proxy-autoconfig'', ps_body s) else None)"

section \<open>The rules a PAC file encodes\<close>

datatype pac_test = ShExp string | InNet string string

type_synonym pac_rule = "pac_test \<times> string \<times> string"

definition route_rules :: "(string \<rightharpoonup> bool) \<Rightarrow> string \<Rightarrow> route \<Rightarrow> pac_rule list" where
  "route_rules proxyNeeded frontAddr r =
     (case r_SocksProxy r of
        None \<Rightarrow> []
      | Some sp \<Rightarrow>
          map (\<lambda>p. (ShExp p, proxyValue proxyNeeded frontAddr r sp, r_Name r)) (r_HostPatterns r) @
          map (\<lambda>(n, m). (InNet n m, proxyValue proxyNeeded frontAddr r sp, r_Name r))
            (List.map_filter cidrToNetmask (r_HostSubnets r)))"

definition pac_rules :: "route list \<Rightarrow> (string \<rightharpoonup> bool) \<Rightarrow> string \<Rightarrow> pac_rule list" where
  "pac_rules routes proxyNeeded frontAddr = concat (map (route_rules proxyNeeded frontAddr) routes)"

fun render_test :: "(nat \<Rightarrow> bool) \<Rightarrow> pac_test \<Rightarrow> string" where
  "render_test is_print (ShExp p) = ''shExpMatch(host, '' @ go_quote is_print p @ '')''"
| "render_test is_print (InNet n m) =
     ''isInNet(host, '' @ go_quote is_print n @ '', '' @ go_quote is_print m @ '')''"

definition render_rule :: "(nat \<Rightarrow> bool) \<Rightarrow> pac_rule \<Rightarrow> string" where
  "render_rule is_print = (\<lambda>(t, val, name).
     ''    if ('' @ render_test is_print t @ '') {'' @ nl @
     ''        return '' @ go_quote is_print val @ ''; // route: '' @ name @ nl @ ''    }'' @ nl)"

text \<open>What \<open>FindProxyForURL\<close> returns: the value of the first rule whose test holds.\<close>

fun test_holds :: "(string \<Rightarrow> string \<Rightarrow> bool) \<Rightarrow> (string \<Rightarrow> string \<Rightarrow> string \<Rightarrow> bool) \<Rightarrow> string \<Rightarrow> pac_test \<Rightarrow> bool"
where
  "test_holds shExpMatch isInNet host (ShExp p) = shExpMatch host p"
| "test_holds shExpMatch isInNet host (InNet n m) = isInNet host n m"

definition find_proxy ::
  "(string \<Rightarrow> string \<Rightarrow> bool) \<Rightarrow> (string \<Rightarrow> string \<Rightarrow> string \<Rightarrow> bool) \<Rightarrow> pac_rule list \<Rightarrow> string \<Rightarrow> string"
where
  "find_proxy shExpMatch isInNet rules host =
     (case find (\<lambda>(t, _). test_holds shExpMatch isInNet host t) rules of
        None \<Rightarrow> ''DIRECT''
      | Some (_, val, _) \<Rightarrow> val)"

lemma subnet_stmts_rules:
  "concat (map (subnet_stmt is_print val name) cs) =
     concat (map (render_rule is_print) (map (\<lambda>(n, m). (InNet n m, val, name)) (List.map_filter cidrToNetmask cs)))"
  by (induction cs)
     (auto simp: subnet_stmt_def render_rule_def return_stmt_def map_filter_simps split: option.splits)

lemma pattern_stmts_rules:
  "concat (map (pattern_stmt is_print val name) ps) =
     concat (map (render_rule is_print) (map (\<lambda>p. (ShExp p, val, name)) ps))"
  by (induction ps) (auto simp: pattern_stmt_def render_rule_def return_stmt_def)

lemma route_stmts_rules:
  "route_stmts is_print needed front r = concat (map (render_rule is_print) (route_rules needed front r))"
  unfolding route_stmts_def route_rules_def Let_def subnet_stmts_rules pattern_stmts_rules
  by (simp split: option.splits)

lemma Generate_rules:
  "Generate is_print routes needed front =
     pac_header @ concat (map (render_rule is_print) (pac_rules routes needed front)) @ pac_footer"
proof -
  have "concat (map (route_stmts is_print needed front) routes) =
      concat (map (render_rule is_print) (pac_rules routes needed front))"
    by (induction routes) (simp_all add: pac_rules_def route_stmts_rules)
  then show ?thesis by (simp add: Generate_def)
qed

section \<open>What the browser does with the rules\<close>

text \<open>
  The documented behaviour of the browser's functions, as hypotheses. \<open>shExpMatch\<close> is a glob match,
  letter for letter; \<open>isInNet\<close> looks the host up (\<open>resolve\<close>: the IPv4 address it finds, of a literal or
  by a query, if any) and compares it under the mask; it is false for a mask that is not a dotted quad,
  as that of an IPv6 subnet, which is written with colons.
\<close>

definition browser_contract ::
  "(string \<Rightarrow> string \<Rightarrow> bool) \<Rightarrow> (string \<Rightarrow> string \<Rightarrow> string \<Rightarrow> bool) \<Rightarrow> (string \<Rightarrow> 32 word option) \<Rightarrow> bool"
where
  "browser_contract shExpMatch isInNet resolve \<longleftrightarrow>
     (\<forall>h p. host_name h \<longrightarrow> simple_pattern p \<longrightarrow> shExpMatch h p = glob p h) \<and>
     (\<forall>h n m. length n = 4 \<longrightarrow> length m = 4 \<longrightarrow>
        isInNet h (string4 n) (string4 m) =
          (case resolve h of None \<Rightarrow> False | Some y \<Rightarrow> mask_bytes (be_bytes 4 y) m = n)) \<and>
     (\<forall>h n m. CHR '':'' \<in> set m \<longrightarrow> \<not> isInNet h n m)"

text \<open>
  What the rules of a route cover, for a browser: the patterns as they are written, and the IPv4
  subnets the address of the host lies in. The value of the first route that covers the host counts.
\<close>

definition pac_in_subnet :: "(string \<Rightarrow> 32 word option) \<Rightarrow> string \<Rightarrow> string \<Rightarrow> bool" where
  "pac_in_subnet resolve h s \<longleftrightarrow>
     (case (resolve h, parse_cidr s) of
        (Some y, Some n) \<Rightarrow> length (net_mask n) = 4 \<and> ipnet_contains n (be_bytes 16 (as16 (V4 y)))
      | _ \<Rightarrow> False)"

definition pac_covers :: "(string \<Rightarrow> 32 word option) \<Rightarrow> route \<Rightarrow> string \<Rightarrow> bool" where
  "pac_covers resolve r h \<longleftrightarrow>
     list_ex (\<lambda>p. glob p h) (r_HostPatterns r) \<or> list_ex (pac_in_subnet resolve h) (r_HostSubnets r)"

definition pac_spec ::
  "(string \<rightharpoonup> bool) \<Rightarrow> string \<Rightarrow> (string \<Rightarrow> 32 word option) \<Rightarrow> route list \<Rightarrow> string \<Rightarrow> string"
where
  "pac_spec needed front resolve routes h =
     (case find (\<lambda>r. r_SocksProxy r \<noteq> None \<and> pac_covers resolve r h) routes of
        None \<Rightarrow> ''DIRECT''
      | Some r \<Rightarrow> if needed (r_Name r) = Some True then ''SOCKS5 '' @ front @ ''; DIRECT'' else ''DIRECT'')"

lemma ip_string4: "length b = 4 \<Longrightarrow> ip_string b = string4 b"
  by (simp add: ip_string_def to4_def)

lemma string6_colon: "CHR '':'' \<in> set (string6 w)"
proof (cases "best_run (groups16 8 w)")
  case None
  have "\<exists>a b gs. groups16 8 w = a # b # gs" by (simp add: eval_nat_numeral)
  then obtain a b gs where gs: "groups16 8 w = a # b # gs" by blast
  with None show ?thesis by (simp add: string6_def Let_def)
next
  case (Some il)
  then show ?thesis by (cases il) (simp add: string6_def Let_def)
qed

lemma cidr_mask_zero: "cidr_mask 0 k = replicate k 0"
  by (induction k) simp_all

lemma cidr_mask16_not4: "to4 (cidr_mask n 16) = None"
proof -
  have c: "cidr_mask n 16 = (if 8 \<le> n then 255 # cidr_mask (n - 8) 15 else NOT (drop_bit n 255) # replicate 15 0)"
    using cidr_mask.simps(2) [of n 15] by (simp add: cidr_mask_zero)
  have "take 12 (cidr_mask n 16) \<noteq> replicate 10 0 @ [255, 255]"
  proof
    assume t: "take 12 (cidr_mask n 16) = replicate 10 0 @ [255, 255]"
    have nth: "cidr_mask n 16 ! i = (replicate 10 0 @ [255, 255]) ! i" if "i < 12" for i
      unfolding t [symmetric] using that by (rule nth_take [symmetric])
    have "cidr_mask n 16 ! 0 = 0" "cidr_mask n 16 ! 10 = 255" using nth [of 0] nth [of 10] by (simp_all add: nth_append)
    then show False unfolding c by (simp split: if_splits)
  qed
  then show ?thesis by (simp add: to4_def)
qed

lemma cidr_mask16_text: "CHR '':'' \<in> set (ip_string (cidr_mask n 16))"
  using string6_colon by (simp add: ip_string_def cidr_mask16_not4 with_zone_def)

lemma subnet_rule:
  assumes "browser_contract sh inNet resolve"
  shows "(case cidrToNetmask s of None \<Rightarrow> False | Some (n, m) \<Rightarrow> inNet h n m) \<longleftrightarrow> pac_in_subnet resolve h s"
proof (cases "parse_cidr s")
  case None
  then show ?thesis by (simp add: cidrToNetmask_def pac_in_subnet_def split: option.split)
next
  case (Some n)
  then obtain ip k where ip: "n = (let mask = cidr_mask k (bit_len ip div 8);
      base = (case ip of V4 w \<Rightarrow> be_bytes 4 w | V6 w z \<Rightarrow> be_bytes 16 w)
    in \<lparr>net_ip = mask_bytes base mask, net_mask = mask\<rparr>)"
    by (auto simp: parse_cidr_def Let_def split: option.splits if_splits prod.splits)
  show ?thesis
  proof (cases ip)
    case (V4 x)
    let ?m = "cidr_mask k 4"
    let ?n = "mask_bytes (be_bytes 4 x) ?m"
    have n: "n = \<lparr>net_ip = ?n, net_mask = ?m\<rparr>" using ip V4 by (simp add: Let_def)
    have len: "length ?n = 4" by (simp add: mask_bytes_def)
    then have texts: "cidrToNetmask s = Some (string4 ?n, string4 ?m)"
      using Some by (simp add: n cidrToNetmask_def ip_string4)
    have "ipnet_contains \<lparr>net_ip = ?n, net_mask = ?m\<rparr> (be_bytes 16 (as16 (V4 y))) \<longleftrightarrow>
        ?n = mask_bytes (be_bytes 4 y) ?m" for y
      by (rule ipnet_contains4) (simp_all only: length_be_bytes length_cidr_mask to4_mapped)
    then show ?thesis using assms len
      by (auto simp: texts browser_contract_def pac_in_subnet_def Some n split: option.split)
  next
    case (V6 w z)
    then have "net_mask n = cidr_mask k 16" using ip by (simp add: Let_def)
    moreover from this have "\<not> inNet h (ip_string (net_ip n)) (ip_string (net_mask n))"
      using assms cidr_mask16_text by (simp add: browser_contract_def)
    ultimately show ?thesis
      using Some by (simp add: cidrToNetmask_def pac_in_subnet_def length_cidr_mask split: option.split)
  qed
qed

lemma route_rules_find:
  assumes "browser_contract sh inNet resolve" "host_name h" "list_all simple_pattern (r_HostPatterns r)"
    and "r_SocksProxy r = Some sp"
  shows "list_ex (\<lambda>(t, _). test_holds sh inNet h t) (route_rules needed front r) \<longleftrightarrow> pac_covers resolve r h"
    and "list_all (\<lambda>(t, val, _). val = proxyValue needed front r sp) (route_rules needed front r)"
proof -
  have net: "list_ex (\<lambda>(t, _). test_holds sh inNet h t)
      (map (\<lambda>(n, m). (InNet n m, v, nm)) (List.map_filter cidrToNetmask cs)) \<longleftrightarrow>
      list_ex (pac_in_subnet resolve h) cs" for cs and v nm :: string
  proof (induction cs)
    case (Cons c cs)
    then show ?case using subnet_rule [OF assms(1), where s = c and h = h]
      by (cases "cidrToNetmask c") (auto simp: map_filter_simps)
  qed (simp add: map_filter_simps)
  have "list_ex (\<lambda>(t, _). test_holds sh inNet h t) (map (\<lambda>p. (ShExp p, v, nm)) (r_HostPatterns r)) \<longleftrightarrow>
      list_ex (\<lambda>p. glob p h) (r_HostPatterns r)" for v nm :: string
    using assms(1-3) by (auto simp: list_ex_iff list_all_iff browser_contract_def)
  with net show "list_ex (\<lambda>(t, _). test_holds sh inNet h t) (route_rules needed front r) \<longleftrightarrow> pac_covers resolve r h"
    by (simp only: route_rules_def assms(4) option.case list_ex_append pac_covers_def)
  show "list_all (\<lambda>(t, val, _). val = proxyValue needed front r sp) (route_rules needed front r)"
    using assms(4) by (auto simp: route_rules_def list_all_iff)
qed

lemma find_append: "find P (xs @ ys) = (case find P xs of None \<Rightarrow> find P ys | Some x \<Rightarrow> Some x)"
  by (induction xs) auto

lemma pac_rules_Cons: "pac_rules (r # rs) needed front = route_rules needed front r @ pac_rules rs needed front"
  by (simp add: pac_rules_def)

lemma find_proxy_rules:
  assumes "browser_contract sh inNet resolve" "host_name h" "front \<noteq> []"
    and "list_all (\<lambda>r. list_all simple_pattern (r_HostPatterns r)) routes"
  shows "find_proxy sh inNet (pac_rules routes needed front) h = pac_spec needed front resolve routes h"
  using assms(4)
proof (induction routes)
  case Nil
  show ?case by (simp add: find_proxy_def pac_rules_def pac_spec_def)
next
  case (Cons r rs)
  let ?P = "\<lambda>(t, _). test_holds sh inNet h t"
  have app: "find ?P (pac_rules (r # rs) needed front) =
      (case find ?P (route_rules needed front r) of None \<Rightarrow> find ?P (pac_rules rs needed front) | Some x \<Rightarrow> Some x)"
    by (simp only: pac_rules_Cons find_append)
  show ?case
  proof (cases "r_SocksProxy r")
    case None
    then have "route_rules needed front r = []" by (simp add: route_rules_def)
    with None Cons app show ?thesis by (simp add: find_proxy_def pac_spec_def)
  next
    case (Some sp)
    have "list_all simple_pattern (r_HostPatterns r)" using Cons.prems by simp
    note rr = route_rules_find [OF assms(1,2) this Some, of needed front]
    show ?thesis
    proof (cases "pac_covers resolve r h")
      case True
      then obtain t v n where f: "find ?P (route_rules needed front r) = Some (t, v, n)"
        using rr(1) by (cases "find ?P (route_rules needed front r)") (auto simp: find_None_iff list_ex_iff)
      then have "(t, v, n) \<in> set (route_rules needed front r)" by (metis find_Some_iff nth_mem)
      then have "v = proxyValue needed front r sp" using rr(2) by (auto simp: list_all_iff)
      with f app True Some assms(3) show ?thesis by (simp add: find_proxy_def pac_spec_def proxyValue_def)
    next
      case False
      then have "find ?P (route_rules needed front r) = None"
        using rr(1) by (auto simp: find_None_iff list_ex_iff)
      with app False Cons show ?thesis by (simp add: find_proxy_def pac_spec_def)
    qed
  qed
qed

section \<open>Where browser and routing table agree\<close>

text \<open>
  The browser and the routing table cover a host alike: for every route with a socks proxy, its rules
  match the host exactly if the table's route does (which drops case and one trailing dot, and never
  looks a name up).
\<close>

definition same_coverage :: "(string \<Rightarrow> 32 word option) \<Rightarrow> route list \<Rightarrow> string \<Rightarrow> bool" where
  "same_coverage resolve routes host \<longleftrightarrow>
     list_all (\<lambda>r. r_SocksProxy r \<noteq> None \<longrightarrow>
       (pac_covers resolve r host \<longleftrightarrow> covers r (trim_suffix (map lower_char host) ''.''))) routes"

lemma find_cong_set: "(\<And>x. x \<in> set xs \<Longrightarrow> P x = Q x) \<Longrightarrow> find P xs = find Q xs"
  by (induction xs) auto

lemma pac_spec_agrees:
  assumes "same_coverage resolve routes host" "list_all (\<lambda>r. needed (r_Name r) \<noteq> None) routes"
  shows "pac_spec needed front resolve routes host =
    (if d_Upstream (routing_spec needed routes (trim_suffix (map lower_char host) ''.'')) = [] then ''DIRECT''
     else ''SOCKS5 '' @ front @ ''; DIRECT'')"
proof -
  let ?h = "trim_suffix (map lower_char host) ''.''"
  let ?P = "\<lambda>r. r_SocksProxy r \<noteq> None \<and> covers r ?h"
  have same: "find (\<lambda>r. r_SocksProxy r \<noteq> None \<and> pac_covers resolve r host) routes = find ?P routes"
    using assms(1) by (intro find_cong_set) (auto simp: same_coverage_def list_all_iff)
  show ?thesis
  proof (cases "find ?P routes")
    case None
    then show ?thesis by (simp only: pac_spec_def same) (simp add: routing_spec_def)
  next
    case (Some r)
    then have r: "r \<in> set routes \<and> r_SocksProxy r \<noteq> None"
      unfolding find_Some_iff by (elim exE conjE) (simp add: nth_mem)
    then obtain sp b where sp: "r_SocksProxy r = Some sp" and b: "needed (r_Name r) = Some b"
      using assms(2) by (auto simp: list_all_iff)
    show ?thesis
      by (simp only: pac_spec_def same Some routing_spec_def option.case decision.simps sp b)
        (cases b; simp add: upstream_addr_def)
  qed
qed

text \<open>
  When that is so: lower-case patterns, canonical IPv4 subnets, a host as browsers pass it, lower case
  without a trailing dot, and a lookup that returns a literal IPv4 address as it is, finds none for an
  IPv6 literal, and finds no address inside a subnet for a name.
\<close>

definition lower_case_pattern :: "string \<Rightarrow> bool" where
  "lower_case_pattern p \<longleftrightarrow> plain_pattern p \<and> map lower_char p = p"

definition ipv4_subnet :: "string \<Rightarrow> bool" where
  "ipv4_subnet s \<longleftrightarrow> (case parse_prefix s of Some p \<Rightarrow> (case pfx_addr p of V4 x \<Rightarrow> True | V6 w z \<Rightarrow> False) | None \<Rightarrow> False)"

definition plain_route :: "route \<Rightarrow> bool" where
  "plain_route r \<longleftrightarrow> list_all lower_case_pattern (r_HostPatterns r) \<and> list_all ipv4_subnet (r_HostSubnets r)"

definition looked_up :: "(string \<Rightarrow> 32 word option) \<Rightarrow> route list \<Rightarrow> string \<Rightarrow> bool" where
  "looked_up resolve routes h \<longleftrightarrow>
     (case parse_addr h of
        Some (V4 y) \<Rightarrow> resolve h = Some y
      | Some (V6 w z) \<Rightarrow> resolve h = None \<and> \<not> is4in6 w
      | None \<Rightarrow> list_all (\<lambda>r. \<not> list_ex (pac_in_subnet resolve h) (r_HostSubnets r)) routes)"

lemma pac_in_subnet4:
  assumes "parse_prefix s = Some p" "pfx_addr p = V4 x" "resolve h = Some y"
  shows "pac_in_subnet resolve h s \<longleftrightarrow> prefix_contains (masked p) (V4 y)"
  using parse_cidr_prefix4 [OF assms(1,2)] ipnet_contains_prefix4 [of "pfx_bits p" x y]
    masked_contains4 [OF assms(2), of y] assms(3)
  by (simp add: pac_in_subnet_def length_cidr_mask del: prefix_contains.simps as16.simps cidr_mask.simps)

lemma subnet_agrees:
  assumes "looked_up resolve routes h" "r \<in> set routes" "s \<in> set (r_HostSubnets r)" "ipv4_subnet s"
  shows "pac_in_subnet resolve h s \<longleftrightarrow> in_subnet h s"
proof -
  obtain p x where p: "parse_prefix s = Some p" "pfx_addr p = V4 x"
    using assms(4) by (auto simp: ipv4_subnet_def split: option.splits addr.splits)
  show ?thesis
  proof (cases "parse_addr h")
    case None
    with assms(1-3) show ?thesis by (auto simp: looked_up_def in_subnet_def list_all_iff list_ex_iff)
  next
    case (Some a)
    show ?thesis
    proof (cases a)
      case (V4 y)
      with Some assms(1) have "resolve h = Some y" by (simp add: looked_up_def)
      from pac_in_subnet4 [of s p x resolve h y, OF p this] show ?thesis
        by (simp only: in_subnet_def Some V4 p option.case prod.case unmap.simps)
    next
      case (V6 w z)
      with Some assms(1) have "resolve h = None" "\<not> is4in6 w" by (simp_all add: looked_up_def)
      then show ?thesis
        by (simp add: pac_in_subnet_def in_subnet_def Some V6 p masked_def)
    qed
  qed
qed

lemma same_coverage_plain:
  assumes "list_all plain_route routes" "looked_up resolve routes host"
    and "map lower_char host = host" "\<not> has_suffix host ''.''"
  shows "same_coverage resolve routes host"
proof -
  have h: "trim_suffix (map lower_char host) ''.'' = host" using assms(3,4) by (simp add: trim_suffix_def)
  have "pac_covers resolve r host \<longleftrightarrow> covers r host" if r: "r \<in> set routes" for r
  proof -
    from assms(1) r have "list_all lower_case_pattern (r_HostPatterns r)" "list_all ipv4_subnet (r_HostSubnets r)"
      by (auto simp: list_all_iff plain_route_def)
    then have "list_ex (\<lambda>p. glob p host) (r_HostPatterns r) \<longleftrightarrow> list_ex (\<lambda>p. glob (map lower_char p) host) (r_HostPatterns r)"
      "list_ex (pac_in_subnet resolve host) (r_HostSubnets r) \<longleftrightarrow> list_ex (in_subnet host) (r_HostSubnets r)"
      using subnet_agrees [OF assms(2) r] by (auto simp: list_ex_iff list_all_iff lower_case_pattern_def)
    then show ?thesis by (simp only: pac_covers_def covers_def)
  qed
  then show ?thesis by (simp only: same_coverage_def h list_all_iff) blast
qed

section \<open>Quoted literals\<close>

text \<open>
  How a quoted literal of printable ASCII is read: up to the next quote, a backslash keeps the
  character after it.
\<close>

fun read_quoted :: "string \<Rightarrow> (string \<times> string) option" where
  "read_quoted [] = None"
| "read_quoted (c # s) =
     (if c = dquote then Some ([], s)
      else if c = backslash then
        (case s of [] \<Rightarrow> None | d # s \<Rightarrow> map_option (\<lambda>(lit, rest). (d # lit, rest)) (read_quoted s))
      else map_option (\<lambda>(lit, rest). (c # lit, rest)) (read_quoted s))"

definition printable :: "string \<Rightarrow> bool" where
  "printable s \<longleftrightarrow> list_all (\<lambda>c. 32 \<le> code c \<and> code c < (127 :: nat)) s"

lemma read_quoted_quote_runes:
  "printable s \<Longrightarrow> read_quoted (quote_runes is_print s @ dquote # rest) = Some (s, rest)"
proof (induction s)
  case (Cons c s)
  then have c: "32 \<le> code c" "code c < (127 :: nat)" and s: "printable s" by (auto simp: printable_def)
  have q: "quote_runes is_print (c # s) =
      (if c = dquote \<or> c = backslash then [backslash, c] else [c]) @ quote_runes is_print s"
    using c code_eq_iff [of c "CHR 0x22"] code_eq_iff [of c "CHR 0x5C"]
    by (auto simp: quote_rune_def rune_error_def dquote_def backslash_def)
  have "dquote \<noteq> backslash" by (simp add: dquote_def backslash_def)
  then show ?case unfolding q using Cons.IH [OF s] by auto
qed simp

section \<open>Properties\<close>

text \<open>
  The text \<open>Generate\<close> renders is the header, one \<open>if\<close> statement per rule of
  \<open>pac_rules\<close> in their order, and a final \<open>DIRECT\<close>; and a literal of printable ASCII in it is
  read back as the pattern it was rendered from, whatever quotes and backslashes that holds, with
  nothing of it left over.
\<close>

theorem generate_renders_rules:
  "Generate is_print routes needed front =
     pac_header @ concat (map (render_rule is_print) (pac_rules routes needed front)) @ pac_footer \<and>
   (printable s \<longrightarrow> read_quoted (tl (go_quote is_print s) @ rest) = Some (s, rest))"
  using Generate_rules read_quoted_quote_runes [of s is_print rest] by (simp add: go_quote_def)

theorem generate_renders_rules_witness:
  "read_quoted (tl (go_quote (\<lambda>_. False) ''*.lan'') @ ''))'') = Some (''*.lan'', ''))'')"
  using generate_renders_rules [of "\<lambda>_. False" "[]" "\<lambda>_. None" "[]" "''*.lan''" "''))''"]
  by (simp add: printable_def)

text \<open>A browser for the witnesses: it reads the two texts back and compares under the mask.\<close>

definition ref_isInNet :: "(string \<Rightarrow> 32 word option) \<Rightarrow> string \<Rightarrow> string \<Rightarrow> string \<Rightarrow> bool" where
  "ref_isInNet resolve h n m =
     (case (resolve h, parse_ipv4_fields 0 0 [] n, parse_ipv4_fields 0 0 [] m) of
        (Some y, Some nb, Some mb) \<Rightarrow> mask_bytes (be_bytes 4 y) mb = nb
      | _ \<Rightarrow> False)"

definition ref_resolve :: "string \<Rightarrow> 32 word option" where
  "ref_resolve h = (case parse_addr h of Some (V4 y) \<Rightarrow> Some y | _ \<Rightarrow> None)"

lemma ref_browser: "browser_contract (\<lambda>h p. glob p h) (ref_isInNet resolve) resolve"
proof -
  have "parse_ipv4_fields 0 0 [] m = None" if "CHR '':'' \<in> set m" for m
    using parse_ipv4_fields_chars [of 0 0 "[]" m _ "CHR '':''"] that
    by (cases "parse_ipv4_fields 0 0 [] m") (auto simp: is_digit_def)
  then show ?thesis
    by (auto simp: browser_contract_def ref_isInNet_def parse_ipv4_string4 split: option.splits)
qed

definition lan_route :: route where
  "lan_route = wiki_route\<lparr>r_HostPatterns := [''*.lan''], r_HostSubnets := []\<rparr>"

lemma wiki_lan:
  "looked_up ref_resolve routes ''wiki.lan''" "host_name ''wiki.lan''"
  "map lower_char ''wiki.lan'' = ''wiki.lan''" "\<not> has_suffix ''wiki.lan'' ''.''"
proof -
  have "parse_addr ''wiki.lan'' = None" by code_simp
  then show "looked_up ref_resolve routes ''wiki.lan''"
    by (simp add: looked_up_def ref_resolve_def pac_in_subnet_def list_ex_iff list_all_iff)
qed (simp_all add: host_name_def is_ascii_def lower_char_def has_suffix_def)

lemma plain_lan_route: "list_all plain_route [lan_route]"
  by (simp add: lan_route_def wiki_route_def plain_route_def lower_case_pattern_def plain_pattern_def
      is_ascii_def simple_pattern_def lower_char_def)

text \<open>
  The file does not always mirror the decision of the routing table. A name that resolves to an address
  inside a subnet of a route that needs its jump host is sent to the front door, which never looks a
  name up and dials it directly; and a pattern with a capital letter, which the table matches in any
  case, matches no host a browser passes, so the browser goes direct to a host the table tunnels.
\<close>

definition db_resolve :: "string \<Rightarrow> 32 word option" where
  "db_resolve h = (if h = ''db'' then Some 0x0A140304 else None)"

theorem pac_and_table_can_differ:
  "find_proxy (\<lambda>h p. glob p h) (ref_isInNet db_resolve)
      (pac_rules [wiki_route] [''home'' \<mapsto> True] ''127.0.0.1:8851'') ''db'' = ''SOCKS5 127.0.0.1:8851; DIRECT'' \<and>
   d_Upstream (Decide id (Update [''home'' \<mapsto> True] (NewTable id [wiki_route])) ''db'') = [] \<and>
   find_proxy (\<lambda>h p. glob p h) (ref_isInNet db_resolve)
      (pac_rules [wiki_route] [''home'' \<mapsto> True] ''127.0.0.1:8851'') ''wiki.lan'' = ''DIRECT'' \<and>
   d_Upstream (Decide id (Update [''home'' \<mapsto> True] (NewTable id [wiki_route])) ''wiki.lan'') = ''127.0.0.1:1080''"
proof -
  have pats: "list_all (\<lambda>r. list_all simple_pattern (r_HostPatterns r)) [wiki_route]"
    by (simp add: wiki_route_def simple_pattern_def)
  have hosts: "host_name ''db''" "host_name ''wiki.lan''" by (simp_all add: host_name_def is_ascii_def)
  have front: "''127.0.0.1:8851'' \<noteq> []" by simp
  note rules = find_proxy_rules [OF ref_browser _ front pats]
  have "parse_prefix ''10.20.0.0/21'' = Some \<lparr>pfx_addr = V4 0x0A140000, pfx_bits = 21\<rparr>" by code_simp
  from pac_in_subnet4 [OF this, of "0x0A140000" db_resolve "''db''" "0x0A140304"]
  have "pac_in_subnet db_resolve ''db'' ''10.20.0.0/21''"
    by (simp add: db_resolve_def masked_def)
  then have "pac_covers db_resolve wiki_route ''db''" by (simp add: pac_covers_def wiki_route_def)
  moreover have "\<not> glob ''*.Lan'' ''wiki.lan''" by code_simp
  then have "\<not> pac_covers db_resolve wiki_route ''wiki.lan''"
    by (simp add: pac_covers_def wiki_route_def pac_in_subnet_def db_resolve_def)
  moreover have "table_match id (NewTable id [wiki_route]) ''db'' = None" by code_simp
  moreover have "table_match id (NewTable id [wiki_route]) ''wiki.lan'' = Some (''home'', ''127.0.0.1:1080'')"
    by code_simp
  moreover have "r_SocksProxy wiki_route \<noteq> None" "r_Name wiki_route = ''home''" by (simp_all add: wiki_route_def)
  moreover have "table_match id (Update n t) h = table_match id t h" "t_proxyNeeded (Update n t) = n" for n t h
    by (simp_all add: table_match_def Update_def)
  ultimately show ?thesis
    unfolding rules [OF hosts(1)] rules [OF hosts(2)]
    by (simp add: pac_spec_def Decide_def)
qed

definition two_line_route :: "string \<Rightarrow> route" where
  "two_line_route code_line = lan_route\<lparr>r_Name := ''home'' @ nl @ code_line\<rparr>"

text \<open>
  A route name is written into a line comment as it is, and \<open>Validate\<close> accepts any
  non-empty name: a name with a line break ends the comment, and what follows it becomes a line of
  the script of its own.
\<close>

theorem route_name_escapes_comment:
  "valid_config (Default\<lparr>c_Routes := [two_line_route ''alert()'']\<rparr>) \<and>
   (\<exists>pre post. Generate is_print [two_line_route ''alert()''] needed front =
      pre @ nl @ ''alert()'' @ nl @ post)"
proof
  show "valid_config (Default\<lparr>c_Routes := [two_line_route ''alert()'']\<rparr>)"
    by (simp add: valid_config_def Default_def two_line_route_def lan_route_def wiki_route_def listeners_def
        socks_listener_def pac_listener_def proxy_listener_def)
  let ?r = "two_line_route ''alert()''"
  let ?v = "proxyValue needed front ?r \<lparr>sp_Active = False, sp_Bind = ''127.0.0.1'', sp_Port = 1080\<rparr>"
  have "Generate is_print [?r] needed front =
      (pac_header @ ''    if (shExpMatch(host, '' @ go_quote is_print ''*.lan'' @ '')) {'' @ nl @
        ''        return '' @ go_quote is_print ?v @ ''; // route: '' @ ''home'') @ nl @ ''alert()'' @ nl @
      (''    }'' @ nl @ pac_footer)"
    by (simp add: Generate_def route_stmts_def two_line_route_def lan_route_def wiki_route_def
        pattern_stmt_def return_stmt_def Let_def del: quote_runes.simps)
  then show "\<exists>pre post. Generate is_print [?r] needed front = pre @ nl @ ''alert()'' @ nl @ post" by blast
qed

end
