(* ===== verification/Socks.thy ===== *)
theory Socks
  imports NetIP
begin

text \<open>
  \<open>internal/proxy/socks.go\<close>: both sides of the SOCKS5 handshake, byte by byte. A connection is
  what the peer will still send, what has been written to it, and how many more bytes it takes
  before a write fails; a read past the end of the input fails (the peer closed, or the
  deadline passed). Reads and writes are functions on that state with an error result.
\<close>

section \<open>Connections\<close>

record conn =
  c_in :: "byte list"
  c_out :: "byte list"
  c_room :: nat

text \<open>
  The errors the code tells apart: the ones of its own, the end of a stream, the errors of
  \<open>net\<close> and \<open>syscall\<close>, and errors that wrap another one (\<open>%w\<close>, \<open>net.OpError\<close> with the answer of
  its \<open>Timeout\<close>, \<open>socksError\<close> with its reply code).
\<close>

datatype go_error =
    Plain
  | EndOfStream
  | WriteFailed
  | ConnRefused
  | DNSError
  | OpError bool go_error
  | Wrapped go_error
  | SocksError byte go_error

type_synonym 'a conn_io = "conn \<Rightarrow> (go_error + 'a) \<times> conn"

definition io_return :: "'a \<Rightarrow> 'a conn_io" where
  "io_return x c = (Inr x, c)"

definition io_fail :: "go_error \<Rightarrow> 'a conn_io" where
  "io_fail e c = (Inl e, c)"

definition io_bind :: "'a conn_io \<Rightarrow> ('a \<Rightarrow> 'b conn_io) \<Rightarrow> 'b conn_io" where
  "io_bind m f c = (case m c of (Inl e, c') \<Rightarrow> (Inl e, c') | (Inr x, c') \<Rightarrow> f x c')"

text \<open>\<open>fmt.Errorf\<close> around the error of a call.\<close>

definition io_wrap :: "(go_error \<Rightarrow> go_error) \<Rightarrow> 'a conn_io \<Rightarrow> 'a conn_io" where
  "io_wrap g m c = (case m c of (Inl e, c') \<Rightarrow> (Inl (g e), c') | (Inr x, c') \<Rightarrow> (Inr x, c'))"

definition read_full :: "nat \<Rightarrow> byte list conn_io" where
  "read_full n c =
     (if n \<le> length (c_in c) then (Inr (take n (c_in c)), c\<lparr>c_in := drop n (c_in c)\<rparr>)
      else (Inl EndOfStream, c\<lparr>c_in := []\<rparr>))"

definition write_all :: "byte list \<Rightarrow> unit conn_io" where
  "write_all bs c =
     (if length bs \<le> c_room c
      then (Inr (), c\<lparr>c_out := c_out c @ bs, c_room := c_room c - length bs\<rparr>)
      else (Inl WriteFailed, c\<lparr>c_out := c_out c @ take (c_room c) bs, c_room := 0\<rparr>))"

text \<open>A write whose error is discarded.\<close>

definition write_ignore :: "byte list \<Rightarrow> conn \<Rightarrow> conn" where
  "write_ignore bs c = snd (write_all bs c)"

section \<open>Constants and reply codes\<close>

abbreviation (input) socksVersion :: byte where "socksVersion \<equiv> 5"
abbreviation (input) methodNoAuth :: byte where "methodNoAuth \<equiv> 0"
abbreviation (input) methodNoAcceptable :: byte where "methodNoAcceptable \<equiv> 0xFF"
abbreviation (input) cmdConnect :: byte where "cmdConnect \<equiv> 1"
abbreviation (input) atypIPv4 :: byte where "atypIPv4 \<equiv> 1"
abbreviation (input) atypDomain :: byte where "atypDomain \<equiv> 3"
abbreviation (input) atypIPv6 :: byte where "atypIPv6 \<equiv> 4"
abbreviation (input) repSucceeded :: byte where "repSucceeded \<equiv> 0"
abbreviation (input) repGeneralFailure :: byte where "repGeneralFailure \<equiv> 1"
abbreviation (input) repHostUnreachable :: byte where "repHostUnreachable \<equiv> 4"
abbreviation (input) repConnectionRefused :: byte where "repConnectionRefused \<equiv> 5"
abbreviation (input) repCommandNotSupported :: byte where "repCommandNotSupported \<equiv> 7"
abbreviation (input) repAddrNotSupported :: byte where "repAddrNotSupported \<equiv> 8"

text \<open>\<open>errors.As\<close> and \<open>errors.Is\<close>: the first error of the wanted type along the chain.\<close>

fun as_socks_error :: "go_error \<Rightarrow> byte option" where
  "as_socks_error (SocksError rc e) = Some rc"
| "as_socks_error (OpError t e) = as_socks_error e"
| "as_socks_error (Wrapped e) = as_socks_error e"
| "as_socks_error _ = None"

fun as_dns_error :: "go_error \<Rightarrow> bool" where
  "as_dns_error DNSError = True"
| "as_dns_error (OpError t e) = as_dns_error e"
| "as_dns_error (Wrapped e) = as_dns_error e"
| "as_dns_error (SocksError rc e) = as_dns_error e"
| "as_dns_error _ = False"

fun as_op_error :: "go_error \<Rightarrow> bool option" where
  "as_op_error (OpError timeout e) = Some timeout"
| "as_op_error (Wrapped e) = as_op_error e"
| "as_op_error (SocksError rc e) = as_op_error e"
| "as_op_error _ = None"

fun is_refused :: "go_error \<Rightarrow> bool" where
  "is_refused ConnRefused = True"
| "is_refused (OpError t e) = is_refused e"
| "is_refused (Wrapped e) = is_refused e"
| "is_refused (SocksError rc e) = is_refused e"
| "is_refused _ = False"

definition replyCode :: "go_error \<Rightarrow> byte" where
  "replyCode err =
     (case as_socks_error err of
        Some rc \<Rightarrow> rc
      | None \<Rightarrow>
          if as_dns_error err then repHostUnreachable
          else (case as_op_error err of
              Some timeout \<Rightarrow>
                if timeout then repHostUnreachable
                else if is_refused err then repConnectionRefused
                else repGeneralFailure
            | None \<Rightarrow> repGeneralFailure))"

section \<open>The server side\<close>

definition socks_reply :: "byte \<Rightarrow> byte list" where
  "socks_reply rc = [socksVersion, rc, 0, atypIPv4, 0, 0, 0, 0, 0, 0]"

definition writeSocksReply :: "byte \<Rightarrow> conn \<Rightarrow> conn" where
  "writeSocksReply rc = write_ignore (socks_reply rc)"

definition addr_text :: "byte list \<Rightarrow> string" where
  "addr_text bs = (case addr_from_slice bs of Some a \<Rightarrow> addr_string a | None \<Rightarrow> ''invalid IP'')"

definition readAddr :: "byte \<Rightarrow> string conn_io" where
  "readAddr atyp =
     (if atyp = atypIPv4 \<or> atyp = atypIPv6 then
        io_bind (read_full (if atyp = atypIPv6 then 16 else 4)) (\<lambda>buf. io_return (addr_text buf))
      else if atyp = atypDomain then
        io_bind (read_full 1) (\<lambda>n.
        io_bind (read_full (unat (hd n))) (\<lambda>buf. io_return (string_of_bytes buf)))
      else io_fail Plain)"

definition be16 :: "byte list \<Rightarrow> nat" where
  "be16 bs = 256 * unat (bs ! 0) + unat (bs ! 1)"

text \<open>\<open>readSocksRequest\<close>: the request after the method has been agreed on, then the whole.\<close>

definition readConnect :: "(string \<times> nat) conn_io" where
  "readConnect =
     io_bind (read_full 4) (\<lambda>req.
     if req ! 0 \<noteq> socksVersion then io_fail Plain
     else (\<lambda>c. case readAddr (req ! 3) c of
         (Inl e, c') \<Rightarrow> (Inl e, writeSocksReply repAddrNotSupported c')
       | (Inr host, c') \<Rightarrow>
           io_bind (read_full 2) (\<lambda>portBuf.
           if req ! 1 \<noteq> cmdConnect
           then (\<lambda>c. (Inl Plain, writeSocksReply repCommandNotSupported c))
           else io_return (host, be16 portBuf)) c'))"

definition readSocksRequest :: "(string \<times> nat) conn_io" where
  "readSocksRequest =
     io_bind (read_full 2) (\<lambda>hdr.
     if hdr ! 0 \<noteq> socksVersion then io_fail Plain
     else io_bind (read_full (unat (hdr ! 1))) (\<lambda>methods.
     if methodNoAuth \<notin> set methods
     then (\<lambda>c. (Inl Plain, write_ignore [socksVersion, methodNoAcceptable] c))
     else io_bind (write_all [socksVersion, methodNoAuth]) (\<lambda>_. readConnect)))"

section \<open>The client side\<close>

text \<open>\<open>AppendUint16(req, uint16(port))\<close>: the port modulo \<open>2^16\<close>.\<close>

definition port_bytes :: "int \<Rightarrow> byte list" where
  "port_bytes port = be_bytes 2 (word_of_int port :: 16 word)"

definition connect_request :: "string \<Rightarrow> int \<Rightarrow> go_error + byte list" where
  "connect_request host port =
     andthen
       (case parse_addr host of
          Some addr \<Rightarrow>
            Inr ((case addr of V4 _ \<Rightarrow> [atypIPv4] | V6 _ _ \<Rightarrow> [atypIPv6]) @ as_slice addr)
        | None \<Rightarrow>
            if length host > 255 then Inl (SocksError repAddrNotSupported Plain)
            else Inr ([atypDomain, of_nat (length host)] @ bytes_of_string host))
       (\<lambda>dst. Inr ([socksVersion, cmdConnect, 0] @ dst @ port_bytes port))"

definition socksConnect :: "string \<Rightarrow> int \<Rightarrow> unit conn_io" where
  "socksConnect host port =
     io_bind (write_all [socksVersion, 1, methodNoAuth]) (\<lambda>_.
     io_bind (io_wrap Wrapped (read_full 2)) (\<lambda>resp.
     if resp ! 0 \<noteq> socksVersion \<or> resp ! 1 \<noteq> methodNoAuth then io_fail Plain
     else (case connect_request host port of
         Inl e \<Rightarrow> io_fail e
       | Inr req \<Rightarrow>
           io_bind (write_all req) (\<lambda>_.
           io_bind (io_wrap Wrapped (read_full 4)) (\<lambda>reply.
           if reply ! 1 \<noteq> repSucceeded then io_fail (SocksError (reply ! 1) Plain)
           else io_bind (io_wrap Wrapped (readAddr (reply ! 3))) (\<lambda>_.
                io_bind (read_full 2) (\<lambda>_. io_return ())))))))"

section \<open>What the steps do\<close>

lemma io_bind_Inr [go_result]:
  "io_bind m f c = (Inr y, c'') \<longleftrightarrow> (\<exists>x c'. m c = (Inr x, c') \<and> f x c' = (Inr y, c''))"
  by (auto simp: io_bind_def split: prod.splits sum.splits)

lemma io_wrap_Inr [go_result]: "io_wrap g m c = (Inr y, c') \<longleftrightarrow> m c = (Inr y, c')"
  by (auto simp: io_wrap_def split: prod.splits sum.splits)

lemma io_return_Inr [go_result]: "io_return x c = (Inr y, c') \<longleftrightarrow> y = x \<and> c' = c"
  by (auto simp: io_return_def)

lemma io_fail_Inr [go_result]: "io_fail e c \<noteq> (Inr y, c')"
  by (simp add: io_fail_def)

lemma read_full_Inr [go_result]:
  "read_full n c = (Inr bs, c') \<longleftrightarrow> (\<exists>rest. c_in c = bs @ rest \<and> length bs = n \<and> c' = c\<lparr>c_in := rest\<rparr>)"
proof
  assume "read_full n c = (Inr bs, c')"
  then have "n \<le> length (c_in c)" "bs = take n (c_in c)" "c' = c\<lparr>c_in := drop n (c_in c)\<rparr>"
    by (auto simp: read_full_def split: if_splits)
  then show "\<exists>rest. c_in c = bs @ rest \<and> length bs = n \<and> c' = c\<lparr>c_in := rest\<rparr>"
    by (intro exI [of _ "drop n (c_in c)"]) simp
qed (auto simp: read_full_def)

lemma write_all_Inr [go_result]:
  "write_all bs c = (Inr u, c') \<longleftrightarrow>
     length bs \<le> c_room c \<and> c' = c\<lparr>c_out := c_out c @ bs, c_room := c_room c - length bs\<rparr>"
  by (auto simp: write_all_def)

lemma io_bind_step: "m c = (Inr x, c1) \<Longrightarrow> io_bind m f c = f x c1"
  by (simp add: io_bind_def)

lemma read_full_step:
  "c_in c = bs @ rest \<Longrightarrow> length bs = n \<Longrightarrow> io_bind (read_full n) f c = f bs (c\<lparr>c_in := rest\<rparr>)"
  by (rule io_bind_step) (auto simp: read_full_Inr)

text \<open>The address field of a request or reply and the host it names.\<close>

definition addr_field :: "byte \<Rightarrow> byte list \<Rightarrow> string \<Rightarrow> bool" where
  "addr_field atyp bs host \<longleftrightarrow>
     (if atyp = atypIPv4 then length bs = 4 \<and> host = addr_text bs
      else if atyp = atypIPv6 then length bs = 16 \<and> host = addr_text bs
      else atyp = atypDomain \<and> bs \<noteq> [] \<and> length (tl bs) = unat (hd bs) \<and> host = string_of_bytes (tl bs))"

lemma readAddr_Inr:
  "readAddr atyp c = (Inr host, c') \<longleftrightarrow>
     (\<exists>bs rest. c_in c = bs @ rest \<and> addr_field atyp bs host \<and> c' = c\<lparr>c_in := rest\<rparr>)"
proof (cases "atyp = atypIPv4 \<or> atyp = atypIPv6")
  case True
  then show ?thesis by (auto simp: readAddr_def addr_field_def go_result)
next
  case ip: False
  show ?thesis
  proof (cases "atyp = atypDomain")
    case True
    show ?thesis
    proof
      assume "readAddr atyp c = (Inr host, c')"
      then obtain n t rest where "c_in c = n # t @ rest" "length t = unat n" "host = string_of_bytes t"
        "c' = c\<lparr>c_in := rest\<rparr>"
        using True by (auto simp: readAddr_def io_bind_Inr read_full_Inr io_return_Inr length_Suc_conv)
      then show "\<exists>bs rest. c_in c = bs @ rest \<and> addr_field atyp bs host \<and> c' = c\<lparr>c_in := rest\<rparr>"
        using True by (intro exI [of _ "n # t"] exI [of _ rest]) (simp add: addr_field_def)
    next
      assume "\<exists>bs rest. c_in c = bs @ rest \<and> addr_field atyp bs host \<and> c' = c\<lparr>c_in := rest\<rparr>"
      then obtain n t rest where "c_in c = [n] @ t @ rest" "length t = unat n" "host = string_of_bytes t"
        "c' = c\<lparr>c_in := rest\<rparr>"
        using True by (auto simp: addr_field_def neq_Nil_conv)
      then show "readAddr atyp c = (Inr host, c')"
        using True by (simp add: readAddr_def read_full_step [where bs = "[n]" and rest = "t @ rest"]
            read_full_step [where bs = t and rest = rest] io_return_def)
    qed
  qed (use ip in \<open>simp add: readAddr_def addr_field_def io_fail_def\<close>)
qed

lemma length4: "length xs = 4 \<longleftrightarrow> (\<exists>a b c d. xs = [a, b, c, d])"
  by (auto simp: length_Suc_conv eval_nat_numeral)

lemma length2: "length xs = 2 \<longleftrightarrow> (\<exists>a b. xs = [a, b])"
  by (auto simp: length_Suc_conv eval_nat_numeral)

lemma readConnect_Inr:
  "readConnect c = (Inr (host, port), c') \<longleftrightarrow>
     (\<exists>rsv atyp dst pb rest.
        c_in c = [socksVersion, cmdConnect, rsv, atyp] @ dst @ pb @ rest \<and>
        addr_field atyp dst host \<and> length pb = 2 \<and> port = be16 pb \<and> c' = c\<lparr>c_in := rest\<rparr>)"
  (is "?L \<longleftrightarrow> ?R")
proof
  assume ?L
  then obtain req rest1 where req: "c_in c = req @ rest1" "length req = 4" "req ! 0 = socksVersion"
    and k: "(case readAddr (req ! 3) (c\<lparr>c_in := rest1\<rparr>) of
         (Inl e, c') \<Rightarrow> (Inl e, writeSocksReply repAddrNotSupported c')
       | (Inr host, c') \<Rightarrow>
           io_bind (read_full 2) (\<lambda>portBuf.
           if req ! 1 \<noteq> cmdConnect
           then (\<lambda>c. (Inl Plain, writeSocksReply repCommandNotSupported c))
           else io_return (host, be16 portBuf)) c') = (Inr (host, port), c')"
    by (auto simp: readConnect_def io_bind_Inr read_full_Inr io_fail_Inr split: if_splits)
  from k obtain h c1 where a: "readAddr (req ! 3) (c\<lparr>c_in := rest1\<rparr>) = (Inr h, c1)"
    and p: "io_bind (read_full 2) (\<lambda>portBuf.
           if req ! 1 \<noteq> cmdConnect
           then (\<lambda>c. (Inl Plain, writeSocksReply repCommandNotSupported c))
           else io_return (h, be16 portBuf)) c1 = (Inr (host, port), c')"
    by (auto split: prod.splits sum.splits)
  from a obtain dst rest2 where dst: "rest1 = dst @ rest2" "addr_field (req ! 3) dst h" "c1 = c\<lparr>c_in := rest2\<rparr>"
    by (auto simp: readAddr_Inr)
  from p dst(3) obtain pb rest where "rest2 = pb @ rest" "length pb = 2" "req ! 1 = cmdConnect"
    "host = h" "port = be16 pb" "c' = c\<lparr>c_in := rest\<rparr>"
    by (auto simp: io_bind_Inr read_full_Inr io_return_Inr split: if_splits)
  moreover obtain a b d e where "req = [a, b, d, e]" using req(2) by (auto simp: length4)
  ultimately show ?R using req dst by auto
next
  assume ?R
  then obtain rsv atyp dst pb rest where
    r: "c_in c = [socksVersion, cmdConnect, rsv, atyp] @ dst @ pb @ rest" "addr_field atyp dst host"
      "length pb = 2" "port = be16 pb" "c' = c\<lparr>c_in := rest\<rparr>" by blast
  have "readAddr atyp (c\<lparr>c_in := dst @ pb @ rest\<rparr>) = (Inr host, c\<lparr>c_in := pb @ rest\<rparr>)"
    using r(2) by (auto simp: readAddr_Inr)
  then show ?L unfolding readConnect_def
    using r(3,4,5) by (subst read_full_step [OF r(1)])
      (simp_all add: read_full_step [where bs = pb and rest = rest] io_return_def)
qed

lemma readSocksRequest_Inr:
  "readSocksRequest c = (Inr (host, port), c') \<longleftrightarrow>
     (\<exists>n methods rsv atyp dst pb rest.
        c_in c = [socksVersion, n] @ methods @ [socksVersion, cmdConnect, rsv, atyp] @ dst @ pb @ rest \<and>
        length methods = unat n \<and> methodNoAuth \<in> set methods \<and> addr_field atyp dst host \<and>
        length pb = 2 \<and> port = be16 pb \<and> 2 \<le> c_room c \<and>
        c' = c\<lparr>c_in := rest, c_out := c_out c @ [socksVersion, methodNoAuth], c_room := c_room c - 2\<rparr>)"
  (is "?L \<longleftrightarrow> ?R")
proof
  assume ?L
  then obtain n methods req where "c_in c = [socksVersion, n] @ methods @ req" "length methods = unat n"
      "methodNoAuth \<in> set methods" "2 \<le> c_room c"
    and k: "readConnect (c\<lparr>c_in := req, c_out := c_out c @ [socksVersion, methodNoAuth], c_room := c_room c - 2\<rparr>)
      = (Inr (host, port), c')"
    by (auto simp: readSocksRequest_def io_bind_Inr read_full_Inr write_all_Inr io_fail_Inr
        length_Suc_conv numeral_2_eq_2 split: if_splits)
  moreover from k obtain rsv atyp dst pb rest where
    "req = [socksVersion, cmdConnect, rsv, atyp] @ dst @ pb @ rest" "addr_field atyp dst host"
    "length pb = 2" "port = be16 pb"
    "c' = c\<lparr>c_in := rest, c_out := c_out c @ [socksVersion, methodNoAuth], c_room := c_room c - 2\<rparr>"
    unfolding readConnect_Inr by auto
  ultimately show ?R
    by (intro exI [of _ n] exI [of _ methods] exI [of _ rsv] exI [of _ atyp] exI [of _ dst]
        exI [of _ pb] exI [of _ rest]) simp
next
  assume ?R
  then obtain n methods rsv atyp dst pb rest where
    r: "c_in c = [socksVersion, n] @ methods @ [socksVersion, cmdConnect, rsv, atyp] @ dst @ pb @ rest"
      "length methods = unat n" "methodNoAuth \<in> set methods" "addr_field atyp dst host"
      "length pb = 2" "port = be16 pb" "2 \<le> c_room c"
      "c' = c\<lparr>c_in := rest, c_out := c_out c @ [socksVersion, methodNoAuth], c_room := c_room c - 2\<rparr>"
    by blast
  let ?c = "c\<lparr>c_in := [socksVersion, cmdConnect, rsv, atyp] @ dst @ pb @ rest\<rparr>"
  let ?c1 = "?c\<lparr>c_out := c_out c @ [socksVersion, methodNoAuth], c_room := c_room c - 2\<rparr>"
  have k: "readConnect ?c1 = (Inr (host, port), c')"
    unfolding readConnect_Inr using r(4-8)
    by (intro exI [of _ rsv] exI [of _ atyp] exI [of _ dst] exI [of _ pb] exI [of _ rest]) (cases c; simp)
  have w: "write_all [socksVersion, methodNoAuth] ?c = (Inr (), ?c1)"
    using r(7) by (simp add: write_all_Inr)
  have "readSocksRequest c =
    io_bind (write_all [socksVersion, methodNoAuth]) (\<lambda>_. readConnect) ?c"
    unfolding readSocksRequest_def using r(2,3)
    by (subst read_full_step [OF r(1)])
       (simp_all add: read_full_step [where bs = methods and rest = "[socksVersion, cmdConnect, rsv, atyp] @ dst @ pb @ rest"])
  then show ?L by (simp only: io_bind_step [where c = ?c and m = "write_all [socksVersion, methodNoAuth]", OF w] k)
qed

section \<open>The client side\<close>

lemma as_slice_no_zone: "addr_text (as_slice a) = addr_string (case a of V4 w \<Rightarrow> V4 w | V6 w z \<Rightarrow> V6 w [])"
proof (cases a)
  case (V4 w)
  then show ?thesis using addr_from_slice_as_slice [of "V4 w"] by (simp add: addr_text_def)
next
  case (V6 w z)
  have "as_slice (V6 w z) = as_slice (V6 w [])" by simp
  then show ?thesis using addr_from_slice_as_slice [of "V6 w []"] by (simp only: addr_text_def V6) simp
qed

text \<open>The host as the server side reads it back: an address in canonical form, without its zone.\<close>

definition wire_host :: "string \<Rightarrow> string" where
  "wire_host host = (case parse_addr host of
      None \<Rightarrow> host
    | Some (V4 w) \<Rightarrow> addr_string (V4 w)
    | Some (V6 w z) \<Rightarrow> addr_string (V6 w []))"

lemma connect_request_Inr:
  assumes "connect_request host port = Inr req"
  obtains atyp dst where "req = [socksVersion, cmdConnect, 0, atyp] @ dst @ port_bytes port"
    "addr_field atyp dst (wire_host host)"
proof (cases "parse_addr host")
  case None
  with assms have len: "length host \<le> 255"
    and "req = [socksVersion, cmdConnect, 0, atypDomain] @ (of_nat (length host) # bytes_of_string host) @ port_bytes port"
    by (auto simp: connect_request_def andthen_eq_Inr split: if_splits)
  moreover have "unat (of_nat (length host) :: byte) = length host"
    using len by (simp add: unat_of_nat take_bit_nat_eq_self)
  ultimately have "addr_field atypDomain (of_nat (length host) # bytes_of_string host) (wire_host host)"
    using None by (simp add: addr_field_def wire_host_def)
  with \<open>req = _\<close> show ?thesis by (rule that)
next
  case (Some a)
  show ?thesis
  proof (cases a)
    case (V4 w)
    with Some assms have "req = [socksVersion, cmdConnect, 0, atypIPv4] @ as_slice a @ port_bytes port"
      by (simp add: connect_request_def del: as_slice.simps)
    moreover have "addr_field atypIPv4 (as_slice a) (wire_host host)"
      unfolding addr_field_def as_slice_no_zone wire_host_def Some by (simp add: V4)
    ultimately show ?thesis using that by blast
  next
    case (V6 w z)
    with Some assms have "req = [socksVersion, cmdConnect, 0, atypIPv6] @ as_slice a @ port_bytes port"
      by (simp add: connect_request_def del: as_slice.simps)
    moreover have "addr_field atypIPv6 (as_slice a) (wire_host host)"
      unfolding addr_field_def as_slice_no_zone wire_host_def Some by (simp add: V6)
    ultimately show ?thesis using that by blast
  qed
qed

lemma be16_be_bytes: "be16 (be_bytes 2 (w :: 16 word)) = unat w"
proof -
  have lt: "unat w < 65536" using unsigned_less [of w] by simp
  have "be16 (be_bytes 2 w) = 256 * unat (ucast (drop_bit 8 w) :: byte) + unat (ucast w :: byte)"
    by (simp add: be16_def numeral_2_eq_2)
  also have "\<dots> = 256 * (unat w div 256 mod 256) + unat w mod 256"
    by (simp add: unsigned_ucast_eq unat_drop_bit_eq take_bit_eq_mod) (simp add: drop_bit_eq_div)
  also have "unat w div 256 mod 256 = unat w div 256" using lt by simp
  finally show ?thesis by simp
qed

lemma be16_port_bytes: "0 \<le> port \<Longrightarrow> port < 65536 \<Longrightarrow> be16 (port_bytes port) = nat port"
  by (simp add: port_bytes_def be16_be_bytes unsigned_of_int take_bit_int_eq_self)

lemma length_port_bytes [simp]: "length (port_bytes port) = 2"
  by (simp add: port_bytes_def)

text \<open>The second half of \<open>socksConnect\<close>, from the reply on.\<close>

definition read_reply :: "unit conn_io" where
  "read_reply =
     io_bind (io_wrap Wrapped (read_full 4)) (\<lambda>reply.
     if reply ! 1 \<noteq> repSucceeded then io_fail (SocksError (reply ! 1) Plain)
     else io_bind (io_wrap Wrapped (readAddr (reply ! 3))) (\<lambda>_.
          io_bind (read_full 2) (\<lambda>_. io_return ())))"

lemma read_reply_Inr:
  "read_reply c = (Inr u, c') \<longleftrightarrow>
     (\<exists>v rsv atyp dst h pb rest. c_in c = [v, repSucceeded, rsv, atyp] @ dst @ pb @ rest \<and>
        addr_field atyp dst h \<and> length pb = 2 \<and> c' = c\<lparr>c_in := rest\<rparr>)"
  (is "?L \<longleftrightarrow> ?R")
proof
  assume ?L
  then obtain r rest1 where r: "c_in c = r @ rest1" "length r = 4" "r ! 1 = repSucceeded"
    and k: "io_bind (io_wrap Wrapped (readAddr (r ! 3))) (\<lambda>_. io_bind (read_full 2) (\<lambda>_. io_return ()))
      (c\<lparr>c_in := rest1\<rparr>) = (Inr u, c')"
    by (auto simp: read_reply_def io_bind_Inr [of _ _ c] io_wrap_Inr read_full_Inr io_fail_Inr split: if_splits)
  from k obtain h c1 where a: "readAddr (r ! 3) (c\<lparr>c_in := rest1\<rparr>) = (Inr h, c1)"
    and p: "io_bind (read_full 2) (\<lambda>_. io_return ()) c1 = (Inr u, c')"
    unfolding io_bind_Inr [of _ _ "c\<lparr>c_in := rest1\<rparr>"] io_wrap_Inr by blast
  from a obtain dst rest2 where dst: "rest1 = dst @ rest2" "addr_field (r ! 3) dst h" "c1 = c\<lparr>c_in := rest2\<rparr>"
    by (auto simp: readAddr_Inr)
  from p dst(3) obtain pb rest where "rest2 = pb @ rest" "length pb = 2" "c' = c\<lparr>c_in := rest\<rparr>"
    by (auto simp: io_bind_Inr read_full_Inr io_return_Inr)
  moreover obtain a b d e where "r = [a, b, d, e]" using r(2) by (auto simp: length4)
  ultimately show ?R using r dst by auto
next
  assume ?R
  then obtain v rsv atyp dst h pb rest where
    r: "c_in c = [v, repSucceeded, rsv, atyp] @ dst @ pb @ rest" "addr_field atyp dst h"
      "length pb = 2" "c' = c\<lparr>c_in := rest\<rparr>" by blast
  have "io_wrap Wrapped (read_full 4) c = (Inr [v, repSucceeded, rsv, atyp], c\<lparr>c_in := dst @ pb @ rest\<rparr>)"
    using r(1) by (simp add: io_wrap_Inr read_full_Inr)
  moreover have "io_wrap Wrapped (readAddr atyp) (c\<lparr>c_in := dst @ pb @ rest\<rparr>) = (Inr h, c\<lparr>c_in := pb @ rest\<rparr>)"
    using r(2) by (auto simp: io_wrap_Inr readAddr_Inr)
  ultimately show ?L using r(3,4)
    by (simp add: read_reply_def io_bind_step read_full_step [where bs = pb and rest = rest] io_return_def)
qed

lemma socksConnect_eq:
  "socksConnect host port =
     io_bind (write_all [socksVersion, 1, methodNoAuth]) (\<lambda>_.
     io_bind (io_wrap Wrapped (read_full 2)) (\<lambda>resp.
     if resp ! 0 \<noteq> socksVersion \<or> resp ! 1 \<noteq> methodNoAuth then io_fail Plain
     else (case connect_request host port of
         Inl e \<Rightarrow> io_fail e
       | Inr req \<Rightarrow> io_bind (write_all req) (\<lambda>_. read_reply))))"
  by (simp only: socksConnect_def read_reply_def)

lemma socksConnect_step:
  assumes "c_in c = [socksVersion, methodNoAuth] @ rest" "connect_request host port = Inr req"
    and "3 + length req \<le> c_room c"
  shows "socksConnect host port c = read_reply (c\<lparr>c_in := rest,
    c_out := c_out c @ [socksVersion, 1, methodNoAuth] @ req, c_room := c_room c - (3 + length req)\<rparr>)"
proof -
  let ?c1 = "c\<lparr>c_out := c_out c @ [socksVersion, 1, methodNoAuth], c_room := c_room c - 3\<rparr>"
  have "write_all [socksVersion, 1, methodNoAuth] c = (Inr (), ?c1)"
    using assms(3) by (simp add: write_all_Inr)
  moreover have "io_wrap Wrapped (read_full 2) ?c1 = (Inr [socksVersion, methodNoAuth], ?c1\<lparr>c_in := rest\<rparr>)"
    using assms(1) by (simp add: io_wrap_Inr read_full_Inr)
  moreover have "write_all req (?c1\<lparr>c_in := rest\<rparr>) = (Inr (), c\<lparr>c_in := rest,
    c_out := c_out c @ [socksVersion, 1, methodNoAuth] @ req, c_room := c_room c - (3 + length req)\<rparr>)"
    using assms(3) by (simp add: write_all_Inr)
  ultimately show ?thesis by (simp add: socksConnect_eq io_bind_step assms(2))
qed

lemma socksConnect_Inr:
  "socksConnect host port c = (Inr u, c') \<longleftrightarrow>
     (\<exists>req v rsv atyp dst h pb rest.
        connect_request host port = Inr req \<and> 3 + length req \<le> c_room c \<and>
        c_in c = [socksVersion, methodNoAuth] @ [v, repSucceeded, rsv, atyp] @ dst @ pb @ rest \<and>
        addr_field atyp dst h \<and> length pb = 2 \<and>
        c' = c\<lparr>c_in := rest, c_out := c_out c @ [socksVersion, 1, methodNoAuth] @ req,
               c_room := c_room c - (3 + length req)\<rparr>)"
  (is "?L \<longleftrightarrow> ?R")
proof
  assume L: ?L
  then obtain resp rest1 req where "length resp = 2" "resp ! 0 = socksVersion" "resp ! 1 = methodNoAuth"
    and c: "c_in c = resp @ rest1" and req: "connect_request host port = Inr req" "3 + length req \<le> c_room c"
    by (auto simp: socksConnect_eq io_bind_Inr io_wrap_Inr write_all_Inr read_full_Inr io_fail_Inr
        split: if_splits sum.splits)
  then have "c_in c = [socksVersion, methodNoAuth] @ rest1" by (auto simp: length2)
  from socksConnect_step [OF this req] L have "read_reply (c\<lparr>c_in := rest1,
    c_out := c_out c @ [socksVersion, 1, methodNoAuth] @ req, c_room := c_room c - (3 + length req)\<rparr>) = (Inr u, c')"
    by simp
  then obtain v rsv atyp dst h pb rest where
    "rest1 = [v, repSucceeded, rsv, atyp] @ dst @ pb @ rest" "addr_field atyp dst h" "length pb = 2"
    "c' = c\<lparr>c_in := rest, c_out := c_out c @ [socksVersion, 1, methodNoAuth] @ req,
               c_room := c_room c - (3 + length req)\<rparr>"
    unfolding read_reply_Inr by auto
  then show ?R using req c \<open>c_in c = [socksVersion, methodNoAuth] @ rest1\<close>
    by (intro exI [of _ req] exI [of _ v] exI [of _ rsv] exI [of _ atyp] exI [of _ dst] exI [of _ h]
        exI [of _ pb] exI [of _ rest]) simp
next
  assume ?R
  then obtain req v rsv atyp dst h pb rest where
    r: "connect_request host port = Inr req" "3 + length req \<le> c_room c"
      "c_in c = [socksVersion, methodNoAuth] @ [v, repSucceeded, rsv, atyp] @ dst @ pb @ rest"
      "addr_field atyp dst h" "length pb = 2"
      "c' = c\<lparr>c_in := rest, c_out := c_out c @ [socksVersion, 1, methodNoAuth] @ req,
               c_room := c_room c - (3 + length req)\<rparr>" by blast
  show ?L unfolding socksConnect_step [OF r(3,1,2)] read_reply_Inr using r(4-6)
    by (intro exI [of _ v] exI [of _ rsv] exI [of _ atyp] exI [of _ dst] exI [of _ h]
        exI [of _ pb] exI [of _ rest]) simp
qed

text \<open>What is written to a client whose request is not accepted.\<close>

lemma read_full_out [simp]:
  "c_out (snd (read_full n c)) = c_out c" "c_room (snd (read_full n c)) = c_room c"
  by (simp_all add: read_full_def)

lemma write_ignore_out [simp]: "c_out (write_ignore bs c) = c_out c @ take (c_room c) bs"
  by (simp add: write_ignore_def write_all_def)

lemma io_bind_read:
  "(\<And>bs rest. c_in c = bs @ rest \<Longrightarrow> length bs = n \<Longrightarrow> P (f bs (c\<lparr>c_in := rest\<rparr>))) \<Longrightarrow>
   P (Inl EndOfStream, c\<lparr>c_in := []\<rparr>) \<Longrightarrow> P (io_bind (read_full n) f c)"
  by (auto simp: io_bind_def read_full_def)

lemma readAddr_out [simp]:
  "c_out (snd (readAddr atyp c)) = c_out c" "c_room (snd (readAddr atyp c)) = c_room c"
  by (auto simp: readAddr_def io_bind_def read_full_def io_return_def io_fail_def)

definition appended :: "conn \<Rightarrow> byte list set \<Rightarrow> conn \<Rightarrow> bool" where
  "appended c S c' \<longleftrightarrow> (\<exists>s \<in> S. c_out c' = c_out c @ take (c_room c) s)"

lemma readConnect_out:
  "appended c {[], socks_reply repAddrNotSupported, socks_reply repCommandNotSupported} (snd (readConnect c))"
  unfolding readConnect_def
proof (rule io_bind_read)
  fix req rest assume "c_in c = req @ rest" "length req = 4"
  define c1 where "c1 = c\<lparr>c_in := rest\<rparr>"
  have c1: "c_out c1 = c_out c" "c_room c1 = c_room c" by (simp_all add: c1_def)
  obtain r c2 where a: "readAddr (req ! 3) c1 = (r, c2)" by (cases "readAddr (req ! 3) c1")
  then have c2: "c_out c2 = c_out c" "c_room c2 = c_room c"
    using readAddr_out [of "req ! 3" c1] c1 by simp_all
  show "appended c {[], socks_reply repAddrNotSupported, socks_reply repCommandNotSupported}
    (snd ((if req ! 0 \<noteq> socksVersion then io_fail Plain
     else (\<lambda>c. case readAddr (req ! 3) c of
         (Inl e, c') \<Rightarrow> (Inl e, writeSocksReply repAddrNotSupported c')
       | (Inr host, c') \<Rightarrow>
           io_bind (read_full 2) (\<lambda>portBuf.
           if req ! 1 \<noteq> cmdConnect
           then (\<lambda>c. (Inl Plain, writeSocksReply repCommandNotSupported c))
           else io_return (host, be16 portBuf)) c')) (c\<lparr>c_in := rest\<rparr>)))"
    unfolding c1_def [symmetric] using c1 c2
    by (auto simp: a io_fail_def io_return_def appended_def writeSocksReply_def io_bind_def read_full_def
        split: sum.splits)
qed (auto simp: appended_def)

lemma readSocksRequest_out:
  "appended c {[], [socksVersion, methodNoAcceptable], [socksVersion, methodNoAuth],
     [socksVersion, methodNoAuth] @ socks_reply repAddrNotSupported,
     [socksVersion, methodNoAuth] @ socks_reply repCommandNotSupported} (snd (readSocksRequest c))"
  (is "appended c ?S _")
  unfolding readSocksRequest_def
proof (rule io_bind_read)
  fix hdr rest assume "c_in c = hdr @ rest"
  define c1 where "c1 = c\<lparr>c_in := rest\<rparr>"
  have c1: "c_out c1 = c_out c" "c_room c1 = c_room c" by (simp_all add: c1_def)
  have "appended c ?S (snd (io_bind (read_full (unat (hdr ! 1))) (\<lambda>methods.
     if methodNoAuth \<notin> set methods
     then (\<lambda>c. (Inl Plain, write_ignore [socksVersion, methodNoAcceptable] c))
     else io_bind (write_all [socksVersion, methodNoAuth]) (\<lambda>_. readConnect)) c1))"
  proof (rule io_bind_read)
    fix methods rest assume "c_in c1 = methods @ rest"
    define c2 where "c2 = c1\<lparr>c_in := rest\<rparr>"
    have c2: "c_out c2 = c_out c" "c_room c2 = c_room c" by (simp_all add: c2_def c1)
    have "appended c ?S (snd (io_bind (write_all [socksVersion, methodNoAuth]) (\<lambda>_. readConnect) c2))"
    proof (cases "2 \<le> c_room c")
      case True
      define c3 where "c3 = c2\<lparr>c_out := c_out c @ [socksVersion, methodNoAuth], c_room := c_room c - 2\<rparr>"
      have "io_bind (write_all [socksVersion, methodNoAuth]) (\<lambda>_. readConnect) c2 = readConnect c3"
        using True c2 by (simp add: io_bind_def write_all_def c3_def numeral_2_eq_2)
      moreover obtain s where "s \<in> {[], socks_reply repAddrNotSupported, socks_reply repCommandNotSupported}"
        "c_out (snd (readConnect c3)) = c_out c3 @ take (c_room c3) s"
        using readConnect_out [of c3] unfolding appended_def by blast
      ultimately show ?thesis using True
        unfolding appended_def
        by (intro bexI [of _ "[socksVersion, methodNoAuth] @ s"]) (auto simp: c3_def take_Cons' numeral_2_eq_2)
    next
      case False
      then show ?thesis using c2
        by (auto simp: io_bind_def write_all_def appended_def intro!: bexI [of _ "[socksVersion, methodNoAuth]"])
    qed
    then show "appended c ?S (snd ((if methodNoAuth \<notin> set methods
     then (\<lambda>c. (Inl Plain, write_ignore [socksVersion, methodNoAcceptable] c))
     else io_bind (write_all [socksVersion, methodNoAuth]) (\<lambda>_. readConnect)) (c1\<lparr>c_in := rest\<rparr>)))"
      unfolding c2_def [symmetric] using c2 by (auto simp: appended_def)
  qed (auto simp: appended_def c1)
  then show "appended c ?S (snd ((if hdr ! 0 \<noteq> socksVersion then io_fail Plain
     else io_bind (read_full (unat (hdr ! 1))) (\<lambda>methods.
     if methodNoAuth \<notin> set methods
     then (\<lambda>c. (Inl Plain, write_ignore [socksVersion, methodNoAcceptable] c))
     else io_bind (write_all [socksVersion, methodNoAuth]) (\<lambda>_. readConnect))) (c\<lparr>c_in := rest\<rparr>)))"
    unfolding c1_def [symmetric] using c1 by (auto simp: io_fail_def appended_def)
qed (auto simp: appended_def)

lemma readSocksRequest_roundtrip:
  assumes "connect_request host port = Inr req" "0 \<le> port" "port < 65536" "2 \<le> room"
  shows "readSocksRequest \<lparr>c_in = [5, 1, 0] @ req @ rest, c_out = out, c_room = room\<rparr> =
    (Inr (wire_host host, nat port), \<lparr>c_in = rest, c_out = out @ [5, 0], c_room = room - 2\<rparr>)"
proof -
  obtain atyp dst where "req = [5, 1, 0, atyp] @ dst @ port_bytes port" "addr_field atyp dst (wire_host host)"
    by (rule connect_request_Inr [OF assms(1)])
  then show ?thesis
    using be16_port_bytes [OF assms(2,3)] assms(4) unfolding readSocksRequest_Inr
    by (intro exI [of _ 1] exI [of _ "[0]"] exI [of _ 0] exI [of _ atyp] exI [of _ dst]
        exI [of _ "port_bytes port"] exI [of _ rest]) simp
qed

section \<open>Properties\<close>

text \<open>
  Claim C28. \<open>readSocksRequest\<close> accepts exactly the byte streams that begin with a version 5
  greeting offering no authentication, followed by a CONNECT request with a well-formed address
  and a port; it returns the host and port of that request, has answered \<open>05 00\<close>, and leaves
  every byte after the request (the client's first data) unread.
\<close>

theorem socks_request_accepted_iff:
  "readSocksRequest c = (Inr (host, port), c') \<longleftrightarrow>
     (\<exists>n methods rsv atyp dst pb rest.
        c_in c = [5, n] @ methods @ [5, 1, rsv, atyp] @ dst @ pb @ rest \<and>
        length methods = unat n \<and> 0 \<in> set methods \<and> addr_field atyp dst host \<and>
        length pb = 2 \<and> port = be16 pb \<and> 2 \<le> c_room c \<and>
        c' = c\<lparr>c_in := rest, c_out := c_out c @ [5, 0], c_room := c_room c - 2\<rparr>)"
  by (rule readSocksRequest_Inr)

text \<open>
  Claim C29. The two sides of the protocol fit: the greeting and request \<open>socksConnect\<close> writes for
  a host and a port are accepted by \<open>readSocksRequest\<close>, which reads back that port and that host
  (a literal address in its canonical form and without a zone) and nothing of what follows.
\<close>

theorem socks_request_roundtrip:
  assumes "connect_request host port = Inr req" "0 \<le> port" "port < 65536" "2 \<le> room"
  shows "readSocksRequest \<lparr>c_in = [5, 1, 0] @ req @ rest, c_out = out, c_room = room\<rparr> =
    (Inr (wire_host host, nat port), \<lparr>c_in = rest, c_out = out @ [5, 0], c_room = room - 2\<rparr>)"
  by (rule readSocksRequest_roundtrip [OF assms])

lemma parse_addr_example_host: "parse_addr ''wiki.lan'' = None"
  by code_simp

theorem socks_request_roundtrip_witness:
  "fst (readSocksRequest \<lparr>c_in = [5, 1, 0] @ ([5, 1, 0, 3, 8] @ bytes_of_string ''wiki.lan'' @ port_bytes 443) @ [22],
     c_out = [], c_room = 100\<rparr>) = Inr (''wiki.lan'', 443)"
proof -
  have "connect_request ''wiki.lan'' 443 = Inr ([5, 1, 0, 3, 8] @ bytes_of_string ''wiki.lan'' @ port_bytes 443)"
    by (simp add: connect_request_def parse_addr_example_host)
  from socks_request_roundtrip [OF this, of 100 "[22]" "[]"] show ?thesis
    by (simp add: wire_host_def parse_addr_example_host)
qed

text \<open>
  \<open>socksConnect\<close> reports success exactly if the upstream accepted no authentication and
  answered the request with code 0 and a complete bound address, which is all it consumes; so the
  first byte it leaves is the first byte of the destination.
\<close>

theorem socks_connect_succeeds_iff:
  "socksConnect host port c = (Inr u, c') \<longleftrightarrow>
     (\<exists>req v rsv atyp dst h pb rest.
        connect_request host port = Inr req \<and> 3 + length req \<le> c_room c \<and>
        c_in c = [5, 0] @ [v, 0, rsv, atyp] @ dst @ pb @ rest \<and>
        addr_field atyp dst h \<and> length pb = 2 \<and>
        c' = c\<lparr>c_in := rest, c_out := c_out c @ [5, 1, 0] @ req, c_room := c_room c - (3 + length req)\<rparr>)"
  by (rule socksConnect_Inr)

text \<open>
  A refusal is an error of \<open>socksConnect\<close> whose reply code is the upstream's, however it is wrapped.
\<close>

lemma upstream_reply_code:
  assumes "c_in c = [5, 0] @ [v, rc, rsv, atyp] @ rest" "rc \<noteq> 0"
    and "connect_request host port = Inr req" "3 + length req \<le> c_room c"
  shows "\<exists>e. fst (socksConnect host port c) = Inl e \<and> replyCode e = rc \<and> replyCode (Wrapped e) = rc"
proof -
  let ?c1 = "c\<lparr>c_in := [v, rc, rsv, atyp] @ rest, c_out := c_out c @ [5, 1, 0] @ req,
    c_room := c_room c - (3 + length req)\<rparr>"
  have "io_wrap Wrapped (read_full 4) ?c1 = (Inr [v, rc, rsv, atyp], ?c1\<lparr>c_in := rest\<rparr>)"
    by (simp add: io_wrap_Inr read_full_Inr)
  then have "fst (read_reply ?c1) = Inl (SocksError rc Plain)"
    using assms(2) by (simp add: read_reply_def io_bind_step io_fail_def)
  moreover have "replyCode (SocksError rc Plain) = rc" "replyCode (Wrapped (SocksError rc Plain)) = rc"
    by (simp_all add: replyCode_def)
  ultimately show ?thesis
    unfolding socksConnect_step [OF assms(1,3,4)] by blast
qed

text \<open>
  Whatever a client sends, \<open>readSocksRequest\<close> writes one of five things to it (cut off
  where the connection breaks): nothing, the refusal of its methods, the agreed method, and after
  that at most one reply, with code 8 or 7; never a reply that announces success.
\<close>

theorem bad_socks_request_answers:
  "\<exists>s \<in> {[], [5, 0xFF], [5, 0], [5, 0] @ socks_reply 8, [5, 0] @ socks_reply 7}.
     c_out (snd (readSocksRequest c)) = c_out c @ take (c_room c) s"
  using readSocksRequest_out [of c] unfolding appended_def by simp

end
