(* ===== verification/ProxyServer.thy ===== *)
theory ProxyServer
  imports ProxyTable Socks
begin

text \<open>
  \<open>internal/proxy/server.go\<close>: what the front-door proxy does with one connection (\<open>handle\<close>,
  \<open>handleSocks\<close>, \<open>handleHTTP\<close>, \<open>dial\<close>, \<open>relay\<close>), as functions on the connection states of
  \<open>Socks\<close>, and the server's bookkeeping of open connections (\<open>track\<close>, \<open>untrack\<close>, \<open>serve\<close>,
  \<open>Shutdown\<close>), as a state machine that interleaves the handlers with a shutdown. Dialling a TCP
  address, \<open>http.ReadRequest\<close> and the text of an error are parameters.
\<close>

section \<open>dial\<close>

type_synonym dialer = "string \<Rightarrow> go_error + conn"

text \<open>\<open>decide\<close> is \<open>s.table.Decide\<close>. The result names the one address that is dialled.\<close>

definition dial :: "(string \<Rightarrow> decision) \<Rightarrow> dialer \<Rightarrow> string \<Rightarrow> int \<Rightarrow> string \<times> (go_error + conn)" where
  "dial decide dial_tcp host port =
     (let d = decide host;
          target = join_host_port host (itoa port)
      in if d_Upstream d = [] then (target, dial_tcp target)
         else (d_Upstream d,
           case dial_tcp (d_Upstream d) of
             Inl e \<Rightarrow> Inl (SocksError repGeneralFailure (Wrapped e))
           | Inr c \<Rightarrow> (case socksConnect host port c of
                 (Inl e, _) \<Rightarrow> Inl e
               | (Inr _, c') \<Rightarrow> Inr c')))"

section \<open>The handlers of one connection\<close>

text \<open>
  How a handler ends: with the client connection as it is closed, or with both connections
  after the relay. \<open>io.Copy\<close> moves everything the source still sends, as far as the
  destination takes it.
\<close>

datatype outcome = Closed conn | Relayed conn conn

definition copy_to :: "conn \<Rightarrow> byte list \<Rightarrow> conn" where
  "copy_to dst bs = write_ignore bs dst"

definition relay :: "conn \<Rightarrow> conn \<Rightarrow> outcome" where
  "relay client upstream =
     Relayed ((copy_to client (c_in upstream))\<lparr>c_in := []\<rparr>)
             ((copy_to upstream (c_in client))\<lparr>c_in := []\<rparr>)"

text \<open>\<open>closed\<close>: the server has been shut down by the time the upstream is to be tracked.\<close>

definition handleSocks :: "(string \<Rightarrow> decision) \<Rightarrow> dialer \<Rightarrow> bool \<Rightarrow> conn \<Rightarrow> outcome" where
  "handleSocks decide dial_tcp closed client =
     (case readSocksRequest client of
        (Inl _, client) \<Rightarrow> Closed client
      | (Inr (host, port), client) \<Rightarrow>
          (case snd (dial decide dial_tcp host (int port)) of
             Inl err \<Rightarrow> Closed (writeSocksReply (replyCode err) client)
           | Inr upstream \<Rightarrow>
               if closed then Closed client
               else relay (writeSocksReply repSucceeded client) upstream))"

fun status_text :: "nat \<Rightarrow> string" where
  "status_text n =
     (if n = 405 then ''Method Not Allowed''
      else if n = 400 then ''Bad Request''
      else if n = 502 then ''Bad Gateway''
      else [])"

definition crlf :: string where
  "crlf = [CHR 0x0D, CHR 0x0A]"

definition writeHTTPStatus :: "nat \<Rightarrow> string \<Rightarrow> conn \<Rightarrow> conn" where
  "writeHTTPStatus n body =
     write_ignore (bytes_of_string
       (''HTTP/1.1 '' @ itoa (int n) @ '' '' @ status_text n @ crlf @
        ''Content-Type: text/plain'' @ crlf @
        ''Content-Length: '' @ itoa (int (length body)) @ crlf @
        ''Connection: close'' @ crlf @ crlf @ body))"

text \<open>\<open>http.ReadRequest\<close>: the method, the \<open>Host\<close> of the request, and the unread input.\<close>

type_synonym request_reader = "byte list \<Rightarrow> (string \<times> string \<times> byte list) option"

definition newline :: string where
  "newline = [CHR 0x0A]"

definition connect_target :: "string \<Rightarrow> (string \<times> int) option" where
  "connect_target req_host =
     (case split_host_port req_host of
        Inl _ \<Rightarrow> None
      | Inr (host, portStr) \<Rightarrow>
          (case atoi portStr of
             None \<Rightarrow> None
           | Some port \<Rightarrow> if port \<le> 0 \<or> port > 65535 then None else Some (host, port)))"

definition handleHTTP ::
  "request_reader \<Rightarrow> (go_error \<Rightarrow> string) \<Rightarrow> (string \<Rightarrow> decision) \<Rightarrow> dialer \<Rightarrow> bool \<Rightarrow> conn \<Rightarrow> outcome"
where
  "handleHTTP read_request err_text decide dial_tcp closed client0 =
     (case read_request (c_in client0) of
        None \<Rightarrow> Closed (client0\<lparr>c_in := []\<rparr>)
      | Some (meth, req_host, rest) \<Rightarrow>
          let client = client0\<lparr>c_in := rest\<rparr> in
          if meth \<noteq> ''CONNECT'' then
            Closed (writeHTTPStatus 405
              (''ssh-autoproxy only supports HTTP CONNECT (or SOCKS5) on this port.'' @ newline) client)
          else (case connect_target req_host of
              None \<Rightarrow> Closed (writeHTTPStatus 400 (''CONNECT target must be host:port.'' @ newline) client)
            | Some (host, port) \<Rightarrow>
                (case snd (dial decide dial_tcp host port) of
                   Inl err \<Rightarrow> Closed (writeHTTPStatus 502 (err_text err @ newline) client)
                 | Inr upstream \<Rightarrow>
                     if closed then Closed client
                     else (case write_all (bytes_of_string
                         (''HTTP/1.1 200 Connection Established'' @ crlf @ crlf)) client of
                       (Inl _, client) \<Rightarrow> Closed client
                     | (Inr _, client) \<Rightarrow> relay client upstream))))"

definition handle ::
  "request_reader \<Rightarrow> (go_error \<Rightarrow> string) \<Rightarrow> (string \<Rightarrow> decision) \<Rightarrow> dialer \<Rightarrow> bool \<Rightarrow> conn \<Rightarrow> outcome"
where
  "handle read_request err_text decide dial_tcp closed client =
     (case c_in client of
        [] \<Rightarrow> Closed client
      | first # _ \<Rightarrow>
          if first = socksVersion then handleSocks decide dial_tcp closed client
          else if 65 \<le> first \<and> first \<le> 90
          then handleHTTP read_request err_text decide dial_tcp closed client
          else Closed client)"

section \<open>The server's connections\<close>

text \<open>
  Connections are numbers. The handler of an accepted client goes through the phases below;
  \<open>Dialed u\<close> holds an upstream that is not yet tracked.
\<close>

datatype hphase = Accepted | Handling | Dialed nat | Relaying nat | Closing

record server =
  sv_closed :: bool
  sv_listening :: bool
  sv_conns :: "nat set"
  sv_open :: "nat set"
  sv_handlers :: "nat \<rightharpoonup> hphase"

definition NewServer :: server where
  "NewServer = \<lparr>sv_closed = False, sv_listening = False, sv_conns = {}, sv_open = {},
     sv_handlers = (\<lambda>_. None)\<rparr>"

definition Start :: "server \<Rightarrow> server" where
  "Start s = s\<lparr>sv_listening := True\<rparr>"

definition track :: "nat \<Rightarrow> server \<Rightarrow> bool \<times> server" where
  "track c s = (if sv_closed s then (False, s) else (True, s\<lparr>sv_conns := insert c (sv_conns s)\<rparr>))"

definition close_conn :: "nat \<Rightarrow> server \<Rightarrow> server" where
  "close_conn c s = s\<lparr>sv_open := sv_open s - {c}\<rparr>"

definition untrack :: "nat \<Rightarrow> server \<Rightarrow> server" where
  "untrack c s = close_conn c (s\<lparr>sv_conns := sv_conns s - {c}\<rparr>)"

definition Shutdown :: "server \<Rightarrow> server" where
  "Shutdown s = s\<lparr>sv_closed := True, sv_listening := False, sv_open := sv_open s - sv_conns s\<rparr>"

definition set_phase :: "nat \<Rightarrow> hphase option \<Rightarrow> server \<Rightarrow> server" where
  "set_phase c ph s = s\<lparr>sv_handlers := (sv_handlers s)(c := ph)\<rparr>"

text \<open>The iteration of \<open>serve\<close> after \<open>Accept\<close>, and the end of a handler's deferred calls.\<close>

definition serve_accepted :: "nat \<Rightarrow> server \<Rightarrow> server" where
  "serve_accepted c s =
     (case track c s of
        (False, s) \<Rightarrow> set_phase c None (close_conn c s)
      | (True, s) \<Rightarrow> set_phase c (Some Handling) s)"

text \<open>\<open>if !s.track(upstream)\<close> of both handlers.\<close>

definition track_upstream :: "nat \<Rightarrow> nat \<Rightarrow> server \<Rightarrow> server" where
  "track_upstream c u s =
     (case track u s of
        (False, s) \<Rightarrow> set_phase c (Some Closing) (close_conn u s)
      | (True, s) \<Rightarrow> set_phase c (Some (Relaying u)) s)"

definition fresh :: "nat \<Rightarrow> server \<Rightarrow> bool" where
  "fresh c s \<longleftrightarrow> c \<notin> sv_open s \<and> c \<notin> sv_conns s \<and> sv_handlers s c = None \<and>
     (\<forall>d. sv_handlers s d \<noteq> Some (Dialed c) \<and> sv_handlers s d \<noteq> Some (Relaying c))"

inductive server_step :: "server \<Rightarrow> server \<Rightarrow> bool" where
  start: "\<not> sv_closed s \<Longrightarrow> server_step s (Start s)"
| accept: "sv_listening s \<Longrightarrow> fresh c s \<Longrightarrow>
    server_step s (set_phase c (Some Accepted) (s\<lparr>sv_open := insert c (sv_open s)\<rparr>))"
| serve: "sv_handlers s c = Some Accepted \<Longrightarrow> server_step s (serve_accepted c s)"
| refuse: "sv_handlers s c = Some Handling \<Longrightarrow> server_step s (set_phase c (Some Closing) s)"
| dialed: "sv_handlers s c = Some Handling \<Longrightarrow> fresh u s \<Longrightarrow> u \<noteq> c \<Longrightarrow>
    server_step s (set_phase c (Some (Dialed u)) (s\<lparr>sv_open := insert u (sv_open s)\<rparr>))"
| upstream: "sv_handlers s c = Some (Dialed u) \<Longrightarrow> server_step s (track_upstream c u s)"
| relayed: "sv_handlers s c = Some (Relaying u) \<Longrightarrow>
    server_step s (set_phase c (Some Closing) (untrack u s))"
| finish: "sv_handlers s c = Some Closing \<Longrightarrow> server_step s (set_phase c None (untrack c s))"
| shutdown: "server_step s (Shutdown s)"

inductive server_reachable :: "server \<Rightarrow> bool" where
  init: "server_reachable NewServer"
| step: "server_reachable s \<Longrightarrow> server_step s s' \<Longrightarrow> server_reachable s'"

inductive_cases server_stepE: "server_step s s'"

section \<open>The invariant of the bookkeeping\<close>

text \<open>
  Every open connection belongs to a live handler; a handler past \<open>serve\<close> is tracked, and so is
  an upstream that is relayed; no two handlers share a connection; once the server is closed no
  tracked connection is open.
\<close>

fun ups :: "hphase \<Rightarrow> nat set" where
  "ups (Dialed u) = {u}"
| "ups (Relaying u) = {u}"
| "ups _ = {}"

definition handlers_ok :: "nat set \<Rightarrow> (nat \<rightharpoonup> hphase) \<Rightarrow> bool" where
  "handlers_ok conns h \<longleftrightarrow>
     (\<forall>c ph. h c = Some ph \<longrightarrow>
        (ph \<noteq> Accepted \<longrightarrow> c \<in> conns) \<and>
        (\<forall>u. ph = Relaying u \<longrightarrow> u \<in> conns) \<and>
        (\<forall>u \<in> ups ph. h u = None) \<and>
        (\<forall>d ph'. h d = Some ph' \<longrightarrow> d \<noteq> c \<longrightarrow> ups ph \<inter> ups ph' = {}))"

definition owned :: "(nat \<rightharpoonup> hphase) \<Rightarrow> nat \<Rightarrow> bool" where
  "owned h x \<longleftrightarrow> (\<exists>c ph. h c = Some ph \<and> (x = c \<or> x \<in> ups ph))"

definition server_inv :: "server \<Rightarrow> bool" where
  "server_inv s \<longleftrightarrow>
     handlers_ok (sv_conns s) (sv_handlers s) \<and>
     (\<forall>x \<in> sv_open s. owned (sv_handlers s) x) \<and>
     (sv_closed s \<longrightarrow> sv_open s \<inter> sv_conns s = {} \<and> \<not> sv_listening s)"

lemmas server_ops = Start_def track_def close_conn_def untrack_def Shutdown_def set_phase_def
  serve_accepted_def track_upstream_def

lemma handlers_okD:
  assumes "handlers_ok conns h" "h c = Some ph"
  shows "ph \<noteq> Accepted \<Longrightarrow> c \<in> conns" "ph = Relaying u \<Longrightarrow> u \<in> conns" "u \<in> ups ph \<Longrightarrow> h u = None"
    "h d = Some ph' \<Longrightarrow> d \<noteq> c \<Longrightarrow> ups ph \<inter> ups ph' = {}"
  using assms unfolding handlers_ok_def by blast+

lemma owned_upd:
  "owned h x \<Longrightarrow> h c = Some ph \<Longrightarrow> x \<notin> ups ph \<or> x \<in> ups ph' \<Longrightarrow> owned (h(c \<mapsto> ph')) x"
  unfolding owned_def by (metis fun_upd_apply option.inject)

lemma owned_del:
  "owned h x \<Longrightarrow> h c = Some ph \<Longrightarrow> x \<noteq> c \<Longrightarrow> x \<notin> ups ph \<Longrightarrow> owned (h(c := None)) x"
  unfolding owned_def by (metis fun_upd_apply option.inject)

lemma owned_new: "owned h x \<Longrightarrow> h c = None \<Longrightarrow> owned (h(c \<mapsto> ph)) x"
  unfolding owned_def by (metis fun_upd_apply option.distinct(1))

lemma owned_self: "owned (h(c \<mapsto> ph)) c" "u \<in> ups ph \<Longrightarrow> owned (h(c \<mapsto> ph)) u"
  unfolding owned_def by (metis fun_upd_same)+

lemma ok_mono: "handlers_ok K h \<Longrightarrow> K \<subseteq> K' \<Longrightarrow> handlers_ok K' h"
  unfolding handlers_ok_def by blast

text \<open>One handler changes its phase.\<close>

lemma ok_upd:
  assumes "handlers_ok K h" "h c = Some ph0" "ph \<noteq> Accepted \<Longrightarrow> c \<in> K"
    and "\<And>u. ph = Relaying u \<Longrightarrow> u \<in> K" "\<And>u. u \<in> ups ph \<Longrightarrow> h u = None \<and> u \<noteq> c"
    and "\<And>d ph' u. h d = Some ph' \<Longrightarrow> d \<noteq> c \<Longrightarrow> u \<in> ups ph \<Longrightarrow> u \<notin> ups ph'"
  shows "handlers_ok K (h(c \<mapsto> ph))"
  unfolding handlers_ok_def
proof (intro allI impI conjI ballI)
  fix d ph' assume d: "(h(c \<mapsto> ph)) d = Some ph'"
  note D = handlers_okD [OF assms(1)]
  show "ph' \<noteq> Accepted \<Longrightarrow> d \<in> K" using d D(1) [of d] assms(3) by (auto split: if_splits)
  show "ph' = Relaying u \<Longrightarrow> u \<in> K" for u using d D(2) [of d] assms(4) by (auto split: if_splits)
  show "u \<in> ups ph' \<Longrightarrow> (h(c \<mapsto> ph)) u = None" for u
    using d D(3) [of d ph' u] assms(2) assms(5) [of u] by (auto split: if_splits)
  fix d2 ph2 assume d2: "(h(c \<mapsto> ph)) d2 = Some ph2" "d2 \<noteq> d"
  then show "ups ph' \<inter> ups ph2 = {}"
    using d D(4) [of d ph' d2 ph2] assms(6) by (auto split: if_splits)
qed

lemma ok_new:
  assumes "handlers_ok K h" "h c = None" "\<And>d ph. h d = Some ph \<Longrightarrow> c \<notin> ups ph"
  shows "handlers_ok K (h(c \<mapsto> Accepted))"
  using assms unfolding handlers_ok_def by auto

lemma ok_del:
  assumes "handlers_ok K h" "\<And>d ph. h d = Some ph \<Longrightarrow> c \<notin> ups ph"
  shows "handlers_ok (K - {c}) (h(c := None))"
proof -
  have "h d \<noteq> Some (Relaying c)" for d using assms(2) [of d "Relaying c"] by auto
  then show ?thesis using assms unfolding handlers_ok_def by (auto split: if_splits)
qed

lemma ok_drop:
  assumes "handlers_ok K h" "h u = None" "\<And>d ph. h d = Some ph \<Longrightarrow> u \<notin> ups ph"
  shows "handlers_ok (K - {u}) h"
  using ok_del [OF assms(1,3)] assms(2) by (simp add: fun_upd_idem)

lemma fresh_ups: "fresh c s \<Longrightarrow> sv_handlers s d = Some ph \<Longrightarrow> c \<notin> ups ph"
  by (cases ph) (auto simp: fresh_def)

lemma busy_ups: "handlers_ok K h \<Longrightarrow> h c = Some ph0 \<Longrightarrow> h d = Some ph \<Longrightarrow> c \<notin> ups ph"
  using handlers_okD(3) by (metis option.distinct(1))

lemma server_step_inv: "server_step s s' \<Longrightarrow> server_inv s \<Longrightarrow> server_inv s'"
proof (induction rule: server_step.induct)
  case (start s)
  then show ?case by (simp add: server_inv_def Start_def)
next
  case (accept s c)
  have "handlers_ok (sv_conns s) ((sv_handlers s)(c \<mapsto> Accepted))"
    using accept fresh_ups by (intro ok_new) (auto simp: server_inv_def fresh_def)
  then show ?case using accept owned_new owned_self(1)
    by (auto simp: server_inv_def set_phase_def fresh_def)
next
  case (serve s c)
  then have ok: "handlers_ok (sv_conns s) (sv_handlers s)" by (simp add: server_inv_def)
  show ?case
  proof (cases "sv_closed s")
    case True
    have "handlers_ok (sv_conns s) ((sv_handlers s)(c := None))"
      by (rule ok_mono [OF ok_del [OF ok]]) (auto dest: busy_ups [OF ok serve.hyps])
    then show ?thesis using True serve owned_del [of "sv_handlers s" _ c]
      by (auto simp: server_inv_def server_ops)
  next
    case False
    have "handlers_ok (insert c (sv_conns s)) ((sv_handlers s)(c \<mapsto> Handling))"
      using ok_mono [OF ok] serve.hyps by (intro ok_upd) auto
    then show ?thesis using False serve owned_upd [of "sv_handlers s" _ c]
      by (auto simp: server_inv_def server_ops)
  qed
next
  case (refuse s c)
  then have ok: "handlers_ok (sv_conns s) (sv_handlers s)" by (simp add: server_inv_def)
  have "handlers_ok (sv_conns s) ((sv_handlers s)(c \<mapsto> Closing))"
    using ok refuse.hyps handlers_okD(1) [OF ok refuse.hyps] by (intro ok_upd) auto
  then show ?case using refuse owned_upd [of "sv_handlers s" _ c]
    by (auto simp: server_inv_def set_phase_def)
next
  case (dialed s c u)
  then have ok: "handlers_ok (sv_conns s) (sv_handlers s)" by (simp add: server_inv_def)
  have "handlers_ok (sv_conns s) ((sv_handlers s)(c \<mapsto> Dialed u))"
    using ok dialed.hyps handlers_okD(1) [OF ok dialed.hyps(1)] fresh_ups [OF dialed.hyps(2)]
    by (intro ok_upd) (auto simp: fresh_def)
  then show ?case using dialed owned_upd [of "sv_handlers s" _ c] owned_self(2)
    by (auto simp: server_inv_def set_phase_def fresh_def)
next
  case (upstream s c u)
  then have ok: "handlers_ok (sv_conns s) (sv_handlers s)" by (simp add: server_inv_def)
  have c: "c \<in> sv_conns s" and u: "sv_handlers s u = None"
    using handlers_okD(1,3) [OF ok upstream.hyps] by auto
  show ?case
  proof (cases "sv_closed s")
    case True
    have "handlers_ok (sv_conns s) ((sv_handlers s)(c \<mapsto> Closing))"
      using ok upstream.hyps c by (intro ok_upd) auto
    then show ?thesis using True upstream owned_upd [of "sv_handlers s" _ c]
      by (auto simp: server_inv_def server_ops)
  next
    case False
    have "handlers_ok (insert u (sv_conns s)) ((sv_handlers s)(c \<mapsto> Relaying u))"
      using ok_mono [OF ok] upstream.hyps c u handlers_okD(4) [OF ok upstream.hyps]
      by (intro ok_upd) auto
    then show ?thesis using False upstream owned_upd [of "sv_handlers s" _ c]
      by (auto simp: server_inv_def server_ops)
  qed
next
  case (relayed s c u)
  then have ok: "handlers_ok (sv_conns s) (sv_handlers s)" by (simp add: server_inv_def)
  have c: "c \<in> sv_conns s" and u: "sv_handlers s u = None" "u \<noteq> c"
    using handlers_okD(1,3) [OF ok relayed.hyps] relayed.hyps by auto
  have ok1: "handlers_ok (sv_conns s) ((sv_handlers s)(c \<mapsto> Closing))"
    using ok relayed.hyps c by (intro ok_upd) auto
  have "handlers_ok (sv_conns s - {u}) ((sv_handlers s)(c \<mapsto> Closing))"
    using handlers_okD(4) [OF ok relayed.hyps] u by (intro ok_drop [OF ok1]) (auto split: if_splits)
  then show ?case using relayed owned_upd [of "sv_handlers s" _ c]
    by (auto simp: server_inv_def server_ops)
next
  case (finish s c)
  then have ok: "handlers_ok (sv_conns s) (sv_handlers s)" by (simp add: server_inv_def)
  have "handlers_ok (sv_conns s - {c}) ((sv_handlers s)(c := None))"
    by (rule ok_del [OF ok]) (auto dest: busy_ups [OF ok finish.hyps])
  then show ?case using finish owned_del [of "sv_handlers s" _ c]
    by (auto simp: server_inv_def server_ops)
next
  case (shutdown s)
  then show ?case by (auto simp: server_inv_def Shutdown_def)
qed

lemma server_reachable_inv: "server_reachable s \<Longrightarrow> server_inv s"
proof (induction rule: server_reachable.induct)
  case init
  show ?case by (simp add: server_inv_def NewServer_def handlers_ok_def)
qed (rule server_step_inv)

lemma closed_open:
  assumes "server_inv s" "sv_closed s" "x \<in> sv_open s"
  shows "sv_handlers s x = Some Accepted \<or> (\<exists>c. sv_handlers s c = Some (Dialed x))"
proof -
  from assms have ok: "handlers_ok (sv_conns s) (sv_handlers s)" and x: "x \<notin> sv_conns s"
    and "owned (sv_handlers s) x" by (auto simp: server_inv_def)
  then obtain c ph where c: "sv_handlers s c = Some ph" and "x = c \<or> x \<in> ups ph" by (auto simp: owned_def)
  then consider "x = c" | "x \<in> ups ph" by blast
  then show ?thesis
  proof cases
    case 1
    then show ?thesis using handlers_okD(1) [OF ok c] x c by auto
  next
    case 2
    then show ?thesis using handlers_okD(2) [OF ok c] x c by (cases ph) auto
  qed
qed

section \<open>What dial relies on\<close>

text \<open>
  The contract of a routing table, as \<open>dial\<close> uses it: a destination no route claims is
  direct; one that a route claims is direct while that route may be bypassed, and goes to the
  route's upstream otherwise.
\<close>

locale routing_policy =
  fixes claimed :: "string \<Rightarrow> (string \<times> string) option"
    and bypass :: "string \<Rightarrow> bool"
    and decide :: "string \<Rightarrow> decision"
  assumes unclaimed: "claimed h = None \<Longrightarrow> d_Upstream (decide h) = []"
    and claimed_bypass: "claimed h = Some (r, up) \<Longrightarrow> bypass r \<Longrightarrow> d_Upstream (decide h) = []"
    and claimed_tunnel: "claimed h = Some (r, up) \<Longrightarrow> \<not> bypass r \<Longrightarrow> d_Upstream (decide h) = up \<and> up \<noteq> []"
begin

lemma dial_tunnel:
  assumes "claimed h = Some (r, up)" "\<not> bypass r"
  shows "fst (dial decide tcp h p) = up"
    and "tcp up = Inl e \<Longrightarrow> snd (dial decide tcp h p) = Inl (SocksError 1 (Wrapped e))"
    and "tcp up = Inr c \<Longrightarrow> snd (dial decide tcp h p) =
      (case socksConnect h p c of (Inl e, _) \<Rightarrow> Inl e | (Inr _, c') \<Rightarrow> Inr c')"
  using claimed_tunnel [OF assms] by (simp_all add: dial_def Let_def)

lemma dial_direct:
  assumes "case claimed h of None \<Rightarrow> True | Some (r, up) \<Rightarrow> bypass r"
  shows "dial decide tcp h p = (join_host_port h (itoa p), tcp (join_host_port h (itoa p)))"
  using assms unclaimed claimed_bypass by (auto simp: dial_def Let_def split: option.splits)

lemma dial_address:
  "fst (dial decide tcp h p) =
     (case claimed h of
        Some (r, up) \<Rightarrow> if bypass r then join_host_port h (itoa p) else up
      | None \<Rightarrow> join_host_port h (itoa p))"
  using dial_tunnel(1) dial_direct by (auto split: option.splits)

end

interpretation tbl: routing_policy "table_match uni (NewTable uni routes)"
  "\<lambda>r. needed r = Some False" "Decide uni (Update needed (NewTable uni routes))"
  for uni routes needed
proof
  have m: "table_match uni (Update needed (NewTable uni routes)) h = table_match uni (NewTable uni routes) h" for h
    by (simp add: table_match_def Update_def)
  have n: "t_proxyNeeded (Update needed (NewTable uni routes)) = needed" by (simp add: Update_def)
  show "d_Upstream (Decide uni (Update needed (NewTable uni routes)) h) = []"
    if "table_match uni (NewTable uni routes) h = None" for h
    using that by (simp add: Decide_def m)
  show "d_Upstream (Decide uni (Update needed (NewTable uni routes)) h) = []"
    if "table_match uni (NewTable uni routes) h = Some (r, up)" "needed r = Some False" for h r up
    using that by (simp add: Decide_def m n)
  show "d_Upstream (Decide uni (Update needed (NewTable uni routes)) h) = up \<and> up \<noteq> []"
    if "table_match uni (NewTable uni routes) h = Some (r, up)" "needed r \<noteq> Some False" for h r up
    using that table_match_upstream by (simp add: Decide_def m n)
qed

section \<open>Properties\<close>

text \<open>
  The address the front-door proxy dials is the upstream of the first route that claims
  the destination, unless that route is recorded as direct; and when the tunnel is down the
  request fails with a general failure: it never falls back to dialling the destination itself.
\<close>

theorem tunnelled_destination_never_dialled_directly:
  assumes "table_match uni (NewTable uni routes) host = Some (name, up)" "needed name \<noteq> Some False"
    and "tcp up = Inl e"
  shows "dial (Decide uni (Update needed (NewTable uni routes))) tcp host port =
      (up, Inl (SocksError 1 (Wrapped e))) \<and>
    replyCode (SocksError 1 (Wrapped e)) = 1"
  using tbl.dial_tunnel(1,2) [where needed = needed and tcp = tcp and p = port, OF assms(1)] assms(2,3)
  by (simp add: prod_eq_iff replyCode_def)

theorem tunnelled_destination_never_dialled_directly_witness:
  "dial (Decide id (Update (\<lambda>_. None) (NewTable id [wiki_route])))
     (\<lambda>a. if a = ''127.0.0.1:1080'' then Inl (OpError False ConnRefused) else Inr \<lparr>c_in = [], c_out = [], c_room = 0\<rparr>)
     ''10.20.3.4'' 22 = (''127.0.0.1:1080'', Inl (SocksError 1 (Wrapped (OpError False ConnRefused)))) \<and>
   replyCode (SocksError 1 (Wrapped (OpError False ConnRefused))) = 1"
proof (rule tunnelled_destination_never_dialled_directly)
  show "table_match id (NewTable id [wiki_route]) ''10.20.3.4'' = Some (''home'', ''127.0.0.1:1080'')"
    by code_simp
qed simp_all

lemma write_ignore_fits:
  "length bs \<le> c_room c \<Longrightarrow>
     write_ignore bs c = c\<lparr>c_out := c_out c @ bs, c_room := c_room c - length bs\<rparr>"
  by (simp add: write_ignore_def write_all_def)

text \<open>
  Claim C10. A SOCKS session through a tunnel is transparent for a host name: if the route's ssh
  forward accepts, it has been sent exactly the greeting, the client's own request and, without
  a byte lost or added, all the data the client sent after its request; and the client has been
  sent the method, one success reply and exactly what the destination sent.
\<close>

theorem tunnel_session_transparent:
  assumes name: "parse_addr host = None" "length host \<le> 255" and port: "0 \<le> port" "port < 65536"
    and req: "connect_request host port = Inr req"
    and decide: "d_Upstream (decide host) = up" "up \<noteq> []"
    and tcp: "tcp up = Inr \<lparr>c_in = [5, 0] @ [v, 0, rsv, atyp] @ bound @ pb @ answer, c_out = [], c_room = m\<rparr>"
    and bound: "addr_field atyp bound h" "length pb = 2"
    and room: "3 + length req + length payload \<le> m" "12 + length answer \<le> n"
  shows "handleSocks decide tcp False
      \<lparr>c_in = [5, 1, 0] @ req @ payload, c_out = [], c_room = n\<rparr> =
    Relayed \<lparr>c_in = [], c_out = [5, 0] @ socks_reply 0 @ answer, c_room = n - 12 - length answer\<rparr>
      \<lparr>c_in = [], c_out = [5, 1, 0] @ req @ payload, c_room = m - (3 + length req) - length payload\<rparr>"
proof -
  let ?c = "\<lparr>c_in = payload, c_out = [5, 0], c_room = n - 2\<rparr>"
  let ?u = "\<lparr>c_in = answer, c_out = [5, 1, 0] @ req, c_room = m - (3 + length req)\<rparr>"
  have host: "wire_host host = host" by (simp add: wire_host_def name)
  have r: "readSocksRequest \<lparr>c_in = [5, 1, 0] @ req @ payload, c_out = [], c_room = n\<rparr> = (Inr (host, nat port), ?c)"
    using readSocksRequest_roundtrip [OF req port, of n payload "[]"] room(2) by (simp add: host)
  have s: "socksConnect host port \<lparr>c_in = [5, 0] @ [v, 0, rsv, atyp] @ bound @ pb @ answer, c_out = [], c_room = m\<rparr>
      = (Inr (), ?u)"
    unfolding socksConnect_Inr using req room(1) bound
    by (intro exI [of _ req] exI [of _ v] exI [of _ rsv] exI [of _ atyp] exI [of _ bound] exI [of _ h]
        exI [of _ pb] exI [of _ answer]) simp
  have d: "snd (dial decide tcp host (int (nat port))) = Inr ?u"
    using decide tcp port s by (simp add: dial_def Let_def)
  have w: "writeSocksReply 0 ?c = \<lparr>c_in = payload, c_out = [5, 0] @ socks_reply 0, c_room = n - 12\<rparr>"
    using room(2) by (simp add: writeSocksReply_def write_ignore_fits socks_reply_def)
  have "handleSocks decide tcp False \<lparr>c_in = [5, 1, 0] @ req @ payload, c_out = [], c_room = n\<rparr>
      = relay (writeSocksReply 0 ?c) ?u"
    by (simp only: handleSocks_def r prod.case sum.case d if_False)
  then show ?thesis using room by (simp only: w) (simp add: relay_def copy_to_def write_ignore_fits)
qed

lemma char_of_97: "char_of (97 :: nat) = CHR ''a''"
  by code_simp

definition wiki_request :: "byte list" where
  "wiki_request = [5, 1, 0, 3, 8] @ bytes_of_string ''wiki.lan'' @ port_bytes 443"

theorem tunnel_session_transparent_witness:
  "handleSocks (\<lambda>_. \<lparr>d_Route = ''home'', d_Upstream = ''127.0.0.1:1080''\<rparr>)
     (\<lambda>_. Inr \<lparr>c_in = [5, 0] @ [5, 0, 0, 3] @ [1, 97] @ [0, 80] @ [72, 105], c_out = [], c_room = 100\<rparr>)
     False \<lparr>c_in = [5, 1, 0] @ wiki_request @ [22, 3], c_out = [], c_room = 50\<rparr> =
   Relayed \<lparr>c_in = [], c_out = [5, 0] @ socks_reply 0 @ [72, 105], c_room = 50 - 12 - length [72, 105 :: byte]\<rparr>
     \<lparr>c_in = [], c_out = [5, 1, 0] @ wiki_request @ [22, 3],
      c_room = 100 - (3 + length wiki_request) - length [22, 3 :: byte]\<rparr>"
proof (rule tunnel_session_transparent [where h = "''a''" and host = "''wiki.lan''" and port = 443
      and up = "''127.0.0.1:1080''" and pb = "[0, 80]"])
  show "parse_addr ''wiki.lan'' = None" by (rule parse_addr_example_host)
  show "connect_request ''wiki.lan'' 443 = Inr wiki_request"
    by (simp add: connect_request_def parse_addr_example_host wiki_request_def)
  show "addr_field 3 [1, 97] ''a''"
    by (simp add: addr_field_def string_of_bytes_def char_of_97)
qed ((simp_all add: wiki_request_def)+)

lemma writeSocksReply_eq:
  "writeSocksReply rc c = c\<lparr>c_out := c_out c @ take (c_room c) (socks_reply rc), c_room := c_room c - 10\<rparr>"
  by (simp add: writeSocksReply_def write_ignore_def write_all_def socks_reply_def)

lemma handle_socks_failed:
  assumes "c_in client = socksVersion # rest0" "readSocksRequest client = (Inr (host, port), client')"
    and "snd (dial decide tcp host (int port)) = Inl e"
  shows "handle rr err_text decide tcp shut client = Closed (writeSocksReply (replyCode e) client')"
  using assms by (simp add: handle_def handleSocks_def)



lemma plain_host_itoa: "plain_host (itoa i)"
  using itoa_chars [of _ i] by (fastforce simp: plain_host_def is_digit_def)

text \<open>
  The target of a CONNECT request is read back as it was written: for a host without
  brackets and colons, or an IPv6 literal, and a port from 1 to 65535, \<open>handleHTTP\<close> dials the
  host and port that \<open>net.JoinHostPort\<close> wrote; any other port is rejected.
\<close>

theorem connect_target_roundtrip:
  assumes "plain_host host"
  shows "connect_target (join_host_port host (itoa port)) =
    (if 1 \<le> port \<and> port \<le> 65535 then Some (host, port) else None)"
proof -
  have "split_host_port (join_host_port host (itoa port)) = Inr (host, itoa port)"
    using assms by (intro split_join_host_port) (simp_all add: plain_host_itoa)
  moreover have "1 \<le> port \<and> port \<le> 65535 \<Longrightarrow> int_range port" by (simp add: int_range_def)
  ultimately show ?thesis by (auto simp: connect_target_def atoi_itoa_eq)
qed

theorem connect_target_roundtrip_witness:
  "connect_target (join_host_port ''fd00::1'' (itoa 443)) = Some (''fd00::1'', 443)"
  using connect_target_roundtrip [of "''fd00::1''" 443] by (simp add: plain_host_def)

text \<open>
  Once \<open>Shutdown\<close> has run, in every interleaving with handlers that are accepting,
  dialling or relaying, the only connections still open are a client that \<open>serve\<close> is about to
  reject and an upstream whose dial has just finished, and the next step of that handler closes
  it; no relay stays open, and when the last handler has ended nothing is open.
\<close>

theorem shutdown_closes_everything:
  assumes "server_reachable s" "sv_closed s"
  shows "(\<forall>x \<in> sv_open s.
      sv_handlers s x = Some Accepted \<and> x \<notin> sv_open (serve_accepted x s) \<or>
      (\<exists>c. sv_handlers s c = Some (Dialed x) \<and> x \<notin> sv_open (track_upstream c x s))) \<and>
    (sv_handlers s = (\<lambda>_. None) \<longrightarrow> sv_open s = {})"
proof -
  note open_ = closed_open [OF server_reachable_inv [OF assms(1)] assms(2)]
  have "x \<notin> sv_open (serve_accepted x s)" "x \<notin> sv_open (track_upstream c x s)" for x c
    using assms(2) by (simp_all add: server_ops)
  then show ?thesis using open_ by fastforce
qed

definition shut_while_accepting :: server where
  "shut_while_accepting =
     Shutdown (set_phase 0 (Some Accepted) ((Start NewServer)\<lparr>sv_open := {0}\<rparr>))"

lemma shut_while_accepting_reachable: "server_reachable shut_while_accepting"
proof -
  have s1: "server_reachable (Start NewServer)"
    by (rule server_reachable.step [OF server_reachable.init server_step.start]) (simp add: NewServer_def)
  have "server_step (Start NewServer)
      (set_phase 0 (Some Accepted) ((Start NewServer)\<lparr>sv_open := insert 0 (sv_open (Start NewServer))\<rparr>))"
    by (rule server_step.accept) (simp_all add: Start_def NewServer_def fresh_def)
  then have "server_reachable (set_phase 0 (Some Accepted) ((Start NewServer)\<lparr>sv_open := {0}\<rparr>))"
    using server_reachable.step [OF s1] by (simp add: Start_def NewServer_def)
  then show ?thesis unfolding shut_while_accepting_def
    by (rule server_reachable.step [OF _ server_step.shutdown])
qed

theorem shutdown_closes_everything_witness:
  "0 \<in> sv_open shut_while_accepting \<and> 0 \<notin> sv_open (serve_accepted 0 shut_while_accepting)"
proof -
  have "sv_closed shut_while_accepting" "0 \<in> sv_open shut_while_accepting"
    "sv_handlers shut_while_accepting c \<noteq> Some (Dialed 0)" for c
    by (simp_all add: shut_while_accepting_def server_ops NewServer_def)
  with shutdown_closes_everything [OF shut_while_accepting_reachable] show ?thesis by blast
qed

end
