(* ===== verification/StateStore.thy ===== *)
theory StateStore
  imports Paths Tunnel
begin

text \<open>
  \<open>internal/state\<close>: the notification cooldown (\<open>cooldown.go\<close>) and the state file
  (\<open>state.go\<close>). Times are nanoseconds since Go's zero time; \<open>Sub\<close> saturates. JSON
  encoding and decoding and the environment are parameters.
\<close>

section \<open>The state\<close>

type_synonym time = int

record state =
  st_Notifications :: "string \<rightharpoonup> time"
  st_SocksAddrs :: "string \<rightharpoonup> string"

definition empty_state :: state where
  "empty_state = \<lparr>st_Notifications = (\<lambda>_. None), st_SocksAddrs = (\<lambda>_. None)\<rparr>"

section \<open>cooldown.go\<close>

definition time_sub :: "time \<Rightarrow> time \<Rightarrow> int" where
  "time_sub a b = max (- (2 ^ 63)) (min (2 ^ 63 - 1) (a - b))"

definition ShouldNotify :: "state \<Rightarrow> string \<Rightarrow> time \<Rightarrow> duration \<Rightarrow> bool" where
  "ShouldNotify st category now cooldown =
     (case st_Notifications st category of
        None \<Rightarrow> True
      | Some last_notified \<Rightarrow>
          if last_notified = 0 then True else sint cooldown \<le> time_sub now last_notified)"

definition RecordNotified :: "state \<Rightarrow> string \<Rightarrow> time \<Rightarrow> state" where
  "RecordNotified st category now = st\<lparr>st_Notifications := (st_Notifications st)(category \<mapsto> now)\<rparr>"

section \<open>state.go\<close>

text \<open>\<open>XDG_STATE_HOME\<close> and the home directory.\<close>

definition state_FilePath :: "string \<Rightarrow> string option \<Rightarrow> string option" where
  "state_FilePath xdg home =
     (if xdg \<noteq> [] then Some (path_join [xdg, ''ssh-autoproxy'', ''state.json''])
      else map_option (\<lambda>h. path_join [h, ''.local'', ''state'', ''ssh-autoproxy'', ''state.json'']) home)"

text \<open>
  \<open>Load\<close>: \<open>decode\<close> overlays the file on the empty state; a \<open>null\<close> map of notifications is the
  empty map here.
\<close>

definition state_Load ::
  "string option \<Rightarrow> (string \<Rightarrow> read_result) \<Rightarrow> (string \<Rightarrow> state \<Rightarrow> state option) \<Rightarrow> string \<Rightarrow> state option"
where
  "state_Load filePath readFile decode path =
     (case (if path = [] then filePath else Some path) of
        None \<Rightarrow> None
      | Some p \<Rightarrow>
          (case readFile p of
             NotExist \<Rightarrow> Some empty_state
           | ReadError _ \<Rightarrow> None
           | Data d \<Rightarrow> decode d empty_state))"

text \<open>
  \<open>Save\<close>: the states of the file system it goes through, from the one before. Without a path,
  a directory or an encoding it returns early; an error of the write or the rename, or a process
  killed on the way, leaves it in one of the states of the sequence.
\<close>

definition state_tmp :: "string \<Rightarrow> string" where
  "state_tmp path = path @ ''.tmp''"

definition Save ::
  "string option \<Rightarrow> (string \<Rightarrow> bool) \<Rightarrow> (state \<Rightarrow> string option) \<Rightarrow> string \<Rightarrow> state \<Rightarrow> fs \<Rightarrow> fs list"
where
  "Save filePath mkdirAll marshal path st fs =
     (case (if path = [] then filePath else Some path) of
        None \<Rightarrow> [fs]
      | Some p \<Rightarrow>
          if \<not> mkdirAll (path_dir p) then [fs]
          else (case marshal st of
              None \<Rightarrow> [fs]
            | Some d \<Rightarrow> replace_states (state_tmp p) p d fs))"

lemma state_tmp_neq [simp]: "state_tmp path \<noteq> path"
  by (simp add: state_tmp_def)

lemma Save_atomic:
  "path \<noteq> [] \<Longrightarrow> fs' \<in> set (Save fp mk enc path st fs) \<Longrightarrow> fs' path = fs path \<or> fs' path = enc st"
  using replace_states_atomic [OF state_tmp_neq, of fs' path _ fs]
  by (auto simp: Save_def split: if_splits option.splits)

lemma Save_last:
  "path \<noteq> [] \<Longrightarrow> mk (path_dir path) \<Longrightarrow> enc st = Some d \<Longrightarrow>
   last (Save fp mk enc path st fs) = (fs(path \<mapsto> d))(state_tmp path := None)"
  by (simp add: Save_def replace_states_last)

section \<open>The contract of the cooldown\<close>

text \<open>
  What \<open>handleErrorCategory\<close> relies on: recording a notification silences its category until
  the cooldown has passed and no other category.
\<close>

locale cooldown_store =
  fixes should :: "'s \<Rightarrow> 'k \<Rightarrow> time \<Rightarrow> duration \<Rightarrow> bool"
    and record_at :: "'s \<Rightarrow> 'k \<Rightarrow> time \<Rightarrow> 's"
  assumes should_record: "now \<noteq> 0 \<Longrightarrow> should (record_at s k now) k now' cd \<longleftrightarrow> sint cd \<le> time_sub now' now"
    and should_other: "k' \<noteq> k \<Longrightarrow> should (record_at s k now) k' now' cd = should s k' now' cd"
begin

text \<open>A sequence of failures: the ones that are notified, with the state afterwards.\<close>

fun notified :: "duration \<Rightarrow> 's \<Rightarrow> ('k \<times> time) list \<Rightarrow> ('k \<times> time) list" where
  "notified cd s [] = []"
| "notified cd s ((k, now) # es) =
     (if should s k now cd then (k, now) # notified cd (record_at s k now) es else notified cd s es)"

lemma notified_sub: "set (notified cd s es) \<subseteq> set es"
  by (induction cd s es rule: notified.induct) auto

lemma notified_silent:
  assumes "sorted (map snd es)" "\<forall>e \<in> set es. t0 \<le> snd e" "t0 \<noteq> 0"
    and "\<And>now cd. should s k now cd \<longleftrightarrow> sint cd \<le> time_sub now t0"
    and "(k, t) \<in> set (notified cd s es)"
  shows "sint cd \<le> time_sub t t0"
  using assms
proof (induction cd s es rule: notified.induct)
  case (2 cd s k' now es)
  show ?case
  proof (cases "should s k' now cd")
    case False
    with 2 show ?thesis by simp
  next
    case True
    show ?thesis
    proof (cases "k' = k")
      case eq: True
      then have "sint cd \<le> time_sub now t0" using True "2.prems"(4) by simp
      moreover have "t = now \<or> (k, t) \<in> set es"
        using "2.prems"(5) True notified_sub [of cd "record_at s k' now" es] by auto
      then have "now \<le> t" using "2.prems"(1) by fastforce
      ultimately show ?thesis by (auto simp: time_sub_def)
    next
      case neq: False
      with True 2 show ?thesis by (simp add: should_other)
    qed
  qed
qed simp

text \<open>Two notifications of one category are at least the cooldown apart.\<close>

lemma notified_spaced:
  assumes "sorted (map snd es)" "\<forall>e \<in> set es. snd e \<noteq> 0"
    and "notified cd s es = xs @ (k, t1) # ys @ (k, t2) # zs"
  shows "sint cd \<le> time_sub t2 t1"
  using assms
proof (induction cd s es arbitrary: xs rule: notified.induct)
  case (2 cd s k' now es)
  show ?case
  proof (cases "should s k' now cd")
    case False
    with 2 show ?thesis by simp
  next
    case True
    show ?thesis
    proof (cases xs)
      case Nil
      then have eq: "k' = k" "now = t1" and rest: "notified cd (record_at s k' now) es = ys @ (k, t2) # zs"
        using True "2.prems"(3) by auto
      show ?thesis
        using "2.prems"(1,2) rest eq should_record [of t1 s k]
        by (intro notified_silent [of es t1 "record_at s k t1" k t2]) auto
    next
      case (Cons x xs')
      then have "notified cd (record_at s k' now) es = xs' @ (k, t1) # ys @ (k, t2) # zs"
        using True "2.prems"(3) by simp
      with 2 True show ?thesis by simp
    qed
  qed
qed simp

end

interpretation cool: cooldown_store ShouldNotify RecordNotified
  by unfold_locales (auto simp: ShouldNotify_def RecordNotified_def)

section \<open>The state file\<close>

text \<open>Reading the file \<open>p\<close> of a file system.\<close>

definition fs_read :: "fs \<Rightarrow> string \<Rightarrow> read_result" where
  "fs_read fs p = (case fs p of None \<Rightarrow> NotExist | Some d \<Rightarrow> Data d)"

text \<open>
  Claim C38. Saving the state is atomic for other processes: whichever error cuts \<open>Save\<close> short, or
  wherever its process is killed or another one reads in between, a process that loads the state file
  finds what it held before or the whole new state, never a truncated one, as long as the decoder reads
  back what the encoder wrote; and a \<open>Save\<close> that runs to its end leaves the new state and no temporary
  file. The system itself has to stay up: \<open>unsynced_save_can_truncate\<close>.
\<close>

theorem save_is_atomic:
  assumes "path \<noteq> []" "marshal st = Some d" "unmarshal d empty_state = Some st" "mkdirAll (path_dir path)"
  shows "(\<forall>fs' \<in> set (Save filePath mkdirAll marshal path st fs).
      state_Load filePath (fs_read fs') unmarshal path = state_Load filePath (fs_read fs) unmarshal path \<or>
      state_Load filePath (fs_read fs') unmarshal path = Some st) \<and>
    state_Load filePath (fs_read (last (Save filePath mkdirAll marshal path st fs))) unmarshal path = Some st \<and>
    last (Save filePath mkdirAll marshal path st fs) (state_tmp path) = None"
proof -
  have load: "state_Load filePath (fs_read fs') unmarshal path =
      (case fs' path of None \<Rightarrow> Some empty_state | Some d \<Rightarrow> unmarshal d empty_state)" for fs'
    using assms(1) by (simp add: state_Load_def fs_read_def split: option.splits)
  have "(case fs' path of None \<Rightarrow> Some empty_state | Some x \<Rightarrow> unmarshal x empty_state) =
      (case fs path of None \<Rightarrow> Some empty_state | Some x \<Rightarrow> unmarshal x empty_state) \<or>
      (case fs' path of None \<Rightarrow> Some empty_state | Some x \<Rightarrow> unmarshal x empty_state) = Some st"
    if "fs' \<in> set (Save filePath mkdirAll marshal path st fs)" for fs'
    using Save_atomic [OF assms(1) that] assms(2,3) by auto
  moreover have "last (Save filePath mkdirAll marshal path st fs) = (fs(path \<mapsto> d))(state_tmp path := None)"
    using assms by (intro Save_last)
  ultimately show ?thesis
    using assms(3) state_tmp_neq [of path] state_tmp_neq [of path, symmetric] by (simp add: load)
qed

theorem save_is_atomic_witness:
  "state_Load None (fs_read (last (Save None (\<lambda>_. True) (\<lambda>_. Some ''{}'') ''/s/state.json'' empty_state
     [''/s/state.json'' \<mapsto> ''x'']))) (\<lambda>d _. if d = ''{}'' then Some empty_state else None) ''/s/state.json'' =
   Some empty_state"
  using save_is_atomic [of "''/s/state.json''" "\<lambda>_. Some ''{}''" empty_state "''{}''"
      "\<lambda>d _. if d = ''{}'' then Some empty_state else None" "\<lambda>_. True" None "[''/s/state.json'' \<mapsto> ''x'']"]
  by simp

section \<open>Power loss\<close>

text \<open>
  \<open>Save\<close> never syncs the file before it renames it, so after a power loss the new name may be on
  disk and only part of the data: the file systems that can be found when it is lost with \<open>fs\<close> in memory
  and the data of \<open>p\<close> not yet written back.
\<close>

definition power_loss :: "string \<Rightarrow> fs \<Rightarrow> fs set" where
  "power_loss p fs = (case fs p of None \<Rightarrow> {fs} | Some d \<Rightarrow> {fs(p \<mapsto> take k d) | k. k \<le> length d})"

text \<open>
  The state file a completed \<open>Save\<close> leaves can then be empty, which the decoder of JSON rejects, so
  that the state does not load, and the daemon does not start while the file is there
  (\<open>startup_failure\<close>).
\<close>

theorem unsynced_save_can_truncate:
  assumes "path \<noteq> []" "marshal st = Some d" "mkdirAll (path_dir path)" "unmarshal [] empty_state = None"
  shows "\<exists>fs' \<in> power_loss path (last (Save filePath mkdirAll marshal path st fs)).
    state_Load filePath (fs_read fs') unmarshal path = None"
proof -
  have last: "last (Save filePath mkdirAll marshal path st fs) = (fs(path \<mapsto> d))(state_tmp path := None)"
    using assms by (intro Save_last)
  let ?fs = "((fs(path \<mapsto> d))(state_tmp path := None))(path \<mapsto> take 0 d)"
  have "?fs \<in> power_loss path (last (Save filePath mkdirAll marshal path st fs))"
    unfolding last power_loss_def using state_tmp_neq [of path, symmetric] by (auto intro!: exI [of _ 0])
  moreover have "state_Load filePath (fs_read ?fs) unmarshal path = None"
    using assms(1,4) by (simp add: state_Load_def fs_read_def)
  ultimately show ?thesis by blast
qed

theorem unsynced_save_can_truncate_witness:
  "\<exists>fs' \<in> power_loss ''/s/state.json'' (last (Save None (\<lambda>_. True) (\<lambda>_. Some ''{}'') ''/s/state.json'' empty_state
     (\<lambda>_. None))). state_Load None (fs_read fs') (\<lambda>d _. if d = ''{}'' then Some empty_state else None) ''/s/state.json'' = None"
  by (rule unsynced_save_can_truncate) simp_all

end
