(* ===== verification/Daemon.thy ===== *)
theory Daemon
  imports NetState Supervisor Pac ProxyServer StateStore
begin

text \<open>
  \<open>internal/daemon/daemon.go\<close>, the run of the daemon for one configuration (\<open>runOnce\<close>): its
  start with the early returns, \<open>applyState\<close>, the cases of the main loop, the notification of
  errors and the shutdown. Each case of the \<open>select\<close> is one event; a goroutine of a supervisor
  may take a step between any two. The outside world (the result of \<open>netstate.Query\<close>, the clock,
  whether a listener can be bound) comes with the event.
\<close>

section \<open>Helpers\<close>

definition needs_proxy :: "net_state \<Rightarrow> route \<Rightarrow> bool" where
  "needs_proxy ns r = snd (Evaluate (r_DirectProfiles r) ns)"

definition front_addr :: "config \<Rightarrow> string" where
  "front_addr cfg =
     (if px_Enabled (c_Proxy cfg) then join_host_port (px_Bind (c_Proxy cfg)) (itoa (px_Port (c_Proxy cfg)))
      else [])"

definition socksAddrs :: "route list \<Rightarrow> (string \<rightharpoonup> string)" where
  "socksAddrs routes =
     foldl (\<lambda>m r. case r_SocksProxy r of None \<Rightarrow> m | Some sp \<Rightarrow> m(r_Name r \<mapsto> upstream_addr sp))
       (\<lambda>_. None) routes"

text \<open>The directory \<open>ensureControlDir\<close> creates.\<close>

definition control_dir :: "string option \<Rightarrow> string \<Rightarrow> string" where
  "control_dir home controlPath =
     path_dir (case home of
         Some h \<Rightarrow> if has_prefix controlPath ''~/'' then path_join [h, drop 2 controlPath] else controlPath
       | None \<Rightarrow> controlPath)"

definition describeCategory :: "bool \<Rightarrow> ErrorCategory \<Rightarrow> string" where
  "describeCategory auth_sock_set cat =
     (case cat of
        CategoryAuthPublicKey \<Rightarrow>
          ''Permission denied (publickey) connecting to the jump host. Check ssh-add / your key.'' @
          (if auth_sock_set then []
           else '' (daemon has no SSH_AUTH_SOCK '' @ em_dash @
             '' try '' @ [CHR 0x60] @ ''systemctl --user restart ssh-autoproxy'' @ [CHR 0x60] @ '')'')
      | CategoryAuthAgent \<Rightarrow> ''Could not reach your SSH agent. Is it running?''
      | CategoryHostKeyVerification \<Rightarrow> ''Host key verification failed for the jump host.''
      | CategoryHostKeyChanged \<Rightarrow> ''WARNING: the jump host'' @ [CHR 0x27] @ ''s identification has changed.'')"

definition notify_key :: "string \<Rightarrow> ErrorCategory \<Rightarrow> string" where
  "notify_key routeName cat = routeName @ '':'' @ category_string cat"

text \<open>What the main loop does to the outside besides its components.\<close>

datatype daemon_effect = SaveState state | SendNotification string string

definition handleErrorCategory ::
  "bool \<Rightarrow> notify_config \<Rightarrow> time \<Rightarrow> string \<Rightarrow> ErrorCategory \<Rightarrow> state \<Rightarrow> state \<times> daemon_effect list"
where
  "handleErrorCategory auth_sock_set nt now routeName cat st =
     (let category = notify_key routeName cat in
      if \<not> nt_Enabled nt then (st, [])
      else if \<not> ShouldNotify st category now (nt_Cooldown nt) then (st, [])
      else (let st' = RecordNotified st category now
            in (st', [SaveState st',
                 SendNotification (''ssh-autoproxy: '' @ routeName) (describeCategory auth_sock_set cat)])))"

section \<open>applyState\<close>

text \<open>
  The loop over the supervisors (\<open>ss\<close>, one per route of \<open>rs\<close>): the new supervisors, the last
  known and the fresh decisions, and whether anything changed.
\<close>

fun apply_routes ::
  "net_state \<Rightarrow> route list \<Rightarrow> supervisor list \<Rightarrow> (string \<rightharpoonup> bool) \<Rightarrow> (string \<rightharpoonup> bool) \<Rightarrow> bool \<Rightarrow>
   supervisor list \<times> (string \<rightharpoonup> bool) \<times> (string \<rightharpoonup> bool) \<times> bool"
where
  "apply_routes ns (r # rs) (s # ss) prev decisions changed =
     (let proxyNeeded = needs_proxy ns r;
          decisions' = decisions(r_Name r \<mapsto> proxyNeeded);
          differs = (prev (r_Name r) \<noteq> Some proxyNeeded);
          prev' = (if differs then prev(r_Name r \<mapsto> proxyNeeded) else prev);
          s' = Ensure (proxyNeeded \<or> r_KeepTunnelWhenDirect r) s;
          (ss', result) = apply_routes ns rs ss prev' decisions' (changed \<or> differs)
      in (s' # ss', result))"
| "apply_routes ns rs ss prev decisions changed = ([], prev, decisions, changed)"

record daemon =
  d_sups :: "supervisor list"
  d_table :: "table option"
  d_pac :: pac_server
  d_last :: "string \<rightharpoonup> bool"
  d_state :: state
  d_server :: "server option"
  d_recheck :: bool
  d_pending :: bool
  d_timer :: bool
  d_effects :: "daemon_effect list"

definition applyState ::
  "(nat \<Rightarrow> bool) \<Rightarrow> config \<Rightarrow> string + net_state \<Rightarrow> daemon \<Rightarrow> daemon"
where
  "applyState is_print cfg query d =
     (case query of
        Inl _ \<Rightarrow> d
      | Inr ns \<Rightarrow>
          (let (sups, prev, decisions, changed) =
             apply_routes ns (c_Routes cfg) (d_sups d) (d_last d) (\<lambda>_. None) False
           in d\<lparr>d_sups := sups,
                d_last := prev,
                d_table := map_option (Update decisions) (d_table d),
                d_pac := (if changed \<and> pac_Enabled (c_PAC cfg)
                          then PacUpdate (Generate is_print (c_Routes cfg) decisions (front_addr cfg)) (d_pac d)
                          else d_pac d)\<rparr>))"

section \<open>runOnce\<close>

datatype startup_error = ControlDirFailed | StateLoadFailed | PacBindFailed | ProxyBindFailed

text \<open>
  The start: \<open>Inl\<close> an early return, with the PAC server as it is left behind. The state is
  loaded, or not; each listener can be bound, or not.
\<close>

definition runOnce_start ::
  "(nat \<Rightarrow> bool) \<Rightarrow> (string \<Rightarrow> string) \<Rightarrow> config \<Rightarrow> bool \<Rightarrow> state option \<Rightarrow> bool \<Rightarrow> bool \<Rightarrow>
   string + net_state \<Rightarrow> (startup_error \<times> pac_server) + daemon"
where
  "runOnce_start is_print uni cfg control_dir_ok loaded pac_bind proxy_bind query =
     (let pacServer = NewPacServer (pac_Path (c_PAC cfg)) in
      if \<not> control_dir_ok then Inl (ControlDirFailed, pacServer)
      else (case loaded of
        None \<Rightarrow> Inl (StateLoadFailed, pacServer)
      | Some st0 \<Rightarrow>
          let st = st0\<lparr>st_SocksAddrs := socksAddrs (c_Routes cfg)\<rparr>;
              (pac_ok, pacServer) =
                (if pac_Enabled (c_PAC cfg) then PacStart pac_bind pacServer else (True, pacServer))
          in if \<not> pac_ok then Inl (PacBindFailed, pacServer)
             else if px_Enabled (c_Proxy cfg) \<and> \<not> proxy_bind
             then Inl (ProxyBindFailed, if pac_Enabled (c_PAC cfg) then PacShutdown pacServer else pacServer)
             else Inr (applyState is_print cfg query
               \<lparr>d_sups = map (\<lambda>_. NewSupervisor) (c_Routes cfg),
                d_table = (if px_Enabled (c_Proxy cfg) then Some (NewTable uni (c_Routes cfg)) else None),
                d_pac = pacServer,
                d_last = (\<lambda>_. None),
                d_state = st,
                d_server = (if px_Enabled (c_Proxy cfg) then Some (Start NewServer) else None),
                d_recheck = False, d_pending = False, d_timer = False,
                d_effects = [SaveState st]\<rparr>)))"

text \<open>
  The main loop: a trigger of \<open>watchNetwork\<close> (coalesced in the channel of capacity 1), the receipt
  of a recheck, the debounce timer, a forwarded error, and a step of a supervisor's goroutine.
\<close>

datatype daemon_event =
    Trigger
  | ReceiveRecheck
  | DebounceFires "string + net_state"
  | ErrorForwarded bool time string ErrorCategory
  | SupervisorRuns nat nat run_event

fun daemon_step ::
  "(nat \<Rightarrow> bool) \<Rightarrow> (int64 \<Rightarrow> int64) \<Rightarrow> config \<Rightarrow> daemon_event \<Rightarrow> daemon \<Rightarrow> daemon option"
where
  "daemon_step is_print rng cfg Trigger d = Some (d\<lparr>d_recheck := True\<rparr>)"
| "daemon_step is_print rng cfg ReceiveRecheck d =
     (if d_recheck d then Some (d\<lparr>d_recheck := False, d_pending := True, d_timer := True\<rparr>) else None)"
| "daemon_step is_print rng cfg (DebounceFires query) d =
     (if d_timer d then
        Some (if d_pending d
              then applyState is_print cfg query (d\<lparr>d_timer := False, d_pending := False\<rparr>)
              else d\<lparr>d_timer := False\<rparr>)
      else None)"
| "daemon_step is_print rng cfg (ErrorForwarded auth_sock now routeName cat) d =
     (case handleErrorCategory auth_sock (c_Notify cfg) now routeName cat (d_state d) of
        (st, effs) \<Rightarrow> Some (d\<lparr>d_state := st, d_effects := d_effects d @ effs\<rparr>))"
| "daemon_step is_print rng cfg (SupervisorRuns i j e) d =
     (if i < length (d_sups d) \<and> j < length (runs (d_sups d ! i)) then
        map_option (\<lambda>r. d\<lparr>d_sups := (d_sups d)[i := (d_sups d ! i)\<lparr>runs := (runs (d_sups d ! i))[j := r]\<rparr>]\<rparr>)
          (run_step rng (c_Backoff cfg) e (runs (d_sups d ! i) ! j))
      else None)"

text \<open>The case \<open>ctx.Done()\<close>: everything is torn down (the waits end as \<open>Supervisor\<close> models).\<close>

definition runOnce_shutdown :: "config \<Rightarrow> daemon \<Rightarrow> daemon" where
  "runOnce_shutdown cfg d =
     d\<lparr>d_server := map_option Shutdown (d_server d),
       d_sups := map (\<lambda>s. fst (Stop s)) (d_sups d),
       d_pac := (if pac_Enabled (c_PAC cfg) then PacShutdown (d_pac d) else d_pac d),
       d_effects := d_effects d @ [SaveState (d_state d)]\<rparr>"

text \<open>
  The reachable states: the start, the steps of the main loop and of the supervisors, and the steps
  of the connection handlers of the front-door proxy.
\<close>

inductive daemon_reachable ::
  "(nat \<Rightarrow> bool) \<Rightarrow> (string \<Rightarrow> string) \<Rightarrow> (int64 \<Rightarrow> int64) \<Rightarrow> config \<Rightarrow> daemon \<Rightarrow> bool"
  for is_print uni rng cfg where
  start: "runOnce_start is_print uni cfg cdir loaded pbind xbind query = Inr d \<Longrightarrow>
    daemon_reachable is_print uni rng cfg d"
| step: "daemon_reachable is_print uni rng cfg d \<Longrightarrow> daemon_step is_print rng cfg e d = Some d' \<Longrightarrow>
    daemon_reachable is_print uni rng cfg d'"
| serve: "daemon_reachable is_print uni rng cfg d \<Longrightarrow> d_server d = Some s \<Longrightarrow> server_step s s' \<Longrightarrow>
    daemon_reachable is_print uni rng cfg (d\<lparr>d_server := Some s'\<rparr>)"

section \<open>The invariant\<close>

text \<open>The decisions a snapshot of the network calls for.\<close>

definition decisions_of :: "net_state \<Rightarrow> route list \<Rightarrow> (string \<rightharpoonup> bool)" where
  "decisions_of ns routes = map_of (map (\<lambda>r. (r_Name r, needs_proxy ns r)) routes)"

text \<open>
  Supervisors, table and PAC body all follow one snapshot \<open>ns\<close>; or no snapshot has been seen.
\<close>

definition synced :: "(nat \<Rightarrow> bool) \<Rightarrow> (string \<Rightarrow> string) \<Rightarrow> config \<Rightarrow> net_state \<Rightarrow> daemon \<Rightarrow> bool" where
  "synced is_print uni cfg ns d \<longleftrightarrow>
     (let routes = c_Routes cfg; dec = decisions_of ns routes in
      d_last d = dec \<and>
      map Running (d_sups d) = map (\<lambda>r. needs_proxy ns r \<or> r_KeepTunnelWhenDirect r) routes \<and>
      d_table d = (if px_Enabled (c_Proxy cfg) then Some (Update dec (NewTable uni routes)) else None) \<and>
      (pac_Enabled (c_PAC cfg) \<and> routes \<noteq> [] \<longrightarrow>
         ps_body (d_pac d) = Generate is_print routes dec (front_addr cfg)))"

definition unsynced :: "(string \<Rightarrow> string) \<Rightarrow> config \<Rightarrow> daemon \<Rightarrow> bool" where
  "unsynced uni cfg d \<longleftrightarrow>
     d_last d = (\<lambda>_. None) \<and> map Running (d_sups d) = map (\<lambda>_. False) (c_Routes cfg) \<and>
     d_table d = (if px_Enabled (c_Proxy cfg) then Some (NewTable uni (c_Routes cfg)) else None) \<and>
     ps_body (d_pac d) = []"

lemma apply_routes_eq:
  assumes "length rs = length ss" "distinct (map r_Name rs)"
  shows "apply_routes ns rs ss prev dec ch =
    (map2 Ensure (map (\<lambda>r. needs_proxy ns r \<or> r_KeepTunnelWhenDirect r) rs) ss,
     prev ++ decisions_of ns rs, dec ++ decisions_of ns rs,
     ch \<or> (\<exists>r \<in> set rs. prev (r_Name r) \<noteq> Some (needs_proxy ns r)))"
  using assms
proof (induction rs ss arbitrary: prev dec ch rule: list_induct2)
  case Nil
  show ?case by (simp add: decisions_of_def)
next
  case (Cons r rs s ss)
  let ?n = "needs_proxy ns r"
  have fresh: "r_Name r \<notin> dom (decisions_of ns rs)"
    using Cons.prems by (auto simp: decisions_of_def dom_map_of_conv_image_fst image_image)
  have upd: "m(r_Name r \<mapsto> ?n) ++ decisions_of ns rs = m ++ decisions_of ns (r # rs)" for m
    using fresh by (auto simp: decisions_of_def fun_eq_iff map_add_def domIff split: option.splits)
  have prev': "(if prev (r_Name r) \<noteq> Some ?n then prev(r_Name r \<mapsto> ?n) else prev) = prev(r_Name r \<mapsto> ?n)"
    by (auto simp: fun_eq_iff)
  have others: "(prev(r_Name r \<mapsto> ?n)) (r_Name q) = prev (r_Name q)" if "q \<in> set rs" for q
    using Cons.prems that by (auto simp: image_iff)
  show ?case
    using Cons.IH [of "prev(r_Name r \<mapsto> ?n)"] Cons.prems others
    by (simp only: apply_routes.simps Let_def prev' upd list.map distinct.simps prod.case zip_Cons_Cons
        fst_conv snd_conv list.set simp_thms) auto
qed

lemma decisions_of_name:
  "distinct (map r_Name rs) \<Longrightarrow> r \<in> set rs \<Longrightarrow> decisions_of ns rs (r_Name r) = Some (needs_proxy ns r)"
  unfolding decisions_of_def by (intro map_of_is_SomeI) (auto simp: comp_def)

lemma dom_decisions_of: "dom (decisions_of ns rs) = r_Name ` set rs"
  by (auto simp: decisions_of_def dom_map_of_conv_image_fst image_image)

lemma decisions_of_add:
  "dom m \<subseteq> r_Name ` set rs \<Longrightarrow> m ++ decisions_of ns rs = decisions_of ns rs"
  using dom_decisions_of [of ns rs] by (auto simp: fun_eq_iff map_add_def domIff split: option.splits)

lemma decisions_of_eqI:
  "(\<And>r. r \<in> set rs \<Longrightarrow> needs_proxy ns r = needs_proxy ns' r) \<Longrightarrow> decisions_of ns rs = decisions_of ns' rs"
  unfolding decisions_of_def by (intro arg_cong [where f = map_of] map_cong) auto

definition in_step :: "(nat \<Rightarrow> bool) \<Rightarrow> (string \<Rightarrow> string) \<Rightarrow> config \<Rightarrow> daemon \<Rightarrow> bool" where
  "in_step is_print uni cfg d \<longleftrightarrow> unsynced uni cfg d \<or> (\<exists>ns. synced is_print uni cfg ns d)"

lemma in_step_length: "in_step is_print uni cfg d \<Longrightarrow> length (d_sups d) = length (c_Routes cfg)"
  unfolding in_step_def unsynced_def synced_def Let_def by (metis length_map)

lemma applyState_eq:
  assumes "length (d_sups d) = length (c_Routes cfg)" "distinct (map r_Name (c_Routes cfg))"
    and "dom (d_last d) \<subseteq> r_Name ` set (c_Routes cfg)"
  shows "applyState is_print cfg (Inr ns) d = d\<lparr>
    d_sups := map2 Ensure (map (\<lambda>r. needs_proxy ns r \<or> r_KeepTunnelWhenDirect r) (c_Routes cfg)) (d_sups d),
    d_last := decisions_of ns (c_Routes cfg),
    d_table := map_option (Update (decisions_of ns (c_Routes cfg))) (d_table d),
    d_pac := (if (\<exists>r \<in> set (c_Routes cfg). d_last d (r_Name r) \<noteq> Some (needs_proxy ns r)) \<and> pac_Enabled (c_PAC cfg)
      then PacUpdate (Generate is_print (c_Routes cfg) (decisions_of ns (c_Routes cfg)) (front_addr cfg)) (d_pac d)
      else d_pac d)\<rparr>"
  using apply_routes_eq [OF assms(1) [symmetric] assms(2), of ns "d_last d" "\<lambda>_. None" False]
    decisions_of_add [OF assms(3), of ns]
  by (simp add: applyState_def)

lemma synced_last: "synced is_print uni cfg ns d \<Longrightarrow> d_last d = decisions_of ns (c_Routes cfg)"
  by (simp add: synced_def Let_def)

lemma in_step_dom: "in_step is_print uni cfg d \<Longrightarrow> dom (d_last d) \<subseteq> r_Name ` set (c_Routes cfg)"
  unfolding in_step_def
  by (elim disjE exE) (simp_all only: unsynced_def synced_last dom_decisions_of dom_empty empty_subsetI order.refl)

lemma Update_Update: "Update m (Update m' t) = Update m t"
  by (simp add: Update_def)

lemma applyState_synced:
  assumes inv: "in_step is_print uni cfg d" and dist: "distinct (map r_Name (c_Routes cfg))"
  shows "synced is_print uni cfg ns (applyState is_print cfg (Inr ns) d)"
proof -
  let ?rs = "c_Routes cfg" and ?dec = "decisions_of ns (c_Routes cfg)"
  let ?wants = "map (\<lambda>r. needs_proxy ns r \<or> r_KeepTunnelWhenDirect r) ?rs"
  note eq = applyState_eq [OF in_step_length [OF inv] dist in_step_dom [OF inv], of is_print ns]
  have sups: "map Running (map2 Ensure ?wants (d_sups d)) = ?wants"
    using in_step_length [OF inv] by (intro sup.map_running_ensure) simp
  have tab: "map_option (Update ?dec) (d_table d) =
      (if px_Enabled (c_Proxy cfg) then Some (Update ?dec (NewTable uni ?rs)) else None)"
    using inv by (auto simp: in_step_def unsynced_def synced_def Let_def Update_Update)
  have pac: "ps_body (d_pac d) = Generate is_print ?rs ?dec (front_addr cfg)"
    if same: "\<forall>r \<in> set ?rs. d_last d (r_Name r) = Some (needs_proxy ns r)"
      and on: "pac_Enabled (c_PAC cfg)" "?rs \<noteq> []"
  proof -
    have "\<not> unsynced uni cfg d"
      using same on(2) by (cases ?rs) (auto simp: unsynced_def)
    then obtain ns0 where ns0: "synced is_print uni cfg ns0 d" using inv by (auto simp: in_step_def)
    have "decisions_of ns0 ?rs = ?dec"
      using same synced_last [OF ns0] decisions_of_name [OF dist] by (intro decisions_of_eqI) simp
    with ns0 on show ?thesis by (simp add: synced_def Let_def)
  qed
  show ?thesis
    unfolding eq synced_def Let_def using sups tab pac by (auto simp: PacUpdate_def)
qed

text \<open>Steps that leave the parts \<open>synced\<close> speaks of as they are.\<close>

lemma synced_cong:
  assumes "d_last d' = d_last d" "map Running (d_sups d') = map Running (d_sups d)"
    and "d_table d' = d_table d" "ps_body (d_pac d') = ps_body (d_pac d)"
  shows "synced is_print uni cfg ns d' = synced is_print uni cfg ns d"
    "unsynced uni cfg d' = unsynced uni cfg d"
  using assms by (simp_all add: synced_def unsynced_def Let_def)

lemma Running_run: "i < length ss \<Longrightarrow> map Running (ss[i := (ss ! i)\<lparr>runs := x\<rparr>]) = map Running ss"
  by (rule nth_equalityI) (auto simp: nth_list_update Running_def)

text \<open>The state written last is the current one.\<close>

definition saved :: "daemon \<Rightarrow> bool" where
  "saved d \<longleftrightarrow> (\<exists>pre post. d_effects d = pre @ SaveState (d_state d) # post \<and> (\<forall>st. SaveState st \<notin> set post))"

definition daemon_inv ::
  "(nat \<Rightarrow> bool) \<Rightarrow> (string \<Rightarrow> string) \<Rightarrow> (int64 \<Rightarrow> int64) \<Rightarrow> config \<Rightarrow> daemon \<Rightarrow> bool"
where
  "daemon_inv is_print uni rng cfg d \<longleftrightarrow>
     in_step is_print uni cfg d \<and> (d_pending d \<longrightarrow> d_timer d) \<and>
     list_all (reachable rng (c_Backoff cfg)) (d_sups d) \<and>
     ps_serving (d_pac d) = pac_Enabled (c_PAC cfg) \<and>
     pred_option server_reachable (d_server d) \<and>
     (d_server d \<noteq> None \<longleftrightarrow> px_Enabled (c_Proxy cfg)) \<and> saved d"

lemma list_all_update: "list_all P xs \<Longrightarrow> P x \<Longrightarrow> list_all P (xs[i := x])"
  unfolding list_all_iff by (blast dest: set_update_subset_insert [THEN subsetD])

lemma reach_map2_Ensure:
  "list_all (reachable rng bo) ss \<Longrightarrow> list_all (reachable rng bo) (map2 Ensure ws ss)"
  by (auto simp: list_all_iff in_set_zip dest!: set_zip_rightD intro: reach_ensure)

lemma applyState_frame [simp]:
  "d_state (applyState is_print cfg q d) = d_state d"
  "d_effects (applyState is_print cfg q d) = d_effects d"
  "d_server (applyState is_print cfg q d) = d_server d"
  "d_recheck (applyState is_print cfg q d) = d_recheck d"
  "d_pending (applyState is_print cfg q d) = d_pending d"
  "d_timer (applyState is_print cfg q d) = d_timer d"
  "ps_serving (d_pac (applyState is_print cfg q d)) = ps_serving (d_pac d)"
  by (simp_all add: applyState_def PacUpdate_def split: sum.splits prod.splits)

lemma applyState_inv:
  assumes "daemon_inv is_print uni rng cfg d" "distinct (map r_Name (c_Routes cfg))"
  shows "daemon_inv is_print uni rng cfg (applyState is_print cfg q d)"
proof (cases q)
  case (Inl e)
  with assms show ?thesis by (simp add: applyState_def)
next
  case (Inr ns)
  have inv: "in_step is_print uni cfg d" using assms(1) by (simp add: daemon_inv_def)
  note eq = applyState_eq [OF in_step_length [OF inv] assms(2) in_step_dom [OF inv], of is_print ns]
  have "in_step is_print uni cfg (applyState is_print cfg (Inr ns) d)"
    using applyState_synced [OF inv assms(2)] by (auto simp: in_step_def)
  moreover have "list_all (reachable rng (c_Backoff cfg)) (d_sups (applyState is_print cfg (Inr ns) d))"
    using assms(1) unfolding eq by (simp add: daemon_inv_def reach_map2_Ensure)
  ultimately show ?thesis
    using assms(1) by (simp add: Inr daemon_inv_def saved_def)
qed

text \<open>The state \<open>runOnce\<close> hands to its first \<open>applyState\<close>.\<close>

definition initial_daemon :: "(string \<Rightarrow> string) \<Rightarrow> config \<Rightarrow> pac_server \<Rightarrow> state \<Rightarrow> daemon" where
  "initial_daemon uni cfg pac st =
     \<lparr>d_sups = map (\<lambda>_. NewSupervisor) (c_Routes cfg),
      d_table = (if px_Enabled (c_Proxy cfg) then Some (NewTable uni (c_Routes cfg)) else None),
      d_pac = pac, d_last = (\<lambda>_. None), d_state = st,
      d_server = (if px_Enabled (c_Proxy cfg) then Some (Start NewServer) else None),
      d_recheck = False, d_pending = False, d_timer = False, d_effects = [SaveState st]\<rparr>"

lemma runOnce_start_InrE:
  assumes "runOnce_start is_print uni cfg cdir loaded pbind xbind query = Inr d"
  obtains st pac where "d = applyState is_print cfg query (initial_daemon uni cfg pac st)"
    "ps_body pac = []" "ps_serving pac = pac_Enabled (c_PAC cfg)"
proof -
  let ?new = "NewPacServer (pac_Path (c_PAC cfg))"
  let ?pac = "if pac_Enabled (c_PAC cfg) then snd (PacStart pbind ?new) else ?new"
  from assms obtain st0 where "cdir" "loaded = Some st0"
    by (cases cdir; cases loaded) (simp_all add: runOnce_start_def)
  with assms have "d = applyState is_print cfg query
      (initial_daemon uni cfg ?pac (st0\<lparr>st_SocksAddrs := socksAddrs (c_Routes cfg)\<rparr>))"
    and "pac_Enabled (c_PAC cfg) \<longrightarrow> pbind"
    by (simp_all add: runOnce_start_def initial_daemon_def PacStart_def Let_def split: if_splits)
  then show thesis by (intro that) (auto simp: PacStart_def NewPacServer_def split: if_splits)
qed

lemma initial_daemon_inv:
  assumes "ps_body pac = []" "ps_serving pac = pac_Enabled (c_PAC cfg)"
  shows "daemon_inv is_print uni rng cfg (initial_daemon uni cfg pac st)"
proof -
  have "server_reachable (Start NewServer)"
    by (rule server_reachable.step [OF server_reachable.init server_step.start]) (simp add: NewServer_def)
  moreover have "saved (initial_daemon uni cfg pac st)"
    unfolding saved_def by (rule exI [of _ "[]"], rule exI [of _ "[]"]) (simp add: initial_daemon_def)
  moreover have "unsynced uni cfg (initial_daemon uni cfg pac st)"
    by (simp add: initial_daemon_def unsynced_def assms comp_def Running_def NewSupervisor_def)
  moreover have "list_all (reachable rng (c_Backoff cfg)) (d_sups (initial_daemon uni cfg pac st))"
    by (auto simp: initial_daemon_def list_all_iff intro: reachable.init)
  ultimately show ?thesis
    unfolding daemon_inv_def in_step_def by (simp add: initial_daemon_def assms)
qed

lemma daemon_start_inv:
  assumes "runOnce_start is_print uni cfg cdir loaded pbind xbind query = Inr d"
    and "distinct (map r_Name (c_Routes cfg))"
  shows "daemon_inv is_print uni rng cfg d"
  using assms(1)
  by (rule runOnce_start_InrE) (simp add: applyState_inv [OF initial_daemon_inv assms(2)])

lemma saved_append: "saved d \<Longrightarrow> saved (d\<lparr>d_state := st, d_effects := d_effects d @ [SaveState st, SendNotification a b]\<rparr>)"
  unfolding saved_def by (rule exI [of _ "d_effects d"], rule exI [of _ "[SendNotification a b]"]) simp

lemma handleError_saved:
  assumes "handleErrorCategory a nt now r c (d_state d) = (st, effs)" "saved d"
  shows "saved (d\<lparr>d_state := st, d_effects := d_effects d @ effs\<rparr>)"
  using assms saved_append [OF assms(2)]
  by (auto simp: handleErrorCategory_def Let_def split: if_splits)

lemma daemon_inv_frame:
  assumes "daemon_inv is_print uni rng cfg d"
    and "d_last d' = d_last d" "map Running (d_sups d') = map Running (d_sups d)"
    and "d_table d' = d_table d" "d_pac d' = d_pac d"
    and "d_pending d' \<longrightarrow> d_timer d'" "list_all (reachable rng (c_Backoff cfg)) (d_sups d')"
    and "pred_option server_reachable (d_server d')" "d_server d' = None \<longleftrightarrow> d_server d = None"
    and "saved d'"
  shows "daemon_inv is_print uni rng cfg d'"
proof -
  have "in_step is_print uni cfg d' = in_step is_print uni cfg d"
    using assms(2-5) by (simp add: in_step_def synced_cong [where d = d and d' = d'])
  with assms show ?thesis by (simp add: daemon_inv_def)
qed

lemma daemon_step_inv:
  assumes "daemon_step is_print rng cfg e d = Some d'" "daemon_inv is_print uni rng cfg d"
    and "distinct (map r_Name (c_Routes cfg))"
  shows "daemon_inv is_print uni rng cfg d'"
proof (cases e)
  case Trigger
  then have "d' = d\<lparr>d_recheck := True\<rparr>" using assms(1) by simp
  then show ?thesis using assms(2)
    by (intro daemon_inv_frame [OF assms(2)]) (simp_all add: daemon_inv_def saved_def)
next
  case ReceiveRecheck
  then have "d' = d\<lparr>d_recheck := False, d_pending := True, d_timer := True\<rparr>"
    using assms(1) by (simp split: if_splits)
  then show ?thesis using assms(2)
    by (intro daemon_inv_frame [OF assms(2)]) (simp_all add: daemon_inv_def saved_def)
next
  case (DebounceFires q)
  let ?d = "d\<lparr>d_timer := False, d_pending := False\<rparr>"
  have inv: "daemon_inv is_print uni rng cfg ?d"
    using assms(2) by (intro daemon_inv_frame [OF assms(2)]) (simp_all add: daemon_inv_def saved_def)
  have idle: "daemon_inv is_print uni rng cfg (d\<lparr>d_timer := False\<rparr>)" if "\<not> d_pending d"
    using assms(2) that by (intro daemon_inv_frame [OF assms(2)]) (simp_all add: daemon_inv_def saved_def)
  show ?thesis using assms(1) DebounceFires idle applyState_inv [OF inv assms(3)]
    by (cases "d_pending d") (auto split: if_splits)
next
  case (ErrorForwarded a now r c)
  with assms(1) obtain st effs
    where eff: "handleErrorCategory a (c_Notify cfg) now r c (d_state d) = (st, effs)"
      and d': "d' = d\<lparr>d_state := st, d_effects := d_effects d @ effs\<rparr>"
    by (auto split: prod.splits)
  have "saved d'" unfolding d' using handleError_saved [OF eff] assms(2) by (simp add: daemon_inv_def)
  then show ?thesis using assms(2)
    by (intro daemon_inv_frame [OF assms(2)]) (simp_all add: daemon_inv_def d')
next
  case (SupervisorRuns i j ev)
  let ?s = "d_sups d ! i"
  from assms(1) SupervisorRuns obtain r where i: "i < length (d_sups d)" "j < length (runs ?s)"
    and r: "run_step rng (c_Backoff cfg) ev (runs ?s ! j) = Some r"
    and d': "d' = d\<lparr>d_sups := (d_sups d)[i := ?s\<lparr>runs := (runs ?s)[j := r]\<rparr>]\<rparr>"
    by (auto split: if_splits)
  have "reachable rng (c_Backoff cfg) ?s" using assms(2) i by (auto simp: daemon_inv_def list_all_length)
  then have new: "reachable rng (c_Backoff cfg) (?s\<lparr>runs := (runs ?s)[j := r]\<rparr>)"
    by (rule reach_run [OF _ i(2) r])
  have "list_all (reachable rng (c_Backoff cfg)) (d_sups d')"
    using list_all_update [where P = "reachable rng (c_Backoff cfg)", OF _ new] assms(2) unfolding d' daemon_inv_def by simp
  then show ?thesis using assms(2) Running_run [OF i(1)]
    by (intro daemon_inv_frame [OF assms(2)]) (simp_all add: daemon_inv_def d' saved_def)
qed

lemma daemon_reachable_inv:
  assumes "daemon_reachable is_print uni rng cfg d" "distinct (map r_Name (c_Routes cfg))"
  shows "daemon_inv is_print uni rng cfg d"
  using assms(1)
proof (induction rule: daemon_reachable.induct)
  case (start cdir loaded pbind xbind query d)
  then show ?case by (rule daemon_start_inv [OF _ assms(2)])
next
  case (step d e d')
  then show ?case using daemon_step_inv [OF _ _ assms(2)] by blast
next
  case (serve d s s')
  then have "server_reachable s'" by (auto simp: daemon_inv_def intro: server_reachable.step)
  with serve.IH serve.hyps(2) show ?case
    by (intro daemon_inv_frame [OF serve.IH]) (simp_all add: daemon_inv_def saved_def)
qed

end
