(* ===== verification/DaemonRun.thy ===== *)
theory DaemonRun
  imports Daemon
begin

text \<open>
  What one run of the daemon (\<open>runOnce\<close> of \<open>internal/daemon/daemon.go\<close>) guarantees: its
  supervisors, routing table and PAC file follow one snapshot of the network; a request to look
  again is not lost; notifications are spaced; a failed start and a shutdown leave nothing running.
\<close>

lemma valid_distinct: "valid_config cfg \<Longrightarrow> distinct (map r_Name (c_Routes cfg))"
  by (simp add: valid_config_def)

lemma reachable_in_step:
  "daemon_reachable is_print uni rng cfg d \<Longrightarrow> valid_config cfg \<Longrightarrow> in_step is_print uni cfg d"
  using daemon_reachable_inv valid_distinct by (fastforce simp: daemon_inv_def)

section \<open>A concrete run\<close>

text \<open>One route, which needs its jump host everywhere.\<close>

definition lan_config :: config where
  "lan_config = Default\<lparr>c_Routes := [lan_route]\<rparr>"

definition started :: "string + net_state \<Rightarrow> daemon" where
  "started query = applyState (\<lambda>_. False) lan_config query
     (initial_daemon id lan_config (snd (PacStart True (NewPacServer ''/proxy.pac'')))
       (empty_state\<lparr>st_SocksAddrs := socksAddrs [lan_route]\<rparr>))"

lemma valid_lan_config: "valid_config lan_config"
  by (simp add: valid_config_def lan_config_def Default_def lan_route_def wiki_route_def listeners_def
      socks_listener_def pac_listener_def proxy_listener_def)

lemma started_reachable: "daemon_reachable (\<lambda>_. False) id rng lan_config (started query)"
  by (rule daemon_reachable.start [of _ _ _ True "Some empty_state" True True query])
     (simp add: runOnce_start_def started_def initial_daemon_def PacStart_def lan_config_def Default_def Let_def)

lemma triggered_reachable:
  "daemon_reachable (\<lambda>_. False) id rng lan_config ((started query)\<lparr>d_recheck := False, d_pending := True, d_timer := True\<rparr>)"
proof -
  have "daemon_reachable (\<lambda>_. False) id rng lan_config ((started query)\<lparr>d_recheck := True\<rparr>)"
    by (rule daemon_reachable.step [OF started_reachable, where e = Trigger]) simp
  then show ?thesis by (rule daemon_reachable.step [where e = ReceiveRecheck]) simp
qed

section \<open>The parts follow the network\<close>

text \<open>
  In every state a run with a valid configuration reaches, either no snapshot of the
  network has been taken, and then no tunnel is wanted and nothing is recorded, or there is one
  snapshot that all parts agree on: a tunnel is wanted exactly if its route needs the jump host
  there or keeps its tunnel, and the routing table and the served PAC file are the ones of exactly
  these decisions.
\<close>

theorem daemon_parts_agree:
  assumes "daemon_reachable is_print uni rng cfg d" "valid_config cfg"
  shows "(d_last d = (\<lambda>_. None) \<and> list_all (\<lambda>s. \<not> Running s) (d_sups d)) \<or>
    (\<exists>ns. let dec = decisions_of ns (c_Routes cfg) in
      map Running (d_sups d) = map (\<lambda>r. needs_proxy ns r \<or> r_KeepTunnelWhenDirect r) (c_Routes cfg) \<and>
      d_table d = (if px_Enabled (c_Proxy cfg) then Some (Update dec (NewTable uni (c_Routes cfg))) else None) \<and>
      (pac_Enabled (c_PAC cfg) \<and> c_Routes cfg \<noteq> [] \<longrightarrow>
         ps_body (d_pac d) = Generate is_print (c_Routes cfg) dec (front_addr cfg)))"
proof -
  have none: "list_all (\<lambda>s. \<not> Running s) (d_sups d)" if "unsynced uni cfg d"
  proof -
    have "map Running (d_sups d) = map (\<lambda>_. False) (c_Routes cfg)" using that by (simp add: unsynced_def)
    then have "set (map Running (d_sups d)) \<subseteq> {False}" by auto
    then show ?thesis by (auto simp: list_all_iff)
  qed
  from reachable_in_step [OF assms] show ?thesis unfolding in_step_def
  proof (elim disjE exE)
    assume "unsynced uni cfg d"
    then show ?thesis using none by (simp add: unsynced_def)
  next
    fix ns assume "synced is_print uni cfg ns d"
    then show ?thesis unfolding synced_def Let_def by blast
  qed
qed

theorem daemon_parts_agree_witness:
  "(d_last (started (Inl [])) = (\<lambda>_. None) \<and> list_all (\<lambda>s. \<not> Running s) (d_sups (started (Inl [])))) \<or>
    (\<exists>ns. let dec = decisions_of ns (c_Routes lan_config) in
      map Running (d_sups (started (Inl []))) =
        map (\<lambda>r. needs_proxy ns r \<or> r_KeepTunnelWhenDirect r) (c_Routes lan_config) \<and>
      d_table (started (Inl [])) = (if px_Enabled (c_Proxy lan_config)
        then Some (Update dec (NewTable id (c_Routes lan_config))) else None) \<and>
      (pac_Enabled (c_PAC lan_config) \<and> c_Routes lan_config \<noteq> [] \<longrightarrow>
         ps_body (d_pac (started (Inl []))) =
           Generate (\<lambda>_. False) (c_Routes lan_config) dec (front_addr lan_config)))"
  by (rule daemon_parts_agree [OF started_reachable [of "\<lambda>_. 0"] valid_lan_config])

text \<open>
  A change of the network takes effect: when the debounce timer fires after a request to
  look again, in any reachable state, and the query succeeds with the snapshot \<open>ns\<close>, then
  afterwards tunnels, table and PAC response are those of \<open>ns\<close>, every route's decision is the
  result of \<open>Evaluate\<close> on it, and the timer and the request are used up; a query that fails
  changes none of them.
\<close>

theorem network_change_applied:
  assumes "daemon_reachable is_print uni rng cfg d" "valid_config cfg" "d_timer d" "d_pending d"
  shows "\<exists>d'. daemon_step is_print rng cfg (DebounceFires (Inr ns)) d = Some d' \<and>
    synced is_print uni cfg ns d' \<and> \<not> d_pending d' \<and> \<not> d_timer d' \<and>
    list_all (\<lambda>r. d_last d' (r_Name r) = Some (snd (Evaluate (r_DirectProfiles r) ns))) (c_Routes cfg) \<and>
    daemon_step is_print rng cfg (DebounceFires (Inl e)) d = Some (d\<lparr>d_timer := False, d_pending := False\<rparr>)"
proof -
  let ?d = "d\<lparr>d_timer := False, d_pending := False\<rparr>"
  let ?d' = "applyState is_print cfg (Inr ns) ?d"
  have "in_step is_print uni cfg ?d"
    using reachable_in_step [OF assms(1,2)]
    by (simp add: in_step_def synced_cong [where d = d and d' = ?d])
  then have sync: "synced is_print uni cfg ns ?d'" by (rule applyState_synced [OF _ valid_distinct [OF assms(2)]])
  moreover have "list_all (\<lambda>r. d_last ?d' (r_Name r) = Some (snd (Evaluate (r_DirectProfiles r) ns))) (c_Routes cfg)"
    using decisions_of_name [OF valid_distinct [OF assms(2)], of _ ns]
    by (simp add: synced_last [OF sync] list_all_iff needs_proxy_def)
  moreover have "applyState is_print cfg (Inl e) ?d = ?d" by (simp add: applyState_def)
  ultimately show ?thesis using assms(3,4) by (intro exI [of _ ?d']) simp
qed

theorem network_change_applied_witness:
  "\<exists>d'. daemon_step (\<lambda>_. False) (\<lambda>_. 0) lan_config (DebounceFires (Inr \<lparr>ns_SSID = [], ns_Gateway = [], ns_Address = []\<rparr>))
      ((started (Inl []))\<lparr>d_recheck := False, d_pending := True, d_timer := True\<rparr>) = Some d' \<and>
    map Running (d_sups d') = [True]"
  using network_change_applied [OF triggered_reachable [of "\<lambda>_. 0" "Inl []"] valid_lan_config,
      of "\<lparr>ns_SSID = [], ns_Gateway = [], ns_Address = []\<rparr>" "[]"]
  by (auto simp: synced_def Let_def lan_config_def lan_route_def wiki_route_def needs_proxy_def)

text \<open>
  A request to look at the network again is never lost: once it has been made, the loop
  can always take the step it needs next (receive the request, or fire the timer, which is armed
  whenever a request is pending), and every step whatever keeps the request outstanding, except the
  firing of the timer that answers it with \<open>applyState\<close>.
\<close>

theorem recheck_never_lost:
  assumes "daemon_reachable is_print uni rng cfg d" "valid_config cfg" "d_recheck d \<or> d_pending d"
  shows "(d_recheck d \<longrightarrow> (\<exists>d'. daemon_step is_print rng cfg ReceiveRecheck d = Some d' \<and> d_pending d')) \<and>
    (d_pending d \<longrightarrow> daemon_step is_print rng cfg (DebounceFires q) d =
       Some (applyState is_print cfg q (d\<lparr>d_timer := False, d_pending := False\<rparr>))) \<and>
    (daemon_step is_print rng cfg e d = Some d' \<longrightarrow> d_recheck d' \<or> d_pending d' \<or>
       (\<exists>q. e = DebounceFires q \<and> d_pending d \<and>
          d' = applyState is_print cfg q (d\<lparr>d_timer := False, d_pending := False\<rparr>)))"
proof -
  have timer: "d_pending d \<longrightarrow> d_timer d"
    using daemon_reachable_inv [OF assms(1) valid_distinct [OF assms(2)]] by (simp add: daemon_inv_def)
  have "d_recheck d' \<or> d_pending d' \<or> (\<exists>q. e = DebounceFires q \<and> d_pending d \<and>
      d' = applyState is_print cfg q (d\<lparr>d_timer := False, d_pending := False\<rparr>))"
    if "daemon_step is_print rng cfg e d = Some d'"
    using that assms(3) by (cases e) (auto split: if_splits prod.splits)
  with timer show ?thesis by simp
qed

theorem recheck_never_lost_witness:
  "\<exists>d'. daemon_step (\<lambda>_. False) (\<lambda>_. 0) lan_config ReceiveRecheck ((started (Inl []))\<lparr>d_recheck := True\<rparr>) = Some d' \<and>
     d_pending d'"
proof -
  have "daemon_reachable (\<lambda>_. False) id (\<lambda>_. 0) lan_config ((started (Inl []))\<lparr>d_recheck := True\<rparr>)"
    by (rule daemon_reachable.step [OF started_reachable, where e = Trigger]) simp
  from recheck_never_lost [OF this valid_lan_config] show ?thesis by simp
qed

section \<open>Composition with the proxy and the PAC file\<close>

lemma synced_if_last:
  assumes "daemon_reachable is_print uni rng cfg d" "valid_config cfg" "d_last d \<noteq> (\<lambda>_. None)"
  obtains ns where "synced is_print uni cfg ns d" "c_Routes cfg \<noteq> []"
proof -
  from reachable_in_step [OF assms(1,2)] assms(3) obtain ns where ns: "synced is_print uni cfg ns d"
    by (auto simp: in_step_def unsynced_def)
  moreover have "c_Routes cfg \<noteq> []"
    using synced_last [OF ns] assms(3) by (auto simp: decisions_of_def)
  ultimately show thesis by (rule that)
qed

lemma match_routes_route:
  "match_routes h a (List.map_filter (tableRoute uni) rs) = Some (name, up) \<Longrightarrow>
   \<exists>r sp. r \<in> set rs \<and> r_Name r = name \<and> r_SocksProxy r = Some sp \<and> up = upstream_addr sp"
proof (induction rs)
  case (Cons r rs)
  show ?case
  proof (cases "tableRoute uni r")
    case None
    with Cons show ?thesis by (auto simp: map_filter_simps)
  next
    case (Some t)
    then show ?thesis using Cons
      by (auto simp: map_filter_simps tableRoute_def split: option.splits if_splits)
  qed
qed (simp add: map_filter_simps)

lemma Decide_tunnelled:
  assumes "d_Upstream (Decide uni (Update needed (NewTable uni routes)) host) \<noteq> []"
  obtains r sp where "r \<in> set routes" "r_Name r = d_Route (Decide uni (Update needed (NewTable uni routes)) host)"
    "r_SocksProxy r = Some sp" "d_Upstream (Decide uni (Update needed (NewTable uni routes)) host) = upstream_addr sp"
    "needed (r_Name r) \<noteq> Some False"
proof -
  from assms obtain name up where m: "table_match uni (Update needed (NewTable uni routes)) host = Some (name, up)"
    and n: "needed name \<noteq> Some False"
    and d: "Decide uni (Update needed (NewTable uni routes)) host = \<lparr>d_Route = name, d_Upstream = up\<rparr>"
    by (auto simp: Decide_def Update_def split: option.splits if_splits)
  from m have "match_routes (canonical_host uni host) (parse_addr (canonical_host uni host))
      (List.map_filter (tableRoute uni) routes) = Some (name, up)"
    by (simp add: table_match_def Update_def NewTable_def Let_def)
  from match_routes_route [OF this] that show thesis using n d by auto
qed

text \<open>
  Claim C4. The front door never hands a connection to a tunnel nobody keeps up: once a snapshot
  has been applied, in every reachable state, a destination that the routing table tunnels belongs
  to a route whose supervisor is running with exactly one goroutine that is not cancelled and none
  that has given up, and the address dialled is the one that route's \<open>ssh -D\<close> forwards.
\<close>

theorem tunnelled_route_is_supervised:
  assumes "daemon_reachable is_print uni rng cfg d" "valid_config cfg" "d_last d \<noteq> (\<lambda>_. None)"
    and "d_table d = Some t" "d_Upstream (Decide uni t host) \<noteq> []"
  shows "\<exists>i sp. i < length (c_Routes cfg) \<and> r_Name (c_Routes cfg ! i) = d_Route (Decide uni t host) \<and>
    r_SocksProxy (c_Routes cfg ! i) = Some sp \<and> d_Upstream (Decide uni t host) = upstream_addr sp \<and>
    Running (d_sups d ! i) \<and> length (filter (\<lambda>r. \<not> cancelled r) (runs (d_sups d ! i))) = 1 \<and>
    list_all (\<lambda>r. cancelled r \<or> phase r \<noteq> Exited) (runs (d_sups d ! i))"
proof -
  obtain ns where sync: "synced is_print uni cfg ns d" using synced_if_last [OF assms(1-3)] .
  let ?rs = "c_Routes cfg" and ?dec = "decisions_of ns (c_Routes cfg)"
  have t: "t = Update ?dec (NewTable uni ?rs)"
    using sync assms(4) by (auto simp: synced_def Let_def split: if_splits)
  from Decide_tunnelled [OF assms(5) [unfolded t]] obtain r sp where r: "r \<in> set ?rs"
    "r_Name r = d_Route (Decide uni t host)" "r_SocksProxy r = Some sp"
    "d_Upstream (Decide uni t host) = upstream_addr sp" "?dec (r_Name r) \<noteq> Some False"
    unfolding t by metis
  from r(1) obtain i where i: "i < length ?rs" "?rs ! i = r" by (auto simp: in_set_conv_nth)
  have run: "map Running (d_sups d) = map (\<lambda>r. needs_proxy ns r \<or> r_KeepTunnelWhenDirect r) ?rs"
    using sync by (simp add: synced_def Let_def)
  then have len: "length (d_sups d) = length ?rs" by (metis length_map)
  have "needs_proxy ns r" using r(1,5) decisions_of_name [OF valid_distinct [OF assms(2)]] by fastforce
  then have on: "Running (d_sups d ! i)"
    using arg_cong [OF run, of "\<lambda>xs. xs ! i"] i len by simp
  have "reachable rng (c_Backoff cfg) (d_sups d ! i)"
    using daemon_reachable_inv [OF assms(1) valid_distinct [OF assms(2)]] i len
    by (simp add: daemon_inv_def list_all_length)
  from live_goroutines [OF this] on i r show ?thesis by (intro exI [of _ i] exI [of _ sp]) simp
qed

lemma synced_started: "synced (\<lambda>_. False) id lan_config ns (started (Inr ns))"
  unfolding started_def
  by (rule applyState_synced [OF _ valid_distinct [OF valid_lan_config]])
     (use initial_daemon_inv [of "snd (PacStart True (NewPacServer ''/proxy.pac''))" lan_config] in
       \<open>simp add: daemon_inv_def PacStart_def NewPacServer_def lan_config_def Default_def\<close>)

lemma started_last: "d_last (started (Inr ns)) \<noteq> (\<lambda>_. None)"
  using synced_last [OF synced_started [of ns]]
  by (simp add: decisions_of_def lan_config_def Default_def)

lemma started_table:
  "d_table (started (Inr ns)) = Some (Update (decisions_of ns [lan_route]) (NewTable id [lan_route]))"
  using synced_started [of ns] by (simp add: synced_def Let_def lan_config_def Default_def)

theorem tunnelled_route_is_supervised_witness:
  "Running (d_sups (started (Inr \<lparr>ns_SSID = [], ns_Gateway = [], ns_Address = []\<rparr>)) ! 0)"
proof -
  let ?ns = "\<lparr>ns_SSID = [], ns_Gateway = [], ns_Address = []\<rparr>"
  let ?t = "Update (decisions_of ?ns [lan_route]) (NewTable id [lan_route])"
  have "table_match id ?t ''wiki.lan'' = Some (''home'', ''127.0.0.1:1080'')" by code_simp
  then have "d_Upstream (Decide id ?t ''wiki.lan'') \<noteq> []"
    by (simp add: Decide_def Update_def decisions_of_def needs_proxy_def lan_route_def wiki_route_def)
  from tunnelled_route_is_supervised [OF started_reachable [of "\<lambda>_. 0"] valid_lan_config started_last
      started_table this]
  show ?thesis by (auto simp: lan_config_def Default_def)
qed



section \<open>Start and shutdown\<close>

text \<open>
  A start that fails names the first thing that went wrong, and leaves no listener
  behind: when the proxy's address cannot be bound the PAC listener that already serves is shut
  down again.
\<close>

theorem startup_failure:
  assumes "runOnce_start is_print uni cfg cdir loaded pbind xbind query = Inl (err, pac)"
  shows "pac_response pac = None \<and>
    (case err of
       ControlDirFailed \<Rightarrow> \<not> cdir
     | StateLoadFailed \<Rightarrow> cdir \<and> loaded = None
     | PacBindFailed \<Rightarrow> cdir \<and> loaded \<noteq> None \<and> pac_Enabled (c_PAC cfg) \<and> \<not> pbind
     | ProxyBindFailed \<Rightarrow> cdir \<and> loaded \<noteq> None \<and> (pac_Enabled (c_PAC cfg) \<longrightarrow> pbind) \<and>
         px_Enabled (c_Proxy cfg) \<and> \<not> xbind)"
proof (cases "cdir \<and> loaded \<noteq> None")
  case False
  with assms show ?thesis
    by (auto simp: runOnce_start_def Let_def pac_response_def NewPacServer_def split: if_splits option.splits)
next
  case True
  then obtain st where "cdir" "loaded = Some st" by auto
  with assms show ?thesis
    by (cases "pac_Enabled (c_PAC cfg)"; cases pbind)
       (auto simp: runOnce_start_def Let_def pac_response_def NewPacServer_def PacStart_def PacShutdown_def
         split: if_splits)
qed

theorem startup_failure_witness:
  "\<exists>pac. runOnce_start (\<lambda>_. False) id lan_config True (Some empty_state) True False (Inl []) = Inl (ProxyBindFailed, pac) \<and>
     pac_response pac = None"
proof -
  have "runOnce_start (\<lambda>_. False) id lan_config True (Some empty_state) True False (Inl []) =
      Inl (ProxyBindFailed, PacShutdown (snd (PacStart True (NewPacServer ''/proxy.pac''))))"
    by (simp add: runOnce_start_def lan_config_def Default_def PacStart_def Let_def)
  from this startup_failure [OF this] show ?thesis by blast
qed

lemma Running_Stop: "\<not> Running (fst (Stop s))"
  by (simp add: Stop_def Let_def stopLocked_def Running_def split: option.splits)

lemma stopped_all_cancelled:
  assumes "reachable rng bo s"
  shows "list_all cancelled (runs (fst (Stop s)))"
proof -
  have "reachable rng bo (fst (Stop s))" using assms sup_step.stop by (rule reachable.step)
  from live_goroutines [OF this] Running_Stop [of s] show ?thesis
    by (auto simp: list_all_iff filter_empty_conv)
qed

lemma runOnce_shutdown_stops:
  assumes "daemon_reachable is_print uni rng cfg d" "valid_config cfg"
  shows "list_all (\<lambda>s. \<not> Running s \<and> list_all cancelled (runs s)) (d_sups (runOnce_shutdown cfg d)) \<and>
    pac_response (d_pac (runOnce_shutdown cfg d)) = None \<and>
    (\<forall>s. d_server (runOnce_shutdown cfg d) = Some s \<longrightarrow>
       sv_closed s \<and> \<not> sv_listening s \<and> sv_open s \<inter> sv_conns s = {}) \<and>
    (\<exists>es. d_effects (runOnce_shutdown cfg d) = es @ [SaveState (d_state d)])"
proof -
  have inv: "daemon_inv is_print uni rng cfg d"
    by (rule daemon_reachable_inv [OF assms(1) valid_distinct [OF assms(2)]])
  have "list_all (\<lambda>s. \<not> Running s \<and> list_all cancelled (runs s)) (map (\<lambda>s. fst (Stop s)) (d_sups d))"
    using inv Running_Stop stopped_all_cancelled by (auto simp: daemon_inv_def list_all_iff)
  moreover have "pac_response (d_pac (runOnce_shutdown cfg d)) = None"
    using inv by (auto simp: daemon_inv_def runOnce_shutdown_def pac_response_def PacShutdown_def)
  ultimately show ?thesis by (auto simp: runOnce_shutdown_def ProxyServer.Shutdown_def)
qed

text \<open>
  Shutting down a run, from any reachable state, leaves no tunnel wanted and every ssh
  goroutine cancelled, so each returns within two steps; the PAC file is no longer served; the
  proxy accepts no connection and has closed all it tracked; and what is saved last is the state
  the run ended with.
\<close>

theorem shutdown_stops_everything:
  assumes "daemon_reachable is_print uni rng cfg d" "valid_config cfg"
  shows "list_all (\<lambda>s. \<not> Running s \<and> list_all cancelled (runs s)) (d_sups (runOnce_shutdown cfg d)) \<and>
    pac_response (d_pac (runOnce_shutdown cfg d)) = None \<and>
    (\<forall>s. d_server (runOnce_shutdown cfg d) = Some s \<longrightarrow>
       sv_closed s \<and> \<not> sv_listening s \<and> sv_open s \<inter> sv_conns s = {}) \<and>
    (\<exists>es. d_effects (runOnce_shutdown cfg d) = es @ [SaveState (d_state d)])"
  by (rule runOnce_shutdown_stops [OF assms])

theorem shutdown_stops_everything_witness:
  "\<exists>es. d_effects (runOnce_shutdown lan_config (started (Inl []))) = es @ [SaveState (d_state (started (Inl [])))]"
  using shutdown_stops_everything [OF started_reachable [of "\<lambda>_. 0"] valid_lan_config, of "Inl []"] by blast

section \<open>Notifications\<close>

text \<open>
  The failures of a sequence (environment, time, route, category) that reach the user, with the
  state carried from one to the next.
\<close>

fun handle_failures ::
  "notify_config \<Rightarrow> state \<Rightarrow> (bool \<times> time \<times> string \<times> ErrorCategory) list \<Rightarrow>
   (time \<times> string \<times> ErrorCategory \<times> daemon_effect list) list"
where
  "handle_failures nt st [] = []"
| "handle_failures nt st ((auth, now, routeName, cat) # es) =
     (case handleErrorCategory auth nt now routeName cat st of
        (st', effs) \<Rightarrow>
          (if effs = [] then [] else [(now, routeName, cat, effs)]) @ handle_failures nt st' es)"

lemma notify_key_inj: "notify_key r c = notify_key r' c' \<longleftrightarrow> r = r' \<and> c = c'"
proof
  assume eq: "notify_key r c = notify_key r' c'"
  have cut: "cut_last CHR '':'' (notify_key x y) = Some (x, category_string y)" for x y
    using category_string_no_colon [of y] by (simp add: cut_last_Some notify_key_def)
  have "Some (r, category_string c) = Some (r', category_string c')"
    by (simp only: cut [symmetric] eq)
  then show "r = r' \<and> c = c'" by simp
qed simp

lemma handle_failures_notified:
  "nt_Enabled nt \<Longrightarrow>
   map (\<lambda>(now, r, c, _). (notify_key r c, now)) (handle_failures nt st es) =
   cool.notified (nt_Cooldown nt) st (map (\<lambda>(_, now, r, c). (notify_key r c, now)) es)"
  by (induction nt st es rule: handle_failures.induct)
     (simp_all add: handleErrorCategory_def Let_def)

lemma handle_failures_disabled: "\<not> nt_Enabled nt \<Longrightarrow> handle_failures nt st es = []"
  by (induction nt st es rule: handle_failures.induct) (simp_all add: handleErrorCategory_def)

text \<open>
  Claim C25. Notifications do not repeat within the cooldown: of any sequence of ssh failures in
  the order of their times, two notifications for the same route and the same kind of failure are
  at least the configured cooldown apart, whatever failures of other routes or kinds come between.
\<close>

theorem notifications_spaced:
  assumes "sorted (map (\<lambda>(_, now, _). now) es)" "\<forall>(_, now, _) \<in> set es. now \<noteq> 0"
    and "handle_failures nt st es = xs @ (t1, r, c, effs1) # ys @ (t2, r, c, effs2) # zs"
  shows "sint (nt_Cooldown nt) \<le> time_sub t2 t1"
proof -
  let ?f = "\<lambda>(now, r, c, _ :: daemon_effect list). (notify_key r c, now)"
  let ?es = "map (\<lambda>(_, now, r, c). (notify_key r c, now)) es"
  have "nt_Enabled nt" using assms(3) handle_failures_disabled [of nt st es] by auto
  from handle_failures_notified [OF this, of st es]
  have "cool.notified (nt_Cooldown nt) st ?es =
      map ?f xs @ (notify_key r c, t1) # map ?f ys @ (notify_key r c, t2) # map ?f zs"
    by (simp add: assms(3))
  moreover have "map snd ?es = map (\<lambda>(_, now, _). now) es" by (simp add: comp_def case_prod_unfold)
  ultimately show ?thesis using assms(1,2) by (intro cool.notified_spaced) (auto simp: case_prod_unfold comp_def)
qed

theorem notifications_spaced_witness:
  "sint (nt_Cooldown (c_Notify Default)) \<le> time_sub (2 * 10 ^ 12) 1"
proof -
  have cd: "sint (nt_Cooldown (c_Notify Default)) = 1200000000000" by (simp add: Default_def minute_def second_def)
  let ?es = "[(True, 1, ''home'', CategoryAuthAgent), (True, 2 * 10 ^ 12, ''home'', CategoryAuthAgent)]"
  have "\<exists>e1 e2. handle_failures (c_Notify Default) empty_state ?es =
      [] @ (1, ''home'', CategoryAuthAgent, e1) # [] @ (2 * 10 ^ 12, ''home'', CategoryAuthAgent, e2) # []"
    by (simp add: handleErrorCategory_def cd ShouldNotify_def RecordNotified_def empty_state_def time_sub_def
        Let_def) (simp add: Default_def)
  then show ?thesis using notifications_spaced [of ?es "c_Notify Default" empty_state] by fastforce
qed

section \<open>A configuration without routes\<close>

lemma applyState_no_routes: "c_Routes cfg = [] \<Longrightarrow> d_pac (applyState is_print cfg q d) = d_pac d"
  by (simp add: applyState_def split: sum.splits)

lemma no_routes_body:
  assumes "daemon_reachable is_print uni rng cfg d" "c_Routes cfg = []"
  shows "ps_body (d_pac d) = []"
  using assms(1)
proof (induction rule: daemon_reachable.induct)
  case (start cdir loaded pbind xbind query d)
  then show ?case
    by (rule runOnce_start_InrE) (simp add: applyState_no_routes [OF assms(2)] initial_daemon_def)
next
  case (step d e d')
  then show ?case
    by (cases e) (auto simp: applyState_no_routes [OF assms(2)] split: if_splits prod.splits)
qed simp

text \<open>
  Without routes, as in the default configuration, no decision ever changes, so the PAC
  file is never generated: for as long as the daemon runs it serves an empty document, not a
  \<open>FindProxyForURL\<close> that returns \<open>DIRECT\<close>.
\<close>

theorem no_routes_empty_pac:
  assumes "daemon_reachable is_print uni rng cfg d" "valid_config cfg" "c_Routes cfg = []" "pac_Enabled (c_PAC cfg)"
  shows "pac_response (d_pac d) = Some (''application/x-ns-proxy-autoconfig'', [])"
  using daemon_reachable_inv [OF assms(1) valid_distinct [OF assms(2)]] no_routes_body [OF assms(1,3)] assms(4)
  by (simp add: daemon_inv_def pac_response_def)

theorem no_routes_empty_pac_witness:
  "\<exists>d. runOnce_start (\<lambda>_. False) id Default True (Some empty_state) True True (Inl []) = Inr d \<and>
     pac_response (d_pac d) = Some (''application/x-ns-proxy-autoconfig'', [])"
proof -
  obtain d where d: "runOnce_start (\<lambda>_. False) id Default True (Some empty_state) True True (Inl []) = Inr d"
    by (simp add: runOnce_start_def Default_def PacStart_def Let_def)
  have "c_Routes Default = []" "pac_Enabled (c_PAC Default)" by (simp_all add: Default_def)
  from no_routes_empty_pac [OF daemon_reachable.start [OF d, of "\<lambda>_. 0"] valid_Default this] d show ?thesis by blast
qed

end
