(* ===== verification/Reload.thy ===== *)
theory Reload
  imports DaemonRun
begin

text \<open>
  \<open>Run\<close> and \<open>watchConfigFile\<close> of \<open>internal/daemon/daemon.go\<close>: the loop around \<open>runOnce\<close> that
  loads the configuration, starts a run for it and replaces the run when the file changes. The
  watcher polls the modification time and signals through a channel of capacity one; a reload
  loads the file again, and only a configuration that loads replaces the one that runs.
\<close>

section \<open>The state and its steps\<close>

datatype run_error = ResolveFailed | LoadFailed config_error | StartFailed startup_error

text \<open>
  \<open>ru_daemon\<close> is \<open>None\<close> while \<open>runOnce\<close> is still starting; \<open>ru_past\<close> holds the runs that were
  torn down, as they were left.
\<close>

record runner =
  ru_cfg :: config
  ru_daemon :: "daemon option"
  ru_past :: "daemon list"
  ru_lastMod :: time
  ru_reload :: bool

datatype run_state = Active runner | Returned "run_error option"

definition Run_start ::
  "string option \<Rightarrow> (string \<Rightarrow> read_result) \<Rightarrow> (string \<Rightarrow> config \<Rightarrow> string + config) \<Rightarrow>
   'w port_picker \<Rightarrow> 'w \<Rightarrow> string \<Rightarrow> (string \<Rightarrow> time option) \<Rightarrow> run_error + runner"
where
  "Run_start filePath readFile unmarshal pick w configPath stat =
     (case ResolvePath filePath configPath of
        Inl e \<Rightarrow> Inl ResolveFailed
      | Inr p \<Rightarrow>
          (case fst (Load filePath readFile unmarshal pick w configPath) of
             Inl e \<Rightarrow> Inl (LoadFailed e)
           | Inr cfg \<Rightarrow> Inr \<lparr>ru_cfg = cfg, ru_daemon = None, ru_past = [],
               ru_lastMod = (case stat p of Some t \<Rightarrow> t | None \<Rightarrow> 0), ru_reload = False\<rparr>))"

text \<open>One tick of the watcher: what \<open>os.Stat\<close> says of the file.\<close>

definition watch_tick :: "time option \<Rightarrow> runner \<Rightarrow> runner" where
  "watch_tick info r =
     (case info of
        None \<Rightarrow> r
      | Some t \<Rightarrow> if ru_lastMod r < t then r\<lparr>ru_lastMod := t, ru_reload := True\<rparr> else r)"

datatype 'w runner_event =
    ContextCancelled
  | RunOnceStarts bool "state option" bool bool "string + net_state"
  | DaemonSteps daemon_event
  | WatchTick "time option"
  | ReceiveReload "string \<Rightarrow> read_result" 'w

fun runner_step ::
  "(nat \<Rightarrow> bool) \<Rightarrow> (string \<Rightarrow> string) \<Rightarrow> (int64 \<Rightarrow> int64) \<Rightarrow> string option \<Rightarrow>
   (string \<Rightarrow> config \<Rightarrow> string + config) \<Rightarrow> 'w port_picker \<Rightarrow> string \<Rightarrow> 'w runner_event \<Rightarrow> runner \<Rightarrow> run_state option"
where
  "runner_step is_print uni rng fp um pick path ContextCancelled r = Some (Returned None)"
| "runner_step is_print uni rng fp um pick path (RunOnceStarts cdir loaded pbind xbind query) r =
     (if ru_daemon r = None then
        Some (case runOnce_start is_print uni (ru_cfg r) cdir loaded pbind xbind query of
                Inl (e, _) \<Rightarrow> Returned (Some (StartFailed e))
              | Inr d \<Rightarrow> Active (r\<lparr>ru_daemon := Some d\<rparr>))
      else None)"
| "runner_step is_print uni rng fp um pick path (DaemonSteps e) r =
     (case ru_daemon r of
        None \<Rightarrow> None
      | Some d \<Rightarrow> map_option (\<lambda>d'. Active (r\<lparr>ru_daemon := Some d'\<rparr>)) (daemon_step is_print rng (ru_cfg r) e d))"
| "runner_step is_print uni rng fp um pick path (WatchTick info) r = Some (Active (watch_tick info r))"
| "runner_step is_print uni rng fp um pick path (ReceiveReload readFile w) r =
     (if ru_reload r then
        (let r' = r\<lparr>ru_reload := False\<rparr> in
         Some (Active (case fst (Load fp readFile um pick w path) of
             Inl e \<Rightarrow> r'
           | Inr newCfg \<Rightarrow>
               r'\<lparr>ru_past := (case ru_daemon r of None \<Rightarrow> ru_past r
                                 | Some d \<Rightarrow> ru_past r @ [runOnce_shutdown (ru_cfg r) d]),
                  ru_cfg := newCfg, ru_daemon := None\<rparr>)))
      else None)"

inductive runner_reachable ::
  "(nat \<Rightarrow> bool) \<Rightarrow> (string \<Rightarrow> string) \<Rightarrow> (int64 \<Rightarrow> int64) \<Rightarrow> string option \<Rightarrow>
   (string \<Rightarrow> config \<Rightarrow> string + config) \<Rightarrow> 'w port_picker \<Rightarrow> string \<Rightarrow> run_state \<Rightarrow> bool"
  for is_print uni rng fp um pick path where
  init: "Run_start fp readFile um pick w path stat = Inr r \<Longrightarrow>
    runner_reachable is_print uni rng fp um pick path (Active r)"
| step: "runner_reachable is_print uni rng fp um pick path (Active r) \<Longrightarrow>
    runner_step is_print uni rng fp um pick path e r = Some s \<Longrightarrow>
    runner_reachable is_print uni rng fp um pick path s"
| serve: "runner_reachable is_print uni rng fp um pick path (Active r) \<Longrightarrow>
    ru_daemon r = Some d \<Longrightarrow> d_server d = Some s \<Longrightarrow> server_step s s' \<Longrightarrow>
    runner_reachable is_print uni rng fp um pick path (Active (r\<lparr>ru_daemon := Some (d\<lparr>d_server := Some s'\<rparr>)\<rparr>))"

section \<open>The invariant\<close>

definition torn_down :: "daemon \<Rightarrow> bool" where
  "torn_down d \<longleftrightarrow>
     list_all (\<lambda>s. \<not> Running s \<and> list_all cancelled (runs s)) (d_sups d) \<and>
     pac_response (d_pac d) = None \<and>
     (\<forall>s. d_server d = Some s \<longrightarrow> sv_closed s \<and> \<not> sv_listening s)"

definition runner_inv ::
  "(nat \<Rightarrow> bool) \<Rightarrow> (string \<Rightarrow> string) \<Rightarrow> (int64 \<Rightarrow> int64) \<Rightarrow> runner \<Rightarrow> bool"
where
  "runner_inv is_print uni rng r \<longleftrightarrow>
     valid_config (ru_cfg r) \<and>
     pred_option (daemon_reachable is_print uni rng (ru_cfg r)) (ru_daemon r) \<and>
     list_all torn_down (ru_past r)"

fun state_inv :: "(nat \<Rightarrow> bool) \<Rightarrow> (string \<Rightarrow> string) \<Rightarrow> (int64 \<Rightarrow> int64) \<Rightarrow> run_state \<Rightarrow> bool" where
  "state_inv is_print uni rng (Active r) = runner_inv is_print uni rng r"
| "state_inv is_print uni rng (Returned e) = True"

lemma Run_start_inv: "Run_start fp rd um pick w path stat = Inr r \<Longrightarrow> runner_inv is_print uni rng r"
  using Load_valid [of fp rd um pick w path]
  by (auto simp: Run_start_def runner_inv_def split: sum.splits)

lemma watch_tick_inv: "runner_inv is_print uni rng r \<Longrightarrow> runner_inv is_print uni rng (watch_tick info r)"
  by (auto simp: watch_tick_def runner_inv_def split: option.splits)

lemma torn_down_shutdown:
  "daemon_reachable is_print uni rng cfg d \<Longrightarrow> valid_config cfg \<Longrightarrow> torn_down (runOnce_shutdown cfg d)"
  using runOnce_shutdown_stops [of is_print uni rng cfg d] by (simp add: torn_down_def)

lemma runner_step_inv:
  assumes "runner_step is_print uni rng fp um pick path e r = Some s" "runner_inv is_print uni rng r"
  shows "state_inv is_print uni rng s"
proof (cases e)
  case ContextCancelled
  with assms(1) show ?thesis by auto
next
  case (RunOnceStarts cdir loaded pbind xbind query)
  with assms show ?thesis
    by (auto simp: runner_inv_def intro: daemon_reachable.start split: if_splits sum.splits)
next
  case (DaemonSteps ev)
  with assms show ?thesis
    by (auto simp: runner_inv_def intro: daemon_reachable.step split: option.splits)
next
  case (WatchTick info)
  with assms show ?thesis using watch_tick_inv by auto
next
  case (ReceiveReload readFile w)
  show ?thesis
  proof (cases "fst (Load fp readFile um pick w path)")
    case (Inl err)
    with assms ReceiveReload show ?thesis by (auto simp: runner_inv_def split: if_splits)
  next
    case (Inr newCfg)
    then have "valid_config newCfg" by (rule Load_valid)
    moreover have "torn_down (runOnce_shutdown (ru_cfg r) d)" if "ru_daemon r = Some d" for d
      using assms(2) that by (intro torn_down_shutdown [of is_print uni rng]) (simp_all add: runner_inv_def)
    ultimately show ?thesis
      using assms ReceiveReload Inr by (auto simp: runner_inv_def split: if_splits option.splits)
  qed
qed

lemma runner_reachable_inv:
  "runner_reachable is_print uni rng fp um pick path s \<Longrightarrow> state_inv is_print uni rng s"
proof (induction rule: runner_reachable.induct)
  case (init readFile w stat r)
  then show ?case by (simp add: Run_start_inv)
next
  case (step r e s)
  then show ?case using runner_step_inv by fastforce
next
  case (serve r d s s')
  then show ?case by (auto simp: runner_inv_def intro: daemon_reachable.serve)
qed

section \<open>Properties\<close>

text \<open>
  Claim C13. However edits, reloads, network changes, failures and connections interleave, the
  configuration that runs is always a valid one, the run that is active is a run of exactly that
  configuration, and every run before it has been torn down: no tunnel wanted, no goroutine left
  uncancelled, no listener open.
\<close>

theorem reload_invariant:
  assumes "runner_reachable is_print uni rng fp um pick path (Active r)"
  shows "valid_config (ru_cfg r) \<and>
    (\<forall>d. ru_daemon r = Some d \<longrightarrow> daemon_reachable is_print uni rng (ru_cfg r) d) \<and>
    list_all torn_down (ru_past r)"
  using runner_reachable_inv [OF assms] by (auto simp: runner_inv_def)

text \<open>A start without a configuration file.\<close>

definition default_runner :: runner where
  "default_runner = \<lparr>ru_cfg = Default, ru_daemon = None, ru_past = [], ru_lastMod = 0, ru_reload = False\<rparr>"

lemma default_runner_reachable:
  "runner_reachable is_print uni rng None um (\<lambda>w (_ :: string). (Inl [], w)) ''c.yaml'' (Active default_runner)"
  by (rule runner_reachable.init [where readFile = "\<lambda>_. NotExist" and stat = "\<lambda>_. None"])
     (simp add: Run_start_def Load_def ResolvePath_def default_runner_def)

theorem reload_invariant_witness: "valid_config (ru_cfg default_runner)"
  using reload_invariant [OF default_runner_reachable [of "\<lambda>_. False" id "\<lambda>_. 0" "\<lambda>_. Inr"]] by blast

text \<open>
  Not every change of the file is noticed. The watcher asks for the modification time
  after the configuration has been loaded and reloads only for a later one: an edit between the two
  (the configuration has the contents of before, the time is that of the edit), and any replacement
  by a file with an older or equal time, leave the daemon with the old configuration for good, since
  no tick of the watcher signals a reload.
\<close>

theorem edit_before_first_stat_is_missed:
  assumes "path \<noteq> []" "readFile path = Data old" "unmarshal old Default = Inr (Default\<lparr>c_Routes := []\<rparr>)"
    and "stat path = Some t" "list_all (\<lambda>info. case info of None \<Rightarrow> True | Some t' \<Rightarrow> t' \<le> t) infos"
  shows "\<exists>r. Run_start fp readFile unmarshal pick w path stat = Inr r \<and>
    fold watch_tick infos r = r \<and> \<not> ru_reload r \<and>
    runner_step is_print uni rng fp um pick path (ReceiveReload readFile' w') (fold watch_tick infos r) = None"
proof -
  let ?cfg = "Default\<lparr>c_Routes := []\<rparr>"
  let ?r = "\<lparr>ru_cfg = ?cfg, ru_daemon = None, ru_past = [], ru_lastMod = t, ru_reload = False\<rparr>"
  have "?cfg = Default" by (simp add: Default_def)
  then have "ok (Validate ?cfg)" using valid_Default by (simp only: Validate_iff)
  then obtain u where "Validate ?cfg = Inr u" unfolding ok_iff ..
  then have "fst (Load fp readFile unmarshal pick w path) = Inr ?cfg"
    using assms(1-3) by (simp add: Load_def ResolvePath_def)
  then have start: "Run_start fp readFile unmarshal pick w path stat = Inr ?r"
    using assms(1,4) by (simp add: Run_start_def ResolvePath_def)
  have "watch_tick info ?r = ?r" if "info \<in> set infos" for info
    using assms(5) that by (cases info) (auto simp: watch_tick_def list_all_iff)
  then have "fold watch_tick infos ?r = ?r" by (induction infos) auto
  with start show ?thesis by (intro exI [of _ ?r]) simp
qed

theorem edit_before_first_stat_is_missed_witness:
  "\<exists>r. Run_start None (\<lambda>_. Data ''old'') (\<lambda>_ c. Inr c) (\<lambda>w (_ :: string). (Inl [], w)) () ''c.yaml''
      (\<lambda>_. Some 7) = Inr r \<and> fold watch_tick [Some 7, None, Some 3] r = r \<and> \<not> ru_reload r"
  using edit_before_first_stat_is_missed [where path = "''c.yaml''" and readFile = "\<lambda>_. Data ''old''"
      and old = "''old''" and unmarshal = "\<lambda>_ c. Inr c" and stat = "\<lambda>_. Some 7" and t = 7
      and infos = "[Some 7, None, Some 3]" and fp = None and pick = "\<lambda>w (_ :: string). (Inl [], w)" and w = "()"]
  by (fastforce simp: Default_def)

end
