(* ===== verification/Update.thy ===== *)
theory Update
  imports Paths
begin

text \<open>
  \<open>internal/update\<close>: versions and their order, the checksum file, the extraction of the binary
  and \<open>Apply\<close>, which downloads, verifies and replaces the executable. HTTP, JSON, SHA-256 and
  the gzip and tar readers are parameters; the file system is a map from paths to contents and
  permission bits, and replacing a file is the sequence of its states, as other processes see them or
  a killed one leaves them; nothing is synced, so a power loss is outside of it. The deferred removal
  of the temporary file is taken to succeed.
\<close>

section \<open>Names and versions\<close>

definition binaryName :: "string \<Rightarrow> string \<Rightarrow> string \<Rightarrow> string" where
  "binaryName tag goos goarch = ''ssh-autoproxy-'' @ tag @ ''-'' @ goos @ ''-'' @ goarch"

definition ArchiveName :: "string \<Rightarrow> string \<Rightarrow> string \<Rightarrow> string" where
  "ArchiveName tag goos goarch = binaryName tag goos goarch @ ''.tar.gz''"

datatype version = Version int int int

fun version_parts :: "version \<Rightarrow> int list" where
  "version_parts (Version a b c) = [a, b, c]"

definition version_part :: "string \<Rightarrow> int option" where
  "version_part p = (case atoi p of None \<Rightarrow> None | Some n \<Rightarrow> if n < 0 then None else Some n)"

definition parseVersion :: "string \<Rightarrow> version option" where
  "parseVersion v =
     (let parts = split_on CHR ''.'' (trim_prefix v ''v'') in
      if \<not> has_prefix v ''v'' \<or> length parts \<noteq> 3 then None
      else (case map version_part parts of
          [Some a, Some b, Some c] \<Rightarrow> Some (Version a b c)
        | _ \<Rightarrow> None))"

datatype update_error =
    CurrentVersion | LatestVersion
  | QueryFailed string | BadStatus nat | DecodeFailed | NoTag
  | NoBuild | NoChecksums | DownloadFailed string | TooLarge | NoEntry | ChecksumMismatch
  | ArchiveFailed string | NotFoundInArchive | CreateTempFailed | WriteFailed | ChmodFailed | CloseFailed
  | RenameFailed

fun newer_parts :: "int list \<Rightarrow> int list \<Rightarrow> bool" where
  "newer_parts (c # cs) (l # ls) = (if l \<noteq> c then l > c else newer_parts cs ls)"
| "newer_parts _ _ = False"

definition IsNewer :: "string \<Rightarrow> string \<Rightarrow> update_error + bool" where
  "IsNewer current latest =
     (case parseVersion current of
        None \<Rightarrow> Inl CurrentVersion
      | Some cur \<Rightarrow>
          (case parseVersion latest of
             None \<Rightarrow> Inl LatestVersion
           | Some lat \<Rightarrow> Inr (newer_parts (version_parts cur) (version_parts lat))))"

section \<open>Downloads\<close>

text \<open>
  What \<open>HTTP.Do\<close> yields: an error, or a status code with the bytes that can be read and the
  error after them, if any. \<open>ReadAll\<close> over \<open>LimitReader\<close> stops after \<open>limit + 1\<close> bytes.
\<close>

datatype http_result = NoResponse string | Response nat string "string option"

definition read_limited :: "nat \<Rightarrow> string \<Rightarrow> string option \<Rightarrow> string + string" where
  "read_limited n body err =
     (if n \<le> length body then Inr (take n body)
      else case err of None \<Rightarrow> Inr body | Some e \<Rightarrow> Inl e)"

definition maxArchiveSize :: nat where
  "maxArchiveSize = 100 * 2 ^ 20"

definition maxChecksumsSize :: nat where
  "maxChecksumsSize = 2 ^ 20"

definition download :: "(string \<Rightarrow> http_result) \<Rightarrow> string \<Rightarrow> nat \<Rightarrow> update_error + string" where
  "download fetch url limit =
     (case fetch url of
        NoResponse e \<Rightarrow> Inl (DownloadFailed e)
      | Response status body err \<Rightarrow>
          if status \<noteq> 200 then Inl (BadStatus status)
          else (case read_limited (limit + 1) body err of
              Inl e \<Rightarrow> Inl (DownloadFailed e)
            | Inr data \<Rightarrow> if limit < length data then Inl TooLarge else Inr data))"

text \<open>\<open>Latest\<close>; the decoder gets the limited body, and the error after it if it gets that far.\<close>

record release =
  rel_Tag :: string
  rel_Assets :: "string \<rightharpoonup> string"

definition DefaultAPIBase :: string where
  "DefaultAPIBase = ''https://api.github.com''"

definition Repo :: string where
  "Repo = ''rmonk/ssh-autoproxy''"

record client =
  cl_APIBase :: string
  cl_Repo :: string

definition NewClient :: client where
  "NewClient = \<lparr>cl_APIBase = DefaultAPIBase, cl_Repo = Repo\<rparr>"

definition Latest ::
  "(string \<Rightarrow> http_result) \<Rightarrow> (string \<Rightarrow> string option \<Rightarrow> (string \<times> (string \<times> string) list) option) \<Rightarrow>
   client \<Rightarrow> update_error + release"
where
  "Latest fetch decode c =
     (case fetch (trim_suffix (cl_APIBase c) ''/'' @ ''/repos/'' @ cl_Repo c @ ''/releases/latest'') of
        NoResponse e \<Rightarrow> Inl (QueryFailed e)
      | Response status body err \<Rightarrow>
          if status \<noteq> 200 then Inl (BadStatus status)
          else (case (if maxChecksumsSize \<le> length body then decode (take maxChecksumsSize body) None
                      else decode body err) of
              None \<Rightarrow> Inl DecodeFailed
            | Some (tag, assets) \<Rightarrow>
                if tag = [] then Inl NoTag
                else Inr \<lparr>rel_Tag = tag, rel_Assets = foldl (\<lambda>m (name, url). m(name \<mapsto> url)) (\<lambda>_. None) assets\<rparr>))"

section \<open>The checksum file\<close>

definition unicode_space :: "nat \<Rightarrow> bool" where
  "unicode_space r \<longleftrightarrow>
     9 \<le> r \<and> r \<le> 13 \<or> r = 0x20 \<or> r = 0x85 \<or> r = 0xA0 \<or> r = 0x1680 \<or> 0x2000 \<le> r \<and> r \<le> 0x200A \<or>
     r = 0x2028 \<or> r = 0x2029 \<or> r = 0x202F \<or> r = 0x205F \<or> r = 0x3000"

text \<open>\<open>strings.Fields\<close>, with the field read so far.\<close>

function fields_loop :: "string \<Rightarrow> string \<Rightarrow> string list" where
  "fields_loop cur [] = (if cur = [] then [] else [cur])"
| "fields_loop cur (c # s) =
     (let (r, w) = decode_rune (c # s) in
      if unicode_space r then (if cur = [] then [] else [cur]) @ fields_loop [] (drop w (c # s))
      else fields_loop (cur @ take w (c # s)) (drop w (c # s)))"
  by pat_completeness auto
termination
  by (relation "measure (\<lambda>(cur, s). length s)") (auto dest!: decode_rune_pos' simp: less_Suc_eq_le)

definition str_fields :: "string \<Rightarrow> string list" where
  "str_fields s = fields_loop [] s"

definition checksum_line :: "(string \<rightharpoonup> string) \<Rightarrow> string \<Rightarrow> (string \<rightharpoonup> string)" where
  "checksum_line sums line =
     (case str_fields line of
        [hex, name] \<Rightarrow> sums(trim_prefix name ''*'' \<mapsto> hex)
      | _ \<Rightarrow> sums)"

definition parseChecksums :: "string \<Rightarrow> (string \<rightharpoonup> string)" where
  "parseChecksums data = foldl checksum_line (\<lambda>_. None) (scan_lines data)"

section \<open>The archive\<close>

text \<open>
  The entries a tar reader yields, each with its type flag, its data and the error after the data,
  if any; and how the sequence ends: at the end of the archive, or with an error.
\<close>

record tar_entry =
  te_Name :: string
  te_Typeflag :: char
  te_Data :: string
  te_Err :: "string option"

definition TypeReg :: char where
  "TypeReg = CHR ''0''"

fun extract_loop :: "string \<Rightarrow> tar_entry list \<Rightarrow> string option \<Rightarrow> update_error + string" where
  "extract_loop name [] None = Inl NotFoundInArchive"
| "extract_loop name [] (Some e) = Inl (ArchiveFailed e)"
| "extract_loop name (hdr # es) end_err =
     (if te_Name hdr \<noteq> name \<or> te_Typeflag hdr \<noteq> TypeReg then extract_loop name es end_err
      else (case read_limited (maxArchiveSize + 1) (te_Data hdr) (te_Err hdr) of
          Inl e \<Rightarrow> Inl (ArchiveFailed e)
        | Inr data \<Rightarrow> if maxArchiveSize < length data then Inl TooLarge else Inr data))"

definition extractFile ::
  "(string \<Rightarrow> string + tar_entry list \<times> string option) \<Rightarrow> string \<Rightarrow> string \<Rightarrow> update_error + string"
where
  "extractFile open_archive archive name =
     (case open_archive archive of
        Inl e \<Rightarrow> Inl (ArchiveFailed e)
      | Inr (entries, end_err) \<Rightarrow> extract_loop name entries end_err)"

section \<open>Replacing the executable\<close>

text \<open>Files with their permission bits; which call of \<open>replaceFile\<close> fails, if one does.\<close>

type_synonym mode_fs = "string \<rightharpoonup> string \<times> nat"

datatype io_fault = NoFault | CreateFault | WriteFault nat | ChmodFault | CloseFault | RenameFault

definition temp_states :: "string \<Rightarrow> string \<Rightarrow> nat \<Rightarrow> mode_fs \<Rightarrow> mode_fs list" where
  "temp_states tmp data n fs = map (\<lambda>k. fs(tmp \<mapsto> (take k data, 384))) [0 ..< Suc n]"

definition replaceFile ::
  "string \<Rightarrow> string \<Rightarrow> string \<Rightarrow> io_fault \<Rightarrow> mode_fs \<Rightarrow> (update_error + unit) \<times> mode_fs list"
where
  "replaceFile tmp path data fault fs =
     (let written = temp_states tmp data (length data) fs;
          executable = fs(tmp \<mapsto> (data, 493));
          renamed = (executable(path \<mapsto> (data, 493)))(tmp := None);
          removed = fs(tmp := None)
      in case fault of
           CreateFault \<Rightarrow> (Inl CreateTempFailed, [fs])
         | WriteFault n \<Rightarrow> (Inl WriteFailed, fs # temp_states tmp data (min n (length data)) fs @ [removed])
         | ChmodFault \<Rightarrow> (Inl ChmodFailed, fs # written @ [removed])
         | CloseFault \<Rightarrow> (Inl CloseFailed, fs # written @ [executable, removed])
         | RenameFault \<Rightarrow> (Inl RenameFailed, fs # written @ [executable, removed])
         | NoFault \<Rightarrow> (Inr (), fs # written @ [executable, renamed]))"

section \<open>Apply\<close>

text \<open>What is fetched and verified: the binary to install, or the first failure.\<close>

definition verified_binary ::
  "(string \<Rightarrow> http_result) \<Rightarrow> (string \<Rightarrow> string) \<Rightarrow> (string \<Rightarrow> string + tar_entry list \<times> string option) \<Rightarrow>
   release \<Rightarrow> string \<Rightarrow> string \<Rightarrow> update_error + string"
where
  "verified_binary fetch sha256_hex open_archive rel goos goarch =
     (let archive = ArchiveName (rel_Tag rel) goos goarch in
      case rel_Assets rel archive of
        None \<Rightarrow> Inl NoBuild
      | Some archiveURL \<Rightarrow>
          (case rel_Assets rel ''SHA256SUMS'' of
             None \<Rightarrow> Inl NoChecksums
           | Some sumsURL \<Rightarrow>
               andthen (download fetch sumsURL maxChecksumsSize) (\<lambda>sumsData.
                 case parseChecksums sumsData archive of
                   None \<Rightarrow> Inl NoEntry
                 | Some want \<Rightarrow>
                     andthen (download fetch archiveURL maxArchiveSize) (\<lambda>data.
                       if \<not> equal_fold (sha256_hex data) want then Inl ChecksumMismatch
                       else extractFile open_archive data (binaryName (rel_Tag rel) goos goarch)))))"

definition Apply ::
  "(string \<Rightarrow> http_result) \<Rightarrow> (string \<Rightarrow> string) \<Rightarrow> (string \<Rightarrow> string + tar_entry list \<times> string option) \<Rightarrow>
   release \<Rightarrow> string \<Rightarrow> string \<Rightarrow> string \<Rightarrow> string \<Rightarrow> io_fault \<Rightarrow> mode_fs \<Rightarrow> (update_error + unit) \<times> mode_fs list"
where
  "Apply fetch sha256_hex open_archive rel goos goarch exePath tmp fault fs =
     (case verified_binary fetch sha256_hex open_archive rel goos goarch of
        Inl e \<Rightarrow> (Inl e, [fs])
      | Inr bin \<Rightarrow> replaceFile tmp exePath bin fault fs)"

section \<open>The order of versions\<close>

instantiation version :: linorder
begin

fun less_eq_version :: "version \<Rightarrow> version \<Rightarrow> bool" where
  "less_eq_version (Version a b c) (Version a' b' c') \<longleftrightarrow>
     a < a' \<or> a = a' \<and> (b < b' \<or> b = b' \<and> c \<le> c')"

definition less_version :: "version \<Rightarrow> version \<Rightarrow> bool" where
  "less_version x y \<longleftrightarrow> x \<le> y \<and> \<not> y \<le> (x :: version)"

instance
proof
  fix x y z :: version
  show "x < y \<longleftrightarrow> x \<le> y \<and> \<not> y \<le> x" by (rule less_version_def)
  show "x \<le> x" by (cases x) simp
  show "x \<le> y \<Longrightarrow> y \<le> z \<Longrightarrow> x \<le> z" by (cases x; cases y; cases z) auto
  show "x \<le> y \<Longrightarrow> y \<le> x \<Longrightarrow> x = y" by (cases x; cases y) auto
  show "x \<le> y \<or> y \<le> x" by (cases x; cases y) auto
qed

end

lemma newer_parts_less: "newer_parts (version_parts x) (version_parts y) \<longleftrightarrow> x < y"
  by (cases x; cases y) (auto simp: less_version_def)

text \<open>The text of a version.\<close>

fun version_string :: "version \<Rightarrow> string" where
  "version_string (Version a b c) = ''v'' @ itoa a @ ''.'' @ itoa b @ ''.'' @ itoa c"

fun proper_version :: "version \<Rightarrow> bool" where
  "proper_version (Version a b c) \<longleftrightarrow>
     0 \<le> a \<and> a < 2 ^ 63 \<and> 0 \<le> b \<and> b < 2 ^ 63 \<and> 0 \<le> c \<and> c < 2 ^ 63"

lemma itoa_no_dot: "CHR ''.'' \<notin> set (itoa i)"
  using itoa_chars [of _ i] by (fastforce simp: is_digit_def)

lemma version_part_itoa: "version_part (itoa n) = (if 0 \<le> n \<and> n < 2 ^ 63 then Some n else None)"
  by (auto simp: version_part_def atoi_itoa_eq int_range_def)

lemma parse_version_string:
  "parseVersion (version_string v) = (if proper_version v then Some v else None)"
proof (cases v)
  case (Version a b c)
  have "split_on CHR ''.'' (itoa a @ ''.'' @ itoa b @ ''.'' @ itoa c) = [itoa a, itoa b, itoa c]"
    using itoa_no_dot by (simp add: split_on_append split_on_no_sep)
  then show ?thesis
    by (simp add: Version parseVersion_def Let_def trim_prefix_def has_prefix_def version_part_itoa)
qed

text \<open>
  Claim C39. \<open>IsNewer\<close> decides the order of release versions: the loop over the three components
  is the lexicographic order, a linear order on versions; a version printed as \<open>vMAJOR.MINOR.PATCH\<close>
  with components that fit an \<open>int\<close> is read back as it was, so of two such versions exactly one is
  newer unless they are equal; and a text that is no version is an error naming which of the two it is.
\<close>

theorem is_newer_is_release_order:
  "IsNewer current latest =
     (case parseVersion current of
        None \<Rightarrow> Inl CurrentVersion
      | Some x \<Rightarrow> (case parseVersion latest of None \<Rightarrow> Inl LatestVersion | Some y \<Rightarrow> Inr (x < y))) \<and>
   parseVersion (version_string v) = (if proper_version v then Some v else None)"
  by (auto simp: IsNewer_def newer_parts_less parse_version_string split: option.splits)

section \<open>The checksum file\<close>

definition plain_word :: "string \<Rightarrow> bool" where
  "plain_word w \<longleftrightarrow> w \<noteq> [] \<and> list_all (\<lambda>c. 33 \<le> code c \<and> code c \<le> 126) w"

lemma fields_plain:
  "list_all (\<lambda>c. 33 \<le> code c \<and> code c \<le> 126) w \<Longrightarrow> fields_loop cur (w @ s) = fields_loop (cur @ w) s"
  by (induction w arbitrary: cur) (auto simp: unicode_space_def)

lemma fields_space: "fields_loop cur (CHR '' '' # s) = (if cur = [] then [] else [cur]) @ fields_loop [] s"
  by (simp add: unicode_space_def)

lemma fields_checksum_line:
  assumes "plain_word hex" "plain_word name"
  shows "str_fields (hex @ ''  '' @ name) = [hex, name]"
proof -
  have "fields_loop [] (name @ []) = fields_loop name []"
    using assms(2) by (subst fields_plain) (simp_all add: plain_word_def)
  then have "fields_loop [] name = [name]" using assms(2) by (simp add: plain_word_def)
  moreover have "fields_loop [] (hex @ '' '' @ '' '' @ name) = fields_loop hex (CHR '' '' # CHR '' '' # name)"
    using assms(1) by (subst fields_plain) (simp_all add: plain_word_def)
  ultimately show ?thesis
    using assms(1) by (simp add: str_fields_def fields_space plain_word_def del: fields_loop.simps)
qed

definition sha256sum_output :: "(string \<times> string) list \<Rightarrow> string" where
  "sha256sum_output entries = concat (map (\<lambda>(hex, name). (hex @ ''  '' @ name) @ [CHR 0x0A]) entries)"

definition plain_entry :: "string \<times> string \<Rightarrow> bool" where
  "plain_entry e \<longleftrightarrow> plain_word (fst e) \<and> plain_word (snd e) \<and> \<not> has_prefix (snd e) ''*'' \<and>
     length (fst e) + length (snd e) + 2 < max_token"

lemma checksum_line_plain:
  "plain_entry (hex, name) \<Longrightarrow> checksum_line m (hex @ ''  '' @ name) = m(name \<mapsto> hex)"
  by (simp add: checksum_line_def fields_checksum_line plain_entry_def trim_prefix_def del: append.simps)

lemma foldl_checksum_lines:
  "list_all plain_entry entries \<Longrightarrow>
   foldl checksum_line m (map (\<lambda>(hex, name). hex @ ''  '' @ name) entries) =
   m ++ map_of (rev (map prod.swap entries))"
  by (induction entries arbitrary: m)
     (auto simp: checksum_line_plain map_add_upd_left simp del: append.simps)

lemma parseChecksums_output:
  assumes "list_all plain_entry entries"
  shows "parseChecksums (sha256sum_output entries) = map_of (rev (map prod.swap entries))"
proof -
  let ?ls = "map (\<lambda>(hex, name). hex @ ''  '' @ name) entries"
  have plain: "CHR 0x0A \<notin> set w \<and> w \<noteq> [] \<and> last w \<noteq> CHR 0x0D" if "plain_word w" for w
    using that by (cases w rule: rev_cases) (auto simp: plain_word_def list_all_iff)
  have "list_all (\<lambda>l. CHR 0x0A \<notin> set l \<and> (l = [] \<or> last l \<noteq> CHR 0x0D) \<and> length l < max_token) ?ls"
    using assms plain by (auto simp: list_all_iff plain_entry_def)
  then have "scan_lines (concat (map (\<lambda>l. l @ [CHR 0x0A]) ?ls)) = ?ls" by (rule scan_lines_unlines)
  moreover have "sha256sum_output entries = concat (map (\<lambda>l. l @ [CHR 0x0A]) ?ls)"
    by (simp add: sha256sum_output_def comp_def case_prod_unfold)
  ultimately show ?thesis
    using foldl_checksum_lines [OF assms, of "\<lambda>_. None"] by (simp add: parseChecksums_def)
qed

text \<open>
  \<open>parseChecksums\<close> reads back what \<open>sha256sum\<close> writes: for any list of checksums and
  names without blanks whose lines fit the scanner's buffer, the table maps each name to its
  checksum, the last one where a name occurs twice.
\<close>

theorem parse_checksums_roundtrip:
  assumes "list_all plain_entry entries"
  shows "parseChecksums (sha256sum_output entries) = map_of (rev (map prod.swap entries))"
  by (rule parseChecksums_output [OF assms])

theorem parse_checksums_roundtrip_witness:
  "parseChecksums (sha256sum_output [(''ab01'', ''x.tar.gz'')]) ''x.tar.gz'' = Some ''ab01''"
  using parse_checksums_roundtrip [of "[(''ab01'', ''x.tar.gz'')]"]
  by (simp add: plain_entry_def plain_word_def has_prefix_def max_token_def)

section \<open>Installing\<close>

lemma replaceFile_old_or_new:
  assumes "tmp \<noteq> path" "fs' \<in> set (snd (replaceFile tmp path data fault fs))"
  shows "fs' path = fs path \<or> fs' path = Some (data, 493)"
  using assms by (cases fault) (auto simp: replaceFile_def temp_states_def Let_def)

lemma replaceFile_last:
  assumes "tmp \<noteq> path" "fs tmp = None"
  shows "last (snd (replaceFile tmp path data fault fs)) =
    (if fault = NoFault then fs(path \<mapsto> (data, 493)) else fs)"
  using assms by (cases fault) (auto simp: replaceFile_def Let_def fun_eq_iff)

lemma replaceFile_result: "fst (replaceFile tmp path data fault fs) = Inr () \<longleftrightarrow> fault = NoFault"
  by (cases fault) (simp_all add: replaceFile_def Let_def)

lemma verified_binary_Inr:
  assumes "verified_binary fetch sha open_archive rel goos goarch = Inr bin"
  shows "\<exists>archiveURL sumsURL sumsData want data.
    rel_Assets rel (ArchiveName (rel_Tag rel) goos goarch) = Some archiveURL \<and>
    rel_Assets rel ''SHA256SUMS'' = Some sumsURL \<and>
    download fetch sumsURL maxChecksumsSize = Inr sumsData \<and>
    parseChecksums sumsData (ArchiveName (rel_Tag rel) goos goarch) = Some want \<and>
    download fetch archiveURL maxArchiveSize = Inr data \<and> equal_fold (sha data) want \<and>
    extractFile open_archive data (binaryName (rel_Tag rel) goos goarch) = Inr bin"
  using assms
  by (auto simp: verified_binary_def Let_def andthen_eq_Inr split: option.splits if_splits)

text \<open>
  Claim C8. The executable is replaced atomically and only by a verified binary. Whatever the
  servers answer, whichever step fails and at whatever moment the machine stops, the file is the old
  one or, complete and executable, the file of that name in an archive whose SHA-256 is the one the
  release's checksum file gives for it. If \<open>Apply\<close> returns an error the file system is as before,
  with no temporary file left; if it succeeds exactly that file has changed.
\<close>

theorem apply_installs_only_verified:
  assumes "tmp \<noteq> exePath" "fs tmp = None"
    and "Apply fetch sha open_archive rel goos goarch exePath tmp fault fs = (result, states)"
  shows "(\<forall>fs' \<in> set states. fs' exePath = fs exePath \<or>
      (\<exists>bin url data sums_url sums want. fs' exePath = Some (bin, 493) \<and>
         rel_Assets rel (ArchiveName (rel_Tag rel) goos goarch) = Some url \<and>
         rel_Assets rel ''SHA256SUMS'' = Some sums_url \<and> download fetch sums_url maxChecksumsSize = Inr sums \<and>
         parseChecksums sums (ArchiveName (rel_Tag rel) goos goarch) = Some want \<and>
         download fetch url maxArchiveSize = Inr data \<and> equal_fold (sha data) want \<and>
         extractFile open_archive data (binaryName (rel_Tag rel) goos goarch) = Inr bin)) \<and>
    (\<forall>e. result = Inl e \<longrightarrow> last states = fs) \<and>
    (result = Inr () \<longrightarrow> (\<exists>bin. last states = fs(exePath \<mapsto> (bin, 493))))"
proof (cases "verified_binary fetch sha open_archive rel goos goarch")
  case (Inl e)
  with assms(3) show ?thesis by (auto simp: Apply_def)
next
  case (Inr bin)
  then have r: "replaceFile tmp exePath bin fault fs = (result, states)"
    using assms(3) by (simp add: Apply_def)
  have "fs' exePath = fs exePath \<or> fs' exePath = Some (bin, 493)" if "fs' \<in> set states" for fs'
    using replaceFile_old_or_new [OF assms(1), of fs' bin fault fs] that by (simp add: r)
  moreover have "last states = (if fault = NoFault then fs(exePath \<mapsto> (bin, 493)) else fs)"
    using replaceFile_last [of tmp exePath fs bin fault] assms(1,2) by (simp add: r)
  moreover have "result = Inr () \<longleftrightarrow> fault = NoFault"
    using replaceFile_result [of tmp exePath bin fault fs] by (simp add: r)
  ultimately show ?thesis using verified_binary_Inr [OF Inr] by (auto; blast)
qed

text \<open>A release with one build, its server and its archive.\<close>

definition demo_release :: release where
  "demo_release = \<lparr>rel_Tag = ''v1.0.0'', rel_Assets =
     [''ssh-autoproxy-v1.0.0-linux-amd64.tar.gz'' \<mapsto> ''a'', ''SHA256SUMS'' \<mapsto> ''s'']\<rparr>"

definition demo_fetch :: "string \<Rightarrow> http_result" where
  "demo_fetch url = Response 200
     (if url = ''s'' then sha256sum_output [(''AB01'', ''ssh-autoproxy-v1.0.0-linux-amd64.tar.gz'')]
      else ''archive'') None"

definition demo_open :: "string \<Rightarrow> string + tar_entry list \<times> string option" where
  "demo_open archive = Inr ([\<lparr>te_Name = ''ssh-autoproxy-v1.0.0-linux-amd64'', te_Typeflag = CHR ''0'',
     te_Data = ''new'', te_Err = None\<rparr>], None)"

lemma demo_verified:
  "verified_binary demo_fetch (\<lambda>_. ''ab01'') demo_open demo_release ''linux'' ''amd64'' = Inr ''new''"
proof -
  let ?sums = "sha256sum_output [(''AB01'', ''ssh-autoproxy-v1.0.0-linux-amd64.tar.gz'')]"
  have sums: "parseChecksums ?sums ''ssh-autoproxy-v1.0.0-linux-amd64.tar.gz'' = Some ''AB01''"
    by (subst parseChecksums_output)
       (simp_all add: plain_entry_def plain_word_def has_prefix_def max_token_def)
  have fold_eq: "equal_fold ''ab01'' ''AB01''" by code_simp
  have "download demo_fetch ''s'' maxChecksumsSize = Inr ?sums"
    "download demo_fetch ''a'' maxArchiveSize = Inr ''archive''"
    by (simp_all add: download_def demo_fetch_def read_limited_def maxChecksumsSize_def maxArchiveSize_def
        sha256sum_output_def)
  with sums fold_eq show ?thesis
    by (simp add: verified_binary_def Let_def demo_release_def ArchiveName_def binaryName_def demo_open_def
        extractFile_def TypeReg_def read_limited_def maxArchiveSize_def)
qed

theorem apply_installs_only_verified_witness:
  "\<exists>bin. last (snd (Apply demo_fetch (\<lambda>_. ''ab01'') demo_open demo_release ''linux'' ''amd64'' ''/x'' ''/.x.update-1''
      NoFault [''/x'' \<mapsto> (''old'', 493)])) = [''/x'' \<mapsto> (bin, 493)]"
proof -
  let ?r = "Apply demo_fetch (\<lambda>_. ''ab01'') demo_open demo_release ''linux'' ''amd64'' ''/x'' ''/.x.update-1''
      NoFault [''/x'' \<mapsto> (''old'', 493)]"
  have "?r = (Inr (), snd ?r)"
    by (simp add: Apply_def demo_verified prod_eq_iff replaceFile_result)
  from apply_installs_only_verified [OF _ _ this] show ?thesis by simp
qed

end
