(* ===== verification/Commands.thy ===== *)
theory Commands
  imports Reload Update
begin

text \<open>
  \<open>cmd/ssh-autoproxy\<close>, the commands of the command line, and \<open>internal/notify\<close>. A command is a
  function from what it reads of its surroundings (configuration, network, state file, whether an
  address answers) to its exit code, output and effects. The parsing of flags is cobra's.
\<close>

section \<open>main.go\<close>

definition expandHome :: "string option \<Rightarrow> string \<Rightarrow> string" where
  "expandHome home path =
     (if path = [] \<or> hd path \<noteq> CHR ''~'' then path
      else (case home of None \<Rightarrow> path | Some h \<Rightarrow> path_join [h, tl path]))"

definition loadConfig ::
  "string option \<Rightarrow> string option \<Rightarrow> (string \<Rightarrow> read_result) \<Rightarrow> (string \<Rightarrow> config \<Rightarrow> string + config) \<Rightarrow>
   'w port_picker \<Rightarrow> 'w \<Rightarrow> string \<Rightarrow> (config_error + config) \<times> 'w"
where
  "loadConfig home filePath readFile unmarshal pick w flag =
     Load filePath readFile unmarshal pick w (expandHome home flag)"

text \<open>\<open>main\<close>: the exit code of a command that returns an error, or none.\<close>

definition main_exit :: "bool \<Rightarrow> nat" where
  "main_exit failed = (if failed then 1 else 0)"

section \<open>daemon.go\<close>

definition daemon_command ::
  "string option \<Rightarrow> string option \<Rightarrow> (string \<Rightarrow> read_result) \<Rightarrow> (string \<Rightarrow> config \<Rightarrow> string + config) \<Rightarrow>
   'w port_picker \<Rightarrow> 'w \<Rightarrow> string \<Rightarrow> (string \<Rightarrow> time option) \<Rightarrow> run_error + runner"
where
  "daemon_command home filePath readFile unmarshal pick w flag stat =
     Run_start filePath readFile unmarshal pick w (expandHome home flag) stat"

section \<open>checkssh.go\<close>

text \<open>The exit code; a wrong number of arguments is an error of the command.\<close>

fun check_routes :: "string \<Rightarrow> string + net_state \<Rightarrow> route list \<Rightarrow> nat" where
  "check_routes name query [] = 0"
| "check_routes name query (r # rs) =
     (if r_Name r \<noteq> name then check_routes name query rs
      else (case query of
          Inl e \<Rightarrow> 0
        | Inr ns \<Rightarrow> if needs_proxy ns r then 0 else 1))"

definition check_ssh :: "config_error + config \<Rightarrow> string + net_state \<Rightarrow> string list \<Rightarrow> nat" where
  "check_ssh loaded query args =
     (case args of
        [name] \<Rightarrow> (case loaded of Inl e \<Rightarrow> 0 | Inr cfg \<Rightarrow> check_routes name query (c_Routes cfg))
      | _ \<Rightarrow> main_exit True)"

section \<open>update.go\<close>

datatype update_action = Report string | Refuse update_error | Install

definition update_action :: "string \<Rightarrow> string \<Rightarrow> bool \<Rightarrow> bool \<Rightarrow> update_action" where
  "update_action version tag checkOnly force =
     (let up_to_date = Report (''Already up to date ('' @ version @ '').'' @ nl) in
      case IsNewer version tag of
        Inl e \<Rightarrow>
          if checkOnly then Report (''Current version: '' @ version @ '' (not a release build)'' @ nl @
            ''Latest release:  '' @ tag @ nl)
          else if \<not> force then Refuse e
          else Install
      | Inr newer \<Rightarrow>
          if \<not> newer \<and> \<not> force then up_to_date
          else if checkOnly then
            (if newer then Report (''Update available: '' @ version @ '' -> '' @ tag @ nl) else up_to_date)
          else Install)"

text \<open>\<open>restartServiceIfRunning\<close>: systemctl exists, the service is active, its restart succeeds.\<close>

definition restartServiceIfRunning :: "bool \<Rightarrow> bool \<Rightarrow> string option \<Rightarrow> string" where
  "restartServiceIfRunning has_systemctl active restart_error =
     (if \<not> has_systemctl \<or> \<not> active then []
      else (case restart_error of
          Some e \<Rightarrow> ''Warning: restarting ssh-autoproxy.service failed: '' @ e @ nl @
            ''Run '' @ [CHR 0x60] @ ''systemctl --user restart ssh-autoproxy'' @ [CHR 0x60] @
            '' to pick up the new binary.'' @ nl
        | None \<Rightarrow> ''Restarted ssh-autoproxy.service.'' @ nl))"

datatype command_error = UpdateError update_error | NoExecutable

text \<open>
  The command: its error, its output, and the states of the file system. \<open>exe\<close> is
  \<open>os.Executable\<close>, \<open>resolve\<close> is \<open>EvalSymlinks\<close>, \<open>apply_to\<close> the client's \<open>Apply\<close> for this
  platform, \<open>restart_text\<close> what \<open>restartServiceIfRunning\<close> prints.
\<close>

definition update_command ::
  "update_error + release \<Rightarrow> string \<Rightarrow> bool \<Rightarrow> bool \<Rightarrow> bool \<Rightarrow> string option \<Rightarrow> (string \<Rightarrow> string option) \<Rightarrow>
   (release \<Rightarrow> string \<Rightarrow> (update_error + unit) \<times> mode_fs list) \<Rightarrow> string \<Rightarrow> string \<Rightarrow> string \<Rightarrow> mode_fs \<Rightarrow>
   command_error option \<times> string \<times> mode_fs list"
where
  "update_command latest version checkOnly force noRestart exe resolve apply_to goos goarch restart_text fs =
     (case latest of
        Inl e \<Rightarrow> (Some (UpdateError e), [], [fs])
      | Inr rel \<Rightarrow>
          (case update_action version (rel_Tag rel) checkOnly force of
             Report s \<Rightarrow> (None, s, [fs])
           | Refuse e \<Rightarrow> (Some (UpdateError e), [], [fs])
           | Install \<Rightarrow>
               (case exe of
                  None \<Rightarrow> (Some NoExecutable, [], [fs])
                | Some path \<Rightarrow>
                    (let real_path = (case resolve path of None \<Rightarrow> path | Some p \<Rightarrow> p);
                         (result, states) = apply_to rel real_path;
                         downloading = ''Downloading '' @ rel_Tag rel @ '' for '' @ goos @ ''/'' @ goarch @ ''...'' @ nl
                     in case result of
                          Inl e \<Rightarrow> (Some (UpdateError e), downloading, states)
                        | Inr _ \<Rightarrow>
                            (None, downloading @ ''Checksum verified. Updated '' @ real_path @ '': '' @ version @
                               '' -> '' @ rel_Tag rel @ nl @ (if noRestart then [] else restart_text), states)))))"

section \<open>notify.go\<close>

definition shouldAttemptNotify :: "string \<Rightarrow> nat \<Rightarrow> (string \<Rightarrow> bool) \<Rightarrow> bool" where
  "shouldAttemptNotify busEnv uid socketExists =
     (if busEnv \<noteq> [] then True else socketExists (''/run/user/'' @ itoa (int uid) @ ''/bus''))"

text \<open>\<open>Send\<close>: the command it runs, if any; its outcome is ignored.\<close>

definition Send :: "string \<Rightarrow> nat \<Rightarrow> (string \<Rightarrow> bool) \<Rightarrow> string \<Rightarrow> string \<Rightarrow> string list option" where
  "Send busEnv uid socketExists summary body =
     (if \<not> shouldAttemptNotify busEnv uid socketExists then None
      else Some [''notify-send'', ''--app-name=ssh-autoproxy'', summary, body])"

section \<open>install.go\<close>

definition unitTemplate :: "string \<Rightarrow> string \<Rightarrow> string" where
  "unitTemplate env exePath =
     ''[Unit]'' @ nl @
     ''Description=ssh-autoproxy background tunnel/proxy daemon'' @ nl @
     ''After=network-online.target ssh-agent.socket'' @ nl @
     ''Wants=network-online.target'' @ nl @ nl @
     ''[Service]'' @ nl @ ''Type=simple'' @ nl @
     env @ ''ExecStart='' @ exePath @ '' daemon'' @ nl @
     ''Restart=on-failure'' @ nl @ ''RestartSec=5'' @ nl @ nl @
     ''[Install]'' @ nl @ ''WantedBy=default.target'' @ nl"

definition renderUnit :: "string \<Rightarrow> string \<Rightarrow> string \<Rightarrow> string" where
  "renderUnit exePath authSock runtimeDir =
     (let prefix = trim_suffix runtimeDir ''/'' @ ''/'';
          sock = (if runtimeDir \<noteq> [] \<and> has_prefix authSock prefix
                  then ''%t/'' @ drop (length prefix) authSock else authSock);
          env = (if authSock \<noteq> [] then ''Environment=SSH_AUTH_SOCK='' @ sock @ nl else [])
      in unitTemplate env exePath)"

text \<open>What the installation does, in order, and what can go wrong.\<close>

datatype install_effect = MakeDir string | WriteFile string string | Systemctl "string list" | Output string

datatype install_error =
  BadConfig config_error | NoControlDir | NoExe | NoHomeDir | MkdirFailed | WriteUnitFailed | SystemctlFailed

record install_env =
  ie_exe :: "string option"
  ie_resolve :: "string \<Rightarrow> string option"
  ie_home :: "string option"
  ie_mkdir :: "string \<Rightarrow> bool"
  ie_write :: "string \<Rightarrow> bool"
  ie_systemctl :: "string list \<Rightarrow> bool"
  ie_authSock :: string
  ie_runtimeDir :: string

definition unit_dir :: "string \<Rightarrow> string" where
  "unit_dir home = path_join [home, ''.config'', ''systemd'', ''user'']"

definition unit_path :: "string \<Rightarrow> string" where
  "unit_path home = path_join [unit_dir home, ''ssh-autoproxy.service'']"

text \<open>\<open>runSystemctl\<close>: the arguments of \<open>systemctl\<close>; the environment says whether it succeeds.\<close>

definition runSystemctl :: "string list \<Rightarrow> string list" where
  "runSystemctl args = [''--user''] @ args"

definition installUnit :: "install_env \<Rightarrow> install_effect list \<times> install_error option" where
  "installUnit env =
     (case ie_exe env of
        None \<Rightarrow> ([], Some NoExe)
      | Some exe \<Rightarrow>
          (case ie_home env of
             None \<Rightarrow> ([], Some NoHomeDir)
           | Some home \<Rightarrow>
               (let exePath = (case ie_resolve env exe of None \<Rightarrow> exe | Some p \<Rightarrow> p);
                    content = renderUnit exePath (ie_authSock env) (ie_runtimeDir env);
                    reload = runSystemctl [''daemon-reload''];
                    enable = runSystemctl [''enable'', ''--now'', ''ssh-autoproxy.service''];
                    made = [MakeDir (unit_dir home)];
                    written = made @ [WriteFile (unit_path home) content];
                    reloaded = written @ [Systemctl reload];
                    enabled = reloaded @ [Systemctl enable]
                in if \<not> ie_mkdir env (unit_dir home) then (made, Some MkdirFailed)
                   else if \<not> ie_write env (unit_path home) then (written, Some WriteUnitFailed)
                   else if \<not> ie_systemctl env reload then (reloaded, Some SystemctlFailed)
                   else if \<not> ie_systemctl env enable then (enabled, Some SystemctlFailed)
                   else (enabled @ [Output (''Installed and started '' @ unit_path home @ nl @
                     (if ie_authSock env = [] then
                        ''WARNING: SSH_AUTH_SOCK is not set in this shell, so the service has no'' @ nl @
                        ''SSH agent configured. Start your agent and re-run '' @ [CHR 0x60] @
                        ''ssh-autoproxy install'' @ [CHR 0x60] @ ''.'' @ nl else []) @ nl)], None))))"

text \<open>The blocks of \<open>ssh_config\<close> to paste: one per jump host, one per route with patterns.\<close>

fun jump_hosts :: "string set \<Rightarrow> route list \<Rightarrow> string list" where
  "jump_hosts printed [] = []"
| "jump_hosts printed (r # rs) =
     (if r_JumpHost r \<in> printed then jump_hosts printed rs
      else r_JumpHost r # jump_hosts (insert (r_JumpHost r) printed) rs)"

definition host_block :: "ssh_config \<Rightarrow> string \<Rightarrow> string" where
  "host_block ssh jumpHost =
     ''Host '' @ jumpHost @ nl @ ''    ControlMaster auto'' @ nl @
     ''    ControlPath '' @ ssh_ControlPath ssh @ nl @
     ''    ControlPersist '' @ itoa (seconds (ssh_ControlPersist ssh)) @ ''s'' @ nl @ nl"

definition match_command :: "route \<Rightarrow> string" where
  "match_command r = ''ssh-autoproxy check-ssh '' @ r_Name r"

definition match_block :: "route \<Rightarrow> string" where
  "match_block r =
     (if r_HostPatterns r = [] then []
      else ''Match exec '' @ [dquote] @ match_command r @ [dquote] @ '' host '' @
        join_with '' '' (r_HostPatterns r) @ nl @ ''    ProxyJump '' @ r_JumpHost r @ nl @ nl)"

definition pac_url :: "pac_config \<Rightarrow> string" where
  "pac_url p = ''http://'' @ listen_addr (pac_Bind p) (pac_Port p) @ pac_Path p"

definition backquoted :: "string \<Rightarrow> string" where
  "backquoted s = [CHR 0x60] @ s @ [CHR 0x60]"

definition ssh_config_text :: "config \<Rightarrow> string" where
  "ssh_config_text cfg =
     ''=== ~/.ssh/config '' @ em_dash @ '' paste this yourself, ssh-autoproxy never edits it ==='' @ nl @ nl @
     concat (map (host_block (c_SSH cfg)) (jump_hosts {} (c_Routes cfg))) @
     concat (map match_block (c_Routes cfg)) @
     ''(Separate Host blocks because ProxyJump opens its own connection to the'' @ nl @
     ''jump host itself, matched against ITS OWN hostname '' @ em_dash @ '' the'' @ nl @
     ''ControlPath/ControlPersist settings that let it reuse the daemon'' @ [CHR 0x27] @ ''s'' @ nl @
     ''already-open control socket have to live there, not inside the Match'' @ nl @
     ''block. Each route gets its own Match block, named by '' @ backquoted ''check-ssh <route>'' @ '','' @ nl @
     ''so ssh_config'' @ [CHR 0x27] @ ''s own '' @ backquoted ''host'' @
     '' criterion picks the right route per destination.)'' @ nl @ nl"

definition socks_line :: "route \<Rightarrow> string" where
  "socks_line r = (case r_SocksProxy r of
      None \<Rightarrow> []
    | Some sp \<Rightarrow> ''SOCKS5 ('' @ r_Name r @ ''):  '' @ listen_addr (sp_Bind sp) (sp_Port sp) @ nl)"

definition proxy_text :: "proxy_config \<Rightarrow> string" where
  "proxy_text px =
     (if \<not> px_Enabled px then []
      else (let proxyAddr = listen_addr (px_Bind px) (px_Port px) in
        nl @ ''Proxy (SOCKS5 + HTTP CONNECT): '' @ proxyAddr @ nl @
        ''         The PAC file points route hosts here. Other tools can use it too,'' @ nl @
        ''         e.g. https_proxy=http://'' @ proxyAddr @ '' or curl --socks5-hostname '' @ proxyAddr @ '';'' @ nl @
        ''         hosts matching no route (or a route that'' @ [CHR 0x27] @ ''s currently direct)'' @ nl @
        ''         are connected directly.'' @ nl))"

definition pac_text :: "pac_config \<Rightarrow> string" where
  "pac_text p =
     (if \<not> pac_Enabled p then []
      else nl @ ''PAC URL: '' @ pac_url p @ nl @ nl @
        ''GNOME:   Settings > Network > Network Proxy > Method: Automatic'' @ nl @
        ''         Configuration URL: '' @ pac_url p @ nl @ nl @
        ''Firefox (if not using '' @ [dquote] @ ''Use system proxy settings'' @ [dquote] @ ''):'' @ nl @
        ''         about:preferences > Network Settings > Settings...'' @ nl @
        ''         Automatic proxy configuration URL: '' @ pac_url p @ nl @
        ''         Click '' @ [dquote] @ ''Reload'' @ [dquote] @ '' after saving.'' @ nl @ nl @
        ''Note: browsers/OS proxy layers vary in how promptly they re-fetch a'' @ nl @
        ''changed PAC file '' @ em_dash @ '' some only reload on restart or a manual click.'' @ nl)"

definition printManualSteps :: "config \<Rightarrow> bool \<Rightarrow> string" where
  "printManualSteps cfg dryRun =
     (if dryRun then ''(--print: no systemd changes made)'' @ nl @ nl else []) @
     (if c_Routes cfg = [] then
        ''No routes configured yet '' @ em_dash @ '' add one or more entries under '' @ backquoted ''routes:'' @ '' in'' @ nl @
        ''your config, then re-run '' @ backquoted ''ssh-autoproxy install --print'' @ ''.'' @ nl
      else ssh_config_text cfg @
        (if list_all (\<lambda>r. r_SocksProxy r = None) (c_Routes cfg) \<and> \<not> pac_Enabled (c_PAC cfg) \<and>
            \<not> px_Enabled (c_Proxy cfg) then []
         else ''=== Browser / OS SOCKS5 + PAC proxy ==='' @ nl @ nl @
           concat (map socks_line (c_Routes cfg)) @ proxy_text (c_Proxy cfg) @ pac_text (c_PAC cfg)))"

definition controlDirFromConfig :: "string option \<Rightarrow> config \<Rightarrow> string" where
  "controlDirFromConfig home cfg = expandHome home (ssh_ControlPath (c_SSH cfg))"

definition install_command ::
  "config_error + config \<Rightarrow> install_env \<Rightarrow> bool \<Rightarrow> install_effect list \<times> install_error option"
where
  "install_command loaded env printOnly =
     (case loaded of
        Inl e \<Rightarrow> ([], Some (BadConfig e))
      | Inr cfg \<Rightarrow>
          (let dir = path_dir (controlDirFromConfig (ie_home env) cfg);
               (effects, err) = (if printOnly then ([], None) else installUnit env);
               steps = Output (printManualSteps cfg printOnly)
           in if \<not> ie_mkdir env dir then ([MakeDir dir], Some NoControlDir)
              else (case err of
                  Some e \<Rightarrow> (MakeDir dir # effects, Some e)
                | None \<Rightarrow> (MakeDir dir # effects @ [steps], None))))"

section \<open>status.go\<close>

record route_status =
  rs_Name :: string
  rs_JumpHost :: string
  rs_MatchedProfile :: string
  rs_ProxyNeeded :: bool
  rs_SocksAddr :: string
  rs_TunnelUp :: bool

text \<open>
  The address the daemon recorded for a route, or its own if there is none; \<open>answers\<close> says whether
  an address accepts a connection within the timeout.
\<close>

definition status_addr :: "(string \<rightharpoonup> string) \<Rightarrow> route \<Rightarrow> string" where
  "status_addr recorded r =
     (case r_SocksProxy r of
        None \<Rightarrow> []
      | Some sp \<Rightarrow>
          (let addr = (case recorded (r_Name r) of None \<Rightarrow> [] | Some a \<Rightarrow> a)
           in if addr = [] then upstream_addr sp else addr))"

definition route_state :: "net_state \<Rightarrow> (string \<rightharpoonup> string) \<Rightarrow> (string \<Rightarrow> bool) \<Rightarrow> route \<Rightarrow> route_status" where
  "route_state ns recorded answers r =
     (let (profile, proxyNeeded) = Evaluate (r_DirectProfiles r) ns; addr = status_addr recorded r
      in \<lparr>rs_Name = r_Name r, rs_JumpHost = r_JumpHost r, rs_MatchedProfile = profile,
          rs_ProxyNeeded = proxyNeeded, rs_SocksAddr = addr,
          rs_TunnelUp = (r_SocksProxy r \<noteq> None \<and> answers addr)\<rparr>)"

record status_report =
  sr_net :: net_state
  sr_routes :: "route_status list"
  sr_PACURL :: string
  sr_PACUp :: bool
  sr_Proxy :: string
  sr_ProxyUp :: bool

text \<open>\<open>http_get\<close> is the status code of a GET, if there is a response.\<close>

definition status_report_of ::
  "config \<Rightarrow> net_state \<Rightarrow> state option \<Rightarrow> (string \<Rightarrow> bool) \<Rightarrow> (string \<Rightarrow> nat option) \<Rightarrow> status_report"
where
  "status_report_of cfg ns st answers http_get =
     (let recorded = (case st of None \<Rightarrow> (\<lambda>_. None) | Some s \<Rightarrow> st_SocksAddrs s);
          pac_on = pac_Enabled (c_PAC cfg); px_on = px_Enabled (c_Proxy cfg);
          pacURL = (if pac_on then pac_url (c_PAC cfg) else [])
      in \<lparr>sr_net = ns,
          sr_routes = map (route_state ns recorded answers) (c_Routes cfg),
          sr_PACURL = pacURL,
          sr_PACUp = (pac_on \<and> http_get pacURL = Some 200),
          sr_Proxy = front_addr cfg,
          sr_ProxyUp = (px_on \<and> answers (front_addr cfg))\<rparr>)"

definition orNone :: "string \<Rightarrow> string" where
  "orNone s = (if s = [] then ''(none)'' else s)"

definition bool_text :: "bool \<Rightarrow> string" where
  "bool_text b = (if b then ''true'' else ''false'')"

definition route_text :: "(nat \<Rightarrow> bool) \<Rightarrow> route_status \<Rightarrow> string" where
  "route_text is_print rs =
     ''Route '' @ go_quote is_print (rs_Name rs) @ '' ('' @ rs_JumpHost rs @ '')'' @ nl @
     (if rs_MatchedProfile rs \<noteq> [] then ''  Matched profile:  '' @ rs_MatchedProfile rs @ '' (direct)'' @ nl
      else ''  Matched profile:  none (away)'' @ nl) @
     ''  Proxy needed:     '' @ bool_text (rs_ProxyNeeded rs) @ nl @
     (if rs_SocksAddr rs \<noteq> [] then
        ''  SOCKS tunnel up:  '' @ bool_text (rs_TunnelUp rs) @ '' ('' @ rs_SocksAddr rs @ '')'' @ nl
      else ''  SOCKS tunnel up:  '' @ bool_text (rs_TunnelUp rs) @ nl)"

definition status_text :: "(nat \<Rightarrow> bool) \<Rightarrow> config \<Rightarrow> status_report \<Rightarrow> string" where
  "status_text is_print cfg sr =
     ''SSID:     '' @ orNone (ns_SSID (sr_net sr)) @ nl @
     ''Gateway:  '' @ orNone (ns_Gateway (sr_net sr)) @ nl @
     ''Address:  '' @ orNone (ns_Address (sr_net sr)) @ nl @ nl @
     (if sr_routes sr = [] then ''No routes configured.'' @ nl else []) @
     concat (map (route_text is_print) (sr_routes sr)) @
     (if pac_Enabled (c_PAC cfg) \<or> px_Enabled (c_Proxy cfg) then nl else []) @
     (if pac_Enabled (c_PAC cfg) then
        ''PAC server up:    '' @ bool_text (sr_PACUp sr) @ '' ('' @ sr_PACURL sr @ '')'' @ nl else []) @
     (if px_Enabled (c_Proxy cfg) then
        ''Proxy up:         '' @ bool_text (sr_ProxyUp sr) @ '' ('' @ sr_Proxy sr @
        '', SOCKS5 + HTTP CONNECT)'' @ nl else [])"

text \<open>The command: an error, or the output, with \<open>--json\<close> that of the encoder.\<close>

definition status_command ::
  "(nat \<Rightarrow> bool) \<Rightarrow> (status_report \<Rightarrow> string) \<Rightarrow> config_error + config \<Rightarrow> string + net_state \<Rightarrow> state option \<Rightarrow>
   (string \<Rightarrow> bool) \<Rightarrow> (string \<Rightarrow> nat option) \<Rightarrow> bool \<Rightarrow> string option"
where
  "status_command is_print encode loaded query st answers http_get asJSON =
     (case (loaded, query) of
        (Inr cfg, Inr ns) \<Rightarrow>
          (let sr = status_report_of cfg ns st answers http_get
           in Some (if asJSON then encode sr else status_text is_print cfg sr))
      | _ \<Rightarrow> None)"

section \<open>check-ssh\<close>

lemma check_routes_decision:
  "distinct (map r_Name rs) \<Longrightarrow>
   check_routes name (Inr ns) rs = (if decisions_of ns rs name = Some False then 1 else 0)"
  by (induction rs) (auto simp: decisions_of_def map_of_eq_None_iff)

lemma check_routes_failed: "check_routes name (Inl e) rs = 0"
  by (induction rs) simp_all

text \<open>
  Claim C23. \<open>check-ssh\<close> and the daemon decide alike: with a valid configuration and a snapshot of
  the network it exits with 1, a direct connection, exactly if the daemon's decision for that route
  in that snapshot is that the jump host is not needed; an unknown route, a query that fails and a
  configuration that does not load are answered with 0, the jump host.
\<close>

theorem check_ssh_agrees_with_daemon:
  assumes "valid_config cfg"
  shows "check_ssh (Inr cfg) (Inr ns) [name] = (if decisions_of ns (c_Routes cfg) name = Some False then 1 else 0) \<and>
    check_ssh (Inr cfg) (Inl e) [name] = 0 \<and> check_ssh (Inl e') query [name] = 0"
  using check_routes_decision [OF valid_distinct [OF assms]] check_routes_failed by (simp add: check_ssh_def)

theorem check_ssh_agrees_with_daemon_witness:
  "check_ssh (Inr lan_config) (Inr \<lparr>ns_SSID = [], ns_Gateway = [], ns_Address = []\<rparr>) [''home''] = 0"
  using check_ssh_agrees_with_daemon [OF valid_lan_config] 
  by (simp add: decisions_of_def lan_config_def lan_route_def wiki_route_def needs_proxy_def Default_def)

text \<open>A route whose name is two words.\<close>

definition two_words :: config where
  "two_words = Default\<lparr>c_Routes := [lan_route\<lparr>r_Name := ''home lan''\<rparr>]\<rparr>"

text \<open>
  The printed snippet does not work for a route whose name has a blank: \<open>Validate\<close> accepts
  it, the \<open>Match exec\<close> command is split at the blank by the shell, so \<open>check-ssh\<close> is called with two
  arguments and exits with 1, a direct connection, although the route needs its jump host in every
  network and every other failure is answered with 0.
\<close>

theorem blank_in_route_name_means_direct:
  "valid_config two_words \<and>
   split_on CHR '' '' (match_command (hd (c_Routes two_words))) = [''ssh-autoproxy'', ''check-ssh'', ''home'', ''lan''] \<and>
   check_ssh (Inr two_words) (Inr ns) [''home'', ''lan''] = 1 \<and>
   check_ssh (Inr two_words) (Inr ns) [''home lan''] = 0"
  by (simp add: two_words_def valid_config_def Default_def lan_route_def wiki_route_def listeners_def
      socks_listener_def pac_listener_def proxy_listener_def match_command_def check_ssh_def main_exit_def
      needs_proxy_def)

section \<open>update\<close>

text \<open>
  Claim C40. The update command touches the file system only to install, and it installs only on
  purpose: never with \<open>--check\<close>, and without \<open>--force\<close> only if both versions are release versions
  and the latest is strictly higher.
\<close>

theorem update_installs_only_newer:
  assumes "update_command (Inr rel) version checkOnly force noRestart exe resolve apply_to goos goarch restart_text fs =
      (err, output, states)"
  shows "states = [fs] \<or>
    (\<not> checkOnly \<and>
     (force \<or> (\<exists>x y. parseVersion version = Some x \<and> parseVersion (rel_Tag rel) = Some y \<and> x < y)) \<and>
     (\<exists>path. (exe = Some path \<or> (\<exists>link. exe = Some link \<and> resolve link = Some path)) \<and>
        states = snd (apply_to rel path)))"
proof (cases "update_action version (rel_Tag rel) checkOnly force")
  case Install
  have act: "\<not> checkOnly \<and> (force \<or> IsNewer version (rel_Tag rel) = Inr True)"
    using Install by (auto simp: update_action_def Let_def split: sum.splits if_splits)
  then have "force \<or> (\<exists>x y. parseVersion version = Some x \<and> parseVersion (rel_Tag rel) = Some y \<and> x < y)"
    by (auto simp: IsNewer_def newer_parts_less split: option.splits)
  with act show ?thesis using assms Install
    by (auto simp: update_command_def Let_def split: option.splits prod.splits sum.splits)
qed (use assms in \<open>auto simp: update_command_def\<close>)

theorem update_installs_only_newer_witness:
  "snd (snd (update_command (Inr demo_release) ''v1.0.0'' False False False (Some ''/x'') (\<lambda>_. None)
      (\<lambda>_ _. (Inr (), [])) ''linux'' ''amd64'' [] (\<lambda>_. None))) = [\<lambda>_. None]"
proof -
  let ?u = "update_command (Inr demo_release) ''v1.0.0'' False False False (Some ''/x'') (\<lambda>_. None)
      (\<lambda>_ _. (Inr (), [])) ''linux'' ''amd64'' [] (\<lambda>_. None)"
  have "parseVersion ''v1.0.0'' = parseVersion (rel_Tag demo_release)" by (simp add: demo_release_def)
  with update_installs_only_newer [of demo_release "''v1.0.0''" False False False "Some ''/x''" "\<lambda>_. None"
      "\<lambda>_ _. (Inr (), [])" "''linux''" "''amd64''" "[]" "\<lambda>_. None" "fst ?u" "fst (snd ?u)" "snd (snd ?u)"]
  show ?thesis by auto
qed

section \<open>install\<close>

text \<open>How systemd expands the specifier \<open>%t\<close> at the start of a value.\<close>

definition expand_runtime :: "string \<Rightarrow> string \<Rightarrow> string" where
  "expand_runtime runtime v = (if has_prefix v ''%t'' then runtime @ drop 2 v else v)"

text \<open>
  The unit file gives the service the installer's agent socket: if \<open>SSH_AUTH_SOCK\<close> is set
  the unit has, right before \<open>ExecStart\<close>, one line for it whose value, with \<open>%t\<close> standing for the
  runtime directory, is the installer's; if it is not set there is no such line.
\<close>

theorem unit_keeps_agent_socket:
  assumes "\<not> has_prefix authSock ''%t''"
  shows "\<exists>pre v. renderUnit exePath authSock runtimeDir =
      pre @ (if authSock = [] then [] else ''Environment=SSH_AUTH_SOCK='' @ v @ nl) @
      ''ExecStart='' @ exePath @ '' daemon'' @ nl @
      ''Restart=on-failure'' @ nl @ ''RestartSec=5'' @ nl @ nl @
      ''[Install]'' @ nl @ ''WantedBy=default.target'' @ nl \<and>
    pre = ''[Unit]'' @ nl @ ''Description=ssh-autoproxy background tunnel/proxy daemon'' @ nl @
      ''After=network-online.target ssh-agent.socket'' @ nl @ ''Wants=network-online.target'' @ nl @ nl @
      ''[Service]'' @ nl @ ''Type=simple'' @ nl \<and>
    expand_runtime (trim_suffix runtimeDir ''/'') v = authSock"
proof -
  let ?prefix = "trim_suffix runtimeDir ''/'' @ ''/''"
  let ?v = "if runtimeDir \<noteq> [] \<and> has_prefix authSock ?prefix then ''%t/'' @ drop (length ?prefix) authSock else authSock"
  have "expand_runtime (trim_suffix runtimeDir ''/'') ?v = authSock"
  proof (cases "runtimeDir \<noteq> [] \<and> has_prefix authSock ?prefix")
    case True
    then obtain r where "authSock = ?prefix @ r" by (auto simp: has_prefix_iff)
    then show ?thesis using True by (simp add: expand_runtime_def has_prefix_def)
  next
    case False
    then show ?thesis using assms by (auto simp: expand_runtime_def)
  qed
  then show ?thesis
    by (intro exI [of _ ?v] exI conjI) (simp_all add: renderUnit_def unitTemplate_def Let_def)
qed

theorem unit_keeps_agent_socket_witness:
  "\<exists>v. expand_runtime ''/run/user/1000'' v = ''/run/user/1000/keyring/ssh''"
  using unit_keeps_agent_socket [of "''/run/user/1000/keyring/ssh''" "''/usr/bin/ssh-autoproxy''" "''/run/user/1000/''"]
  by (auto simp: has_prefix_def trim_suffix_def has_suffix_def)

lemma jump_hosts_spec:
  "distinct (jump_hosts printed rs) \<and> set (jump_hosts printed rs) = r_JumpHost ` set rs - printed"
  by (induction rs arbitrary: printed) auto

text \<open>
  \<open>install --print\<close> changes nothing but the control directory, and \<open>install\<close> starts the
  service only once its unit file is written and systemd has read it; whatever fails ends it there.
\<close>

theorem install_effects:
  "install_command (Inr cfg) env printOnly = (effects, err) \<Longrightarrow>
   (printOnly \<longrightarrow> list_all (\<lambda>e. case e of
      MakeDir d \<Rightarrow> d = path_dir (controlDirFromConfig (ie_home env) cfg) | Output s \<Rightarrow> True | _ \<Rightarrow> False) effects) \<and>
   (\<forall>args. Systemctl args \<in> set effects \<longrightarrow>
      (\<exists>d1 home exe. ie_home env = Some home \<and>
        take 4 effects = [MakeDir d1, MakeDir (unit_dir home),
          WriteFile (unit_path home) (renderUnit exe (ie_authSock env) (ie_runtimeDir env)),
          Systemctl [''--user'', ''daemon-reload'']] \<and>
        (args = [''--user'', ''daemon-reload''] \<or>
         args = [''--user'', ''enable'', ''--now'', ''ssh-autoproxy.service''] \<and> ie_systemctl env [''--user'', ''daemon-reload''])))"
  by (auto simp: install_command_def installUnit_def runSystemctl_def Let_def numeral_nat take_Suc
      split: if_splits option.splits prod.splits)

definition demo_env :: install_env where
  "demo_env = \<lparr>ie_exe = Some ''/x'', ie_resolve = (\<lambda>_. None), ie_home = Some ''/h'', ie_mkdir = (\<lambda>_. True),
     ie_write = (\<lambda>_. True), ie_systemctl = (\<lambda>_. True), ie_authSock = [], ie_runtimeDir = []\<rparr>"

theorem install_effects_witness:
  "Systemctl [''--user'', ''enable''] \<notin> set (fst (install_command (Inr Default) demo_env False))"
  using install_effects [of Default demo_env False "fst (install_command (Inr Default) demo_env False)"
      "snd (install_command (Inr Default) demo_env False)"]
  by auto

section \<open>status\<close>

lemma socksAddrs_foldl:
  "distinct (map r_Name rs) \<Longrightarrow>
   foldl (\<lambda>m r. case r_SocksProxy r of None \<Rightarrow> m | Some sp \<Rightarrow> m(r_Name r \<mapsto> upstream_addr sp)) m rs n =
   (case find (\<lambda>r. r_Name r = n \<and> r_SocksProxy r \<noteq> None) rs of
      None \<Rightarrow> m n
    | Some r \<Rightarrow> map_option upstream_addr (r_SocksProxy r))"
proof (induction rs arbitrary: m)
  case (Cons r rs)
  have "r_Name q \<noteq> r_Name r" if "q \<in> set rs" for q
    using Cons.prems imageI [OF that, of r_Name] by auto
  then have "find (\<lambda>q. r_Name q = n \<and> r_SocksProxy q \<noteq> None) rs = None" if "r_Name r = n"
    using that by (auto simp: find_None_iff)
  with Cons show ?case by (auto split: option.splits)
qed simp

lemma socksAddrs_lookup:
  assumes "distinct (map r_Name rs)" "r \<in> set rs" "r_SocksProxy r = Some sp"
  shows "socksAddrs rs (r_Name r) = Some (upstream_addr sp)"
proof -
  have "find (\<lambda>q. r_Name q = r_Name r \<and> r_SocksProxy q \<noteq> None) rs = Some r"
    using assms
  proof (induction rs)
    case (Cons q rs)
    then show ?case by (cases "q = r") (auto simp: image_iff)
  qed simp
  then show ?thesis using assms(1,3) by (simp add: socksAddrs_def socksAddrs_foldl)
qed

lemma saved_socks:
  assumes "daemon_reachable is_print uni rng cfg d"
  shows "st_SocksAddrs (d_state d) = socksAddrs (c_Routes cfg) \<and>
    (\<forall>st. SaveState st \<in> set (d_effects d) \<longrightarrow> st_SocksAddrs st = socksAddrs (c_Routes cfg))"
  using assms
proof (induction rule: daemon_reachable.induct)
  case (start cdir loaded pbind xbind query d)
  then show ?case
    by (auto simp: runOnce_start_def Let_def split: option.splits if_splits prod.splits)
next
  case (step d e d')
  then show ?case
    by (cases e) (auto simp: handleErrorCategory_def RecordNotified_def Let_def split: if_splits prod.splits)
qed simp

text \<open>
  \<open>status\<close> looks for the tunnels where the daemon has them: a route without a fixed port
  gets another one in every process that loads the configuration, but for every state the daemon has
  saved, \<open>status\<close> reports, and dials, the address the daemon's own table tunnels that route through.
\<close>

theorem status_dials_daemon_address:
  assumes "daemon_reachable is_print uni rng cfg d" "valid_config cfg" "SaveState st \<in> set (d_effects d)"
    and "r' \<in> set (c_Routes cfg)" "r_SocksProxy r' = Some sp"
    and "r_Name r = r_Name r'" "r_SocksProxy r \<noteq> None"
  shows "rs_SocksAddr (route_state ns (st_SocksAddrs st) answers r) = upstream_addr sp \<and>
    rs_TunnelUp (route_state ns (st_SocksAddrs st) answers r) = answers (upstream_addr sp)"
proof -
  have "st_SocksAddrs st (r_Name r) = Some (upstream_addr sp)"
    using saved_socks [OF assms(1)] assms(3,6) socksAddrs_lookup [OF valid_distinct [OF assms(2)] assms(4,5)]
    by simp
  moreover have "upstream_addr sp \<noteq> []" by (simp add: upstream_addr_def)
  ultimately show ?thesis
    using assms(7) by (auto simp: route_state_def status_addr_def Let_def split: prod.splits)
qed

text \<open>A daemon whose route has another port than the one this process picked.\<close>

theorem status_dials_daemon_address_witness:
  "rs_SocksAddr (route_state \<lparr>ns_SSID = [], ns_Gateway = [], ns_Address = []\<rparr> (socksAddrs [lan_route]) (\<lambda>_. True)
     (lan_route\<lparr>r_SocksProxy := Some \<lparr>sp_Active = True, sp_Bind = ''127.0.0.1'', sp_Port = 40001\<rparr>\<rparr>)) = ''127.0.0.1:1080''"
proof -
  let ?st = "empty_state\<lparr>st_SocksAddrs := socksAddrs [lan_route]\<rparr>"
  have "SaveState ?st \<in> set (d_effects (started (Inl [])))" by (simp add: started_def initial_daemon_def)
  from status_dials_daemon_address [OF started_reachable [of "\<lambda>_. 0"] valid_lan_config this, where r' = lan_route
      and sp = "\<lparr>sp_Active = False, sp_Bind = ''127.0.0.1'', sp_Port = 1080\<rparr>"
      and r = "lan_route\<lparr>r_SocksProxy := Some \<lparr>sp_Active = True, sp_Bind = ''127.0.0.1'', sp_Port = 40001\<rparr>\<rparr>"]
  have "rs_SocksAddr (route_state \<lparr>ns_SSID = [], ns_Gateway = [], ns_Address = []\<rparr> (socksAddrs [lan_route]) (\<lambda>_. True)
      (lan_route\<lparr>r_SocksProxy := Some \<lparr>sp_Active = True, sp_Bind = ''127.0.0.1'', sp_Port = 40001\<rparr>\<rparr>)) =
      upstream_addr \<lparr>sp_Active = False, sp_Bind = ''127.0.0.1'', sp_Port = 1080\<rparr>"
    by (simp add: lan_config_def Default_def lan_route_def wiki_route_def)
  also have "\<dots> = ''127.0.0.1:1080''" by code_simp
  finally show ?thesis .
qed

lemma join_host_port_listen: "CHR '':'' \<notin> set b \<Longrightarrow> join_host_port b (itoa p) = listen_addr b p"
  by (simp add: join_host_port_def listen_addr_def)

text \<open>
  The PAC address \<open>status\<close> probes and \<open>install\<close> prints is the one the daemon listens on
  for a bind address without colons; a PAC listener on \<open>::1\<close>, which \<open>Validate\<close> accepts, is printed
  and probed without the brackets, which is no URL of that address.
\<close>

theorem pac_url_without_brackets:
  "(\<not> contains (pac_Bind p) '':'' \<longrightarrow>
     pac_url p = ''http://'' @ join_host_port (pac_Bind p) (itoa (pac_Port p)) @ pac_Path p) \<and>
   valid_config (Default\<lparr>c_PAC := (c_PAC Default)\<lparr>pac_Bind := ''::1''\<rparr>\<rparr>) \<and>
   pac_url ((c_PAC Default)\<lparr>pac_Bind := ''::1''\<rparr>) = ''http://::1:8850/proxy.pac'' \<and>
   join_host_port ''::1'' (itoa 8850) = ''[::1]:8850''"
proof (intro conjI impI)
  assume "\<not> contains (pac_Bind p) '':''"
  then have "CHR '':'' \<notin> set (pac_Bind p)" by (auto simp: contains_iff in_set_conv_decomp)
  then show "pac_url p = ''http://'' @ join_host_port (pac_Bind p) (itoa (pac_Port p)) @ pac_Path p"
    by (simp add: pac_url_def join_host_port_listen)
next
  show "valid_config (Default\<lparr>c_PAC := (c_PAC Default)\<lparr>pac_Bind := ''::1''\<rparr>\<rparr>)"
    by (simp add: valid_config_def Default_def listeners_def pac_listener_def proxy_listener_def)
  have "char_of (56 :: nat) = CHR ''8''" "char_of (53 :: nat) = CHR ''5''" "char_of (48 :: nat) = CHR ''0''"
    by code_simp+
  then have "itoa 8850 = ''8850''" by (simp add: itoa_def digits10.simps digit_char_def)
  then show "pac_url ((c_PAC Default)\<lparr>pac_Bind := ''::1''\<rparr>) = ''http://::1:8850/proxy.pac''"
    "join_host_port ''::1'' (itoa 8850) = ''[::1]:8850''"
    by (simp_all add: pac_url_def listen_addr_def Default_def join_host_port_def)
qed

theorem pac_url_without_brackets_witness:
  "pac_url (c_PAC Default) = ''http://'' @ join_host_port ''127.0.0.1'' (itoa 8850) @ ''/proxy.pac''"
proof -
  have "\<not> contains (pac_Bind (c_PAC Default)) '':''" by (simp add: Default_def contains.simps has_prefix_def)
  with pac_url_without_brackets [of "c_PAC Default"] show ?thesis by (simp add: Default_def)
qed

end
