(* ===== verification/ErrorPath.thy ===== *)
theory ErrorPath
  imports DaemonRun
begin

text \<open>
  From ssh's stderr to \<open>handleErrorCategory\<close>: \<open>runOnce\<close> of a supervisor, the channel \<open>Errors\<close> its
  scanner fills without ever waiting, \<open>forwardErrors\<close> (one goroutine per route) and the channel
  \<open>errCh\<close> the main loop receives from; and \<open>watchNetwork\<close>, which triggers the main loop's rechecks.
\<close>

section \<open>Bounded channels\<close>

definition chan_send :: "nat \<Rightarrow> 'a list \<Rightarrow> 'a \<Rightarrow> 'a list option" where
  "chan_send cap q x = (if length q < cap then Some (q @ [x]) else None)"

fun chan_recv :: "'a list \<Rightarrow> ('a \<times> 'a list) option" where
  "chan_recv [] = None"
| "chan_recv (x # q) = Some (x, q)"

text \<open>What the goroutines rely on: first in, first out, and a receive fails only on an empty channel.\<close>

locale fifo_channel =
  fixes send :: "'c \<Rightarrow> 'a \<Rightarrow> 'c option" and recv :: "'c \<Rightarrow> ('a \<times> 'c) option" and contents :: "'c \<Rightarrow> 'a list"
    and room :: "'c \<Rightarrow> bool"
  assumes send_contents: "send q x = Some q' \<Longrightarrow> contents q' = contents q @ [x]"
    and send_room: "send q x = None \<longleftrightarrow> \<not> room q"
    and recv_contents: "recv q = Some (y, q') \<Longrightarrow> contents q = y # contents q'"
    and recv_none: "recv q = None \<longleftrightarrow> contents q = []"
begin

lemma recv_enabled: "contents q \<noteq> [] \<Longrightarrow> \<exists>y q'. recv q = Some (y, q') \<and> contents q = y # contents q'"
  using recv_contents recv_none by (cases "recv q") auto

lemma send_enabled: "room q \<Longrightarrow> \<exists>q'. send q x = Some q' \<and> contents q' = contents q @ [x]"
  using send_contents send_room by (cases "send q x") auto

end

interpretation chan: fifo_channel "chan_send cap" chan_recv "\<lambda>q. q" "\<lambda>q. length q < cap" for cap
proof unfold_locales
  fix q q' :: "'a list" and x y
  show "chan_send cap q x = Some q' \<Longrightarrow> q' = q @ [x]" by (simp add: chan_send_def split: if_splits)
  show "chan_send cap q x = None \<longleftrightarrow> \<not> length q < cap" by (simp add: chan_send_def)
  show "chan_recv q = Some (y, q') \<Longrightarrow> q = y # q'" by (cases q) simp_all
  show "chan_recv q = None \<longleftrightarrow> q = []" by (cases q) simp_all
qed

section \<open>The goroutines\<close>

text \<open>
  \<open>runOnce\<close> of a supervisor: what becomes of a stale control socket, and then the command it starts,
  if the pipe for its stderr can be made and it can be started.
\<close>

definition supervisor_runOnce ::
  "(string list \<Rightarrow> string option) \<Rightarrow> (string \<Rightarrow> lstat_result) \<Rightarrow> (string \<Rightarrow> dial_unix) \<Rightarrow>
   (string \<Rightarrow> remove_result) \<Rightarrow> bool \<Rightarrow> bool \<Rightarrow> route \<Rightarrow> ssh_config \<Rightarrow> bool \<Rightarrow> stale_outcome \<times> string list option"
where
  "supervisor_runOnce run_ssh lstat dial_sock remove pipe_ok start_ok r ssh verbose =
     (removeStaleControlSocket run_ssh lstat dial_sock remove ssh r,
      if pipe_ok \<and> start_ok then Some (''ssh'' # sshArgs r ssh verbose) else None)"

text \<open>
  Routes are named as in the code; \<open>ep_hand\<close> is what a forwarder has received and not yet sent on.
  \<open>ep_seen\<close> and \<open>ep_accepted\<close> record, for the statements below, the failures ssh printed and those
  that found room in \<open>Errors\<close>.
\<close>

record error_path =
  ep_errors :: "string \<Rightarrow> ErrorCategory list"
  ep_hand :: "string \<Rightarrow> ErrorCategory option"
  ep_out :: "(string \<times> ErrorCategory) list"
  ep_handled :: "(string \<times> ErrorCategory) list"
  ep_seen :: "string \<Rightarrow> ErrorCategory list"
  ep_accepted :: "string \<Rightarrow> ErrorCategory list"

definition errCh_capacity :: nat where
  "errCh_capacity = 16"

definition empty_path :: error_path where
  "empty_path = \<lparr>ep_errors = (\<lambda>_. []), ep_hand = (\<lambda>_. None), ep_out = [], ep_handled = [],
     ep_seen = (\<lambda>_. []), ep_accepted = (\<lambda>_. [])\<rparr>"

datatype error_event = StderrLine string string | ForwarderReceives string | ForwarderSends string | MainReceives

fun error_step :: "error_event \<Rightarrow> error_path \<Rightarrow> error_path option" where
  "error_step (StderrLine r line) s =
     Some (case classifyStderrLine line of
        None \<Rightarrow> s
      | Some cat \<Rightarrow>
          (let s' = s\<lparr>ep_seen := (ep_seen s)(r := ep_seen s r @ [cat])\<rparr>
           in case chan_send errors_capacity (ep_errors s r) cat of
                None \<Rightarrow> s'
              | Some q \<Rightarrow> s'\<lparr>ep_errors := (ep_errors s)(r := q),
                  ep_accepted := (ep_accepted s)(r := ep_accepted s r @ [cat])\<rparr>))"
| "error_step (ForwarderReceives r) s =
     (case (ep_hand s r, chan_recv (ep_errors s r)) of
        (None, Some (cat, q)) \<Rightarrow> Some (s\<lparr>ep_errors := (ep_errors s)(r := q), ep_hand := (ep_hand s)(r := Some cat)\<rparr>)
      | _ \<Rightarrow> None)"
| "error_step (ForwarderSends r) s =
     (case ep_hand s r of
        None \<Rightarrow> None
      | Some cat \<Rightarrow> map_option (\<lambda>q. s\<lparr>ep_out := q, ep_hand := (ep_hand s)(r := None)\<rparr>)
          (chan_send errCh_capacity (ep_out s) (r, cat)))"
| "error_step MainReceives s =
     map_option (\<lambda>(e, q). s\<lparr>ep_out := q, ep_handled := ep_handled s @ [e]\<rparr>) (chan_recv (ep_out s))"

inductive error_reachable :: "error_path \<Rightarrow> bool" where
  init: "error_reachable empty_path"
| step: "error_reachable s \<Longrightarrow> error_step e s = Some s' \<Longrightarrow> error_reachable s'"

text \<open>The scanner's step is \<open>scanStderr_line\<close>.\<close>

lemma stderr_step_scan:
  "error_step (StderrLine r line) s = Some s' \<Longrightarrow>
   ep_errors s' = (ep_errors s)(r := scanStderr_line (ep_errors s r) line)"
  by (auto simp: scanStderr_line_def chan_send_def Let_def split: option.splits)

section \<open>Nothing accepted is lost\<close>

definition of_route :: "string \<Rightarrow> (string \<times> ErrorCategory) list \<Rightarrow> ErrorCategory list" where
  "of_route r es = map snd (filter (\<lambda>e. fst e = r) es)"

definition hand_list :: "'a option \<Rightarrow> 'a list" where
  "hand_list x = (case x of None \<Rightarrow> [] | Some y \<Rightarrow> [y])"

lemma of_route_simps [simp]:
  "of_route r [] = []" "of_route r ((q, c) # es) = (if q = r then [c] else []) @ of_route r es"
  "of_route r (xs @ ys) = of_route r xs @ of_route r ys"
  by (simp_all add: of_route_def)

lemma hand_list_simps [simp]: "hand_list None = []" "hand_list (Some y) = [y]"
  by (simp_all add: hand_list_def)

definition path_inv :: "error_path \<Rightarrow> bool" where
  "path_inv s \<longleftrightarrow>
     (\<forall>r. of_route r (ep_handled s @ ep_out s) @ hand_list (ep_hand s r) @ ep_errors s r = ep_accepted s r \<and>
        subseq (ep_accepted s r) (ep_seen s r) \<and> length (ep_errors s r) \<le> errors_capacity \<and>
        (length (ep_seen s r) \<le> errors_capacity \<longrightarrow> ep_accepted s r = ep_seen s r)) \<and>
     length (ep_out s) \<le> errCh_capacity"

lemma path_inv_init: "path_inv empty_path"
  by (simp add: path_inv_def empty_path_def)

lemma path_invD:
  "path_inv s \<Longrightarrow>
   of_route r (ep_handled s) @ of_route r (ep_out s) @ hand_list (ep_hand s r) @ ep_errors s r = ep_accepted s r \<and>
   subseq (ep_accepted s r) (ep_seen s r) \<and> length (ep_errors s r) \<le> errors_capacity \<and>
   (length (ep_seen s r) \<le> errors_capacity \<longrightarrow> ep_accepted s r = ep_seen s r)"
  by (simp add: path_inv_def)

text \<open>What a step makes of the two histories: only a full channel loses a failure.\<close>

definition recorded :: "error_event \<Rightarrow> error_path \<Rightarrow> error_path \<Rightarrow> bool" where
  "recorded e s s' \<longleftrightarrow>
     (case e of
        StderrLine r line \<Rightarrow>
          (case classifyStderrLine line of
             None \<Rightarrow> ep_seen s' = ep_seen s \<and> ep_accepted s' = ep_accepted s
           | Some cat \<Rightarrow>
               ep_seen s' = (ep_seen s)(r := ep_seen s r @ [cat]) \<and>
               ep_accepted s' = (if length (ep_errors s r) < errors_capacity
                 then (ep_accepted s)(r := ep_accepted s r @ [cat]) else ep_accepted s))
      | _ \<Rightarrow> ep_seen s' = ep_seen s \<and> ep_accepted s' = ep_accepted s)"

lemma error_step_recorded: "error_step e s = Some s' \<Longrightarrow> recorded e s s'"
  by (cases e) (auto simp: recorded_def chan_send_def Let_def split: option.splits if_splits)

lemma path_inv_step:
  assumes "error_step e s = Some s'" "path_inv s"
  shows "path_inv s'"
proof (cases e)
  case (StderrLine r line)
  show ?thesis
  proof (cases "classifyStderrLine line")
    case None
    with assms StderrLine show ?thesis by simp
  next
    case (Some cat)
    then have "s' = (let s' = s\<lparr>ep_seen := (ep_seen s)(r := ep_seen s r @ [cat])\<rparr> in
        if length (ep_errors s r) < errors_capacity
        then s'\<lparr>ep_errors := (ep_errors s)(r := ep_errors s r @ [cat]),
          ep_accepted := (ep_accepted s)(r := ep_accepted s r @ [cat])\<rparr> else s')"
      using assms(1) StderrLine by (simp add: chan_send_def Let_def split: if_splits)
    moreover have "subseq (ep_accepted s r) (ep_seen s r @ [cat])"
      using assms(2) by (auto simp: path_inv_def)
    moreover have "subseq (ep_accepted s r @ [cat]) (ep_seen s r @ [cat])"
      using assms(2) by (simp add: path_inv_def)
    moreover have "length (ep_errors s r) < errors_capacity \<and> ep_accepted s r = ep_seen s r"
      if "length (ep_seen s r @ [cat]) \<le> errors_capacity"
    proof -
      have acc: "ep_accepted s r = ep_seen s r" using path_invD [OF assms(2), of r] that by simp
      have "length (ep_errors s r) \<le> length (ep_accepted s r)"
        using path_invD [OF assms(2), of r] by (metis length_append le_add2 add.assoc)
      with acc that show ?thesis by simp
    qed
    ultimately show ?thesis using assms(2) unfolding path_inv_def
      by (auto simp: Let_def simp flip: append_assoc)
  qed
next
  case (ForwarderReceives r)
  with assms(1) obtain cat q where "ep_hand s r = None" "chan_recv (ep_errors s r) = Some (cat, q)"
    and s': "s' = s\<lparr>ep_errors := (ep_errors s)(r := q), ep_hand := (ep_hand s)(r := Some cat)\<rparr>"
    by (auto split: option.splits)
  with chan.recv_contents [OF this(2)] path_invD [OF assms(2), of r] assms(2) show ?thesis
    by (auto simp: path_inv_def)
next
  case (ForwarderSends r)
  with assms(1) obtain cat where hand: "ep_hand s r = Some cat" and room: "length (ep_out s) < errCh_capacity"
    and s': "s' = s\<lparr>ep_out := ep_out s @ [(r, cat)], ep_hand := (ep_hand s)(r := None)\<rparr>"
    by (auto simp: chan_send_def split: option.splits if_splits)
  have "of_route x (ep_handled s @ ep_out s @ [(r, cat)]) @ hand_list (((ep_hand s)(r := None)) x) =
      of_route x (ep_handled s @ ep_out s) @ hand_list (ep_hand s x)" for x
    using hand by auto
  with assms(2) room show ?thesis unfolding s' path_inv_def
    by (simp del: of_route_simps flip: append_assoc)
next
  case MainReceives
  with assms(1) obtain y q where "chan_recv (ep_out s) = Some (y, q)"
    and s': "s' = s\<lparr>ep_out := q, ep_handled := ep_handled s @ [y]\<rparr>" by auto
  with chan.recv_contents [OF this(1)] assms(2) show ?thesis by (auto simp: path_inv_def)
qed

lemma error_reachable_inv: "error_reachable s \<Longrightarrow> path_inv s"
  by (induction rule: error_reachable.induct) (auto intro: path_inv_init path_inv_step)

section \<open>Progress\<close>

text \<open>What is under way, and how many steps of the forwarders and the main loop it can still take.\<close>

definition in_flight :: "string list \<Rightarrow> error_path \<Rightarrow> nat" where
  "in_flight names s =
     (\<Sum>r\<leftarrow>names. 3 * length (ep_errors s r) + 2 * length (hand_list (ep_hand s r))) + length (ep_out s)"

definition delivery_event :: "string list \<Rightarrow> error_event \<Rightarrow> bool" where
  "delivery_event names e \<longleftrightarrow>
     (case e of
        StderrLine r line \<Rightarrow> False
      | ForwarderReceives r \<Rightarrow> r \<in> set names
      | ForwarderSends r \<Rightarrow> r \<in> set names
      | MainReceives \<Rightarrow> True)"

lemma sum_list_upd:
  assumes "distinct xs" "r \<in> set xs" "\<And>x. x \<noteq> r \<Longrightarrow> f x = (g x :: nat)"
  shows "(\<Sum>x\<leftarrow>xs. f x) + g r = (\<Sum>x\<leftarrow>xs. g x) + f r"
  using assms
proof (induction xs)
  case (Cons x xs)
  show ?case
  proof (cases "x = r")
    case True
    have "f y = g y" if "y \<in> set xs" for y
      using Cons.prems(1) that True by (intro Cons.prems(3)) auto
    then have "map f xs = map g xs" by simp
    then show ?thesis using True by (simp del: map_eq_conv)
  next
    case False
    then show ?thesis using Cons by auto
  qed
qed simp

lemma delivery_step_decreases:
  assumes "distinct names" "delivery_event names e" "error_step e s = Some s'"
  shows "Suc (in_flight names s') \<le> in_flight names s"
proof -
  let ?w = "\<lambda>s r. 3 * length (ep_errors s r) + 2 * length (hand_list (ep_hand s r))"
  have upd: "(\<Sum>x\<leftarrow>names. ?w s' x) + ?w s r = (\<Sum>x\<leftarrow>names. ?w s x) + ?w s' r"
    if "r \<in> set names" "\<And>x. x \<noteq> r \<Longrightarrow> ?w s' x = ?w s x" for r
    by (rule sum_list_upd [OF assms(1) that])
  show ?thesis
  proof (cases e)
    case (ForwarderReceives r)
    with assms(3) obtain cat q where q: "ep_hand s r = None" "chan_recv (ep_errors s r) = Some (cat, q)"
      and s': "s' = s\<lparr>ep_errors := (ep_errors s)(r := q), ep_hand := (ep_hand s)(r := Some cat)\<rparr>"
      by (auto split: option.splits)
    have "r \<in> set names" using assms(2) ForwarderReceives by (simp add: delivery_event_def)
    from upd [OF this] chan.recv_contents [OF q(2)] q(1) show ?thesis by (simp add: s' in_flight_def)
  next
    case (ForwarderSends r)
    with assms(3) obtain cat where hand: "ep_hand s r = Some cat"
      and s': "s' = s\<lparr>ep_out := ep_out s @ [(r, cat)], ep_hand := (ep_hand s)(r := None)\<rparr>"
      by (auto simp: chan_send_def split: option.splits if_splits)
    have "r \<in> set names" using assms(2) ForwarderSends by (simp add: delivery_event_def)
    from upd [OF this] hand show ?thesis by (simp add: s' in_flight_def)
  next
    case MainReceives
    with assms(3) obtain y q where "chan_recv (ep_out s) = Some (y, q)"
      and s': "s' = s\<lparr>ep_out := q, ep_handled := ep_handled s @ [y]\<rparr>" by auto
    with chan.recv_contents [OF this(1)] show ?thesis by (simp add: in_flight_def)
  qed (use assms(2) in \<open>simp add: delivery_event_def\<close>)
qed

lemma delivery_step_enabled:
  assumes "in_flight names s \<noteq> 0"
  shows "\<exists>e s'. delivery_event names e \<and> error_step e s = Some s'"
proof (cases "ep_out s")
  case (Cons y q)
  then show ?thesis by (intro exI [of _ MainReceives]) (simp add: delivery_event_def)
next
  case Nil
  with assms obtain r where r: "r \<in> set names" "ep_errors s r \<noteq> [] \<or> ep_hand s r \<noteq> None"
    by (auto simp: in_flight_def hand_list_def split: option.splits)
  show ?thesis
  proof (cases "ep_hand s r")
    case None
    with r chan.recv_enabled [of "ep_errors s r"] show ?thesis
      by (intro exI [of _ "ForwarderReceives r"]) (auto simp: delivery_event_def)
  next
    case (Some cat)
    have "\<exists>q. chan_send errCh_capacity (ep_out s) (r, cat) = Some q"
      using chan.send_enabled [of "ep_out s" errCh_capacity "(r, cat)"] Nil by (auto simp: errCh_capacity_def)
    with r Some show ?thesis
      by (intro exI [of _ "ForwarderSends r"]) (auto simp: delivery_event_def)
  qed
qed


text \<open>One failure on its way: printed, received, sent on and handled.\<close>

definition printed_state :: error_path where
  "printed_state = empty_path\<lparr>ep_seen := (ep_seen empty_path)(''home'' := [CategoryHostKeyVerification]),
     ep_errors := (ep_errors empty_path)(''home'' := [CategoryHostKeyVerification]),
     ep_accepted := (ep_accepted empty_path)(''home'' := [CategoryHostKeyVerification])\<rparr>"

definition received_state :: error_path where
  "received_state = printed_state\<lparr>ep_errors := (ep_errors printed_state)(''home'' := []),
     ep_hand := (ep_hand printed_state)(''home'' := Some CategoryHostKeyVerification)\<rparr>"

definition sent_state :: error_path where
  "sent_state = received_state\<lparr>ep_out := [(''home'', CategoryHostKeyVerification)],
     ep_hand := (ep_hand received_state)(''home'' := None)\<rparr>"

definition handled_state :: error_path where
  "handled_state = sent_state\<lparr>ep_out := [], ep_handled := [(''home'', CategoryHostKeyVerification)]\<rparr>"

lemma failure_steps:
  "error_step (StderrLine ''home'' ''Host key verification failed.'') empty_path = Some printed_state"
  "error_step (ForwarderReceives ''home'') printed_state = Some received_state"
  "error_step (ForwarderSends ''home'') received_state = Some sent_state"
  "error_step MainReceives sent_state = Some handled_state"
proof -
  have cat: "classifyStderrLine ''Host key verification failed.'' = Some CategoryHostKeyVerification" by code_simp
  show "error_step (StderrLine ''home'' ''Host key verification failed.'') empty_path = Some printed_state"
    by (simp add: cat printed_state_def chan_send_def empty_path_def errors_capacity_def Let_def)
qed (simp_all add: handled_state_def sent_state_def received_state_def printed_state_def empty_path_def
    chan_send_def errCh_capacity_def)

lemma failure_states_reachable: "error_reachable printed_state" "error_reachable handled_state"
proof -
  show p: "error_reachable printed_state" by (rule error_reachable.step [OF error_reachable.init failure_steps(1)])
  have "error_reachable received_state" by (rule error_reachable.step [OF p failure_steps(2)])
  then have "error_reachable sent_state" by (rule error_reachable.step) (rule failure_steps(3))
  then show "error_reachable handled_state" by (rule error_reachable.step) (rule failure_steps(4))
qed


text \<open>
  Claim C27. What found room is delivered: while ssh prints nothing new, forwarders and main loop never
  block each other, as one of them can go on until all has been handled, and every step brings that
  nearer, so in whatever order they run all accepted failures are handled after at most
  \<open>in_flight\<close> steps.
\<close>

theorem accepted_failures_delivered:
  assumes "error_reachable s" "distinct names" "\<And>r. r \<notin> set names \<Longrightarrow> ep_accepted s r = []"
  shows "(\<forall>e s'. delivery_event names e \<longrightarrow> error_step e s = Some s' \<longrightarrow> in_flight names s' < in_flight names s) \<and>
    ((\<nexists>e s'. delivery_event names e \<and> error_step e s = Some s') \<longrightarrow> (\<forall>r. of_route r (ep_handled s) = ep_accepted s r))"
proof (intro conjI allI impI)
  fix e s'
  assume "delivery_event names e" "error_step e s = Some s'"
  from delivery_step_decreases [OF assms(2) this] show "in_flight names s' < in_flight names s" by simp
next
  fix r
  assume "\<nexists>e s'. delivery_event names e \<and> error_step e s = Some s'"
  then have none: "in_flight names s = 0" using delivery_step_enabled by blast
  note inv = path_invD [OF error_reachable_inv [OF assms(1)], of r]
  show "of_route r (ep_handled s) = ep_accepted s r"
  proof (cases "r \<in> set names")
    case True
    with none have "ep_errors s r = []" "hand_list (ep_hand s r) = []" "ep_out s = []"
      by (auto simp: in_flight_def)
    with inv show ?thesis by simp
  next
    case False
    with inv assms(3) show ?thesis by simp
  qed
qed

theorem accepted_failures_delivered_witness:
  "in_flight [''home''] received_state < in_flight [''home''] printed_state \<and>
   of_route ''home'' (ep_handled handled_state) = ep_accepted handled_state ''home'' \<and>
   ep_accepted handled_state ''home'' = [CategoryHostKeyVerification]"
proof -
  have other: "ep_accepted printed_state r = []" "ep_accepted handled_state r = []" if "r \<notin> set [''home'']" for r
    using that
    by (simp_all add: handled_state_def sent_state_def received_state_def printed_state_def empty_path_def)
  have "\<nexists>e s'. delivery_event [''home''] e \<and> error_step e handled_state = Some s'"
    by (auto simp: delivery_event_def handled_state_def sent_state_def received_state_def printed_state_def
        empty_path_def split: error_event.splits)
  moreover have "delivery_event [''home''] (ForwarderReceives ''home'')" by (simp add: delivery_event_def)
  moreover have "ep_accepted handled_state ''home'' = [CategoryHostKeyVerification]"
    by (simp add: handled_state_def sent_state_def received_state_def printed_state_def)
  ultimately show ?thesis
    using accepted_failures_delivered [OF failure_states_reachable(1) _ other(1)]
      accepted_failures_delivered [OF failure_states_reachable(2) _ other(2)] failure_steps(2)
    by (metis distinct_singleton)
qed

section \<open>watchNetwork\<close>

definition poll_interval :: "duration \<Rightarrow> duration" where
  "poll_interval d = (if sint d \<le> 0 then 30 * second else d)"

text \<open>
  One round of \<open>runNMCLIMonitor\<close>: the monitor cannot be run at all, or it printed so many lines
  before it ended, and whether the context was cancelled by then. The result is the number of
  rechecks it triggers.
\<close>

datatype monitor_round = Unavailable | Printed nat bool

fun runNMCLIMonitor :: "monitor_round list \<Rightarrow> nat" where
  "runNMCLIMonitor [] = 0"
| "runNMCLIMonitor (Unavailable # rs) = 0"
| "runNMCLIMonitor (Printed n cancelled_now # rs) = n + (if cancelled_now then 0 else runNMCLIMonitor rs)"

text \<open>The triggers of a run: the rounds of the monitor and the ticks of the fallback ticker.\<close>

definition watchNetwork :: "monitor_round list \<Rightarrow> nat \<Rightarrow> daemon_event list" where
  "watchNetwork rounds ticks = replicate (runNMCLIMonitor rounds + ticks) Trigger"

end
