(* ===== verification/Policy.thy ===== *)
theory Policy
  imports Reload
begin

text \<open>
  What the main loop of \<open>internal/daemon/daemon.go\<close> implements, without its machinery: a machine
  that remembers the last decisions and whether a look at the network is due. The run of the daemon
  simulates it, and everything the daemon shows to the outside (the tunnels it wants, the routing
  table, the PAC file) is a function of the decisions the machine holds. Then the well-formedness of
  a running daemon, and the addresses it binds: the listeners of the PAC server and of the front
  door, the forwards it asks ssh for, and those \<open>Load\<close> listens on for a moment to pick a free port.
\<close>

section \<open>The abstract machine\<close>

record policy =
  po_recheck :: bool
  po_pending :: bool
  po_timer :: bool
  po_dec :: "string \<rightharpoonup> bool"

definition new_decisions :: "config \<Rightarrow> string + net_state \<Rightarrow> (string \<rightharpoonup> bool) \<Rightarrow> (string \<rightharpoonup> bool)" where
  "new_decisions cfg query dec =
     (case query of Inl _ \<Rightarrow> dec | Inr ns \<Rightarrow> decisions_of ns (c_Routes cfg))"

definition policy_start :: "config \<Rightarrow> string + net_state \<Rightarrow> policy" where
  "policy_start cfg query =
     \<lparr>po_recheck = False, po_pending = False, po_timer = False, po_dec = new_decisions cfg query (\<lambda>_. None)\<rparr>"

fun policy_step :: "config \<Rightarrow> daemon_event \<Rightarrow> policy \<Rightarrow> policy option" where
  "policy_step cfg Trigger p = Some (p\<lparr>po_recheck := True\<rparr>)"
| "policy_step cfg ReceiveRecheck p =
     (if po_recheck p then Some (p\<lparr>po_recheck := False, po_pending := True, po_timer := True\<rparr>) else None)"
| "policy_step cfg (DebounceFires query) p =
     (if po_timer p then
        Some (if po_pending p
              then p\<lparr>po_timer := False, po_pending := False, po_dec := new_decisions cfg query (po_dec p)\<rparr>
              else p\<lparr>po_timer := False\<rparr>)
      else None)"
| "policy_step cfg _ p = Some p"

fun policy_run :: "config \<Rightarrow> daemon_event list \<Rightarrow> policy \<Rightarrow> policy option" where
  "policy_run cfg [] p = Some p"
| "policy_run cfg (e # es) p =
     (case policy_step cfg e p of None \<Rightarrow> None | Some p' \<Rightarrow> policy_run cfg es p')"

section \<open>What the daemon shows\<close>

record promise =
  pr_tunnels :: "bool list"
  pr_table :: "table option"
  pr_pac :: "(string \<times> string) option"

definition observe :: "daemon \<Rightarrow> promise" where
  "observe d = \<lparr>pr_tunnels = map Running (d_sups d), pr_table = d_table d, pr_pac = pac_response (d_pac d)\<rparr>"

definition promised ::
  "(nat \<Rightarrow> bool) \<Rightarrow> (string \<Rightarrow> string) \<Rightarrow> config \<Rightarrow> (string \<rightharpoonup> bool) \<Rightarrow> promise"
where
  "promised is_print uni cfg dec =
     \<lparr>pr_tunnels = map (\<lambda>r. case dec (r_Name r) of None \<Rightarrow> False | Some need \<Rightarrow> need \<or> r_KeepTunnelWhenDirect r)
        (c_Routes cfg),
      pr_table = (if px_Enabled (c_Proxy cfg) then Some (Update dec (NewTable uni (c_Routes cfg))) else None),
      pr_pac = (if pac_Enabled (c_PAC cfg)
        then Some (''application/x-ns-proxy-autoconfig'',
          if dec = (\<lambda>_. None) then [] else Generate is_print (c_Routes cfg) dec (front_addr cfg))
        else None)\<rparr>"

definition policy_of :: "daemon \<Rightarrow> policy" where
  "policy_of d = \<lparr>po_recheck = d_recheck d, po_pending = d_pending d, po_timer = d_timer d, po_dec = d_last d\<rparr>"

text \<open>The runs of the main loop, with the steps of connection handlers in between.\<close>

inductive daemon_trace ::
  "(nat \<Rightarrow> bool) \<Rightarrow> (int64 \<Rightarrow> int64) \<Rightarrow> config \<Rightarrow> daemon \<Rightarrow> daemon_event list \<Rightarrow> daemon \<Rightarrow> bool"
  for is_print rng cfg d0 where
  start: "daemon_trace is_print rng cfg d0 [] d0"
| step: "daemon_trace is_print rng cfg d0 es d \<Longrightarrow> daemon_step is_print rng cfg e d = Some d' \<Longrightarrow>
    daemon_trace is_print rng cfg d0 (es @ [e]) d'"
| serve: "daemon_trace is_print rng cfg d0 es d \<Longrightarrow> d_server d = Some s \<Longrightarrow> server_step s s' \<Longrightarrow>
    daemon_trace is_print rng cfg d0 es (d\<lparr>d_server := Some s'\<rparr>)"

section \<open>The simulation\<close>

lemma policy_run_snoc:
  "policy_run cfg (es @ [e]) p = (case policy_run cfg es p of None \<Rightarrow> None | Some p' \<Rightarrow> policy_step cfg e p')"
  by (induction cfg es p rule: policy_run.induct) (auto split: option.splits)

lemma applyState_last:
  assumes "in_step is_print uni cfg d" "valid_config cfg"
  shows "d_last (applyState is_print cfg q d) = new_decisions cfg q (d_last d)"
proof (cases q)
  case (Inr ns)
  with synced_last [OF applyState_synced [OF assms(1) valid_distinct [OF assms(2)], of ns]]
  show ?thesis by (simp add: new_decisions_def)
qed (simp add: applyState_def new_decisions_def)

lemma policy_step_simulates:
  assumes "daemon_reachable is_print uni rng cfg d" "valid_config cfg" "daemon_step is_print rng cfg e d = Some d'"
  shows "policy_step cfg e (policy_of d) = Some (policy_of d')"
proof (cases e)
  case (DebounceFires q)
  let ?d = "d\<lparr>d_timer := False, d_pending := False\<rparr>"
  have "in_step is_print uni cfg ?d"
    using reachable_in_step [OF assms(1,2)] by (simp add: in_step_def synced_cong [where d = d and d' = ?d])
  from applyState_last [OF this assms(2), of q] assms(3) DebounceFires show ?thesis
    by (auto simp: policy_of_def split: if_splits)
qed (use assms(3) in \<open>auto simp: policy_of_def split: if_splits prod.splits\<close>)

lemma trace_reachable:
  "daemon_trace is_print rng cfg d0 es d \<Longrightarrow> daemon_reachable is_print uni rng cfg d0 \<Longrightarrow>
    daemon_reachable is_print uni rng cfg d"
  by (induction rule: daemon_trace.induct) (auto intro: daemon_reachable.intros)

lemma trace_simulated:
  assumes "daemon_trace is_print rng cfg d0 es d" "daemon_reachable is_print uni rng cfg d0" "valid_config cfg"
  shows "policy_run cfg es (policy_of d0) = Some (policy_of d)"
  using assms(1)
proof (induction rule: daemon_trace.induct)
  case (step es d e d')
  then show ?case
    using policy_step_simulates [OF trace_reachable [OF step.hyps(1) assms(2)] assms(3) step.hyps(2)]
    by (simp add: policy_run_snoc)
qed (simp_all add: policy_of_def)

text \<open>What is shown is determined by the decisions.\<close>

lemma decisions_empty: "decisions_of ns rs = (\<lambda>_. None) \<longleftrightarrow> rs = []"
  by (cases rs) (auto simp: decisions_of_def fun_eq_iff)

lemma Update_none: "Update (\<lambda>_. None) (NewTable uni rs) = NewTable uni rs"
  by (simp add: Update_def NewTable_def)

lemma observe_promised:
  assumes "daemon_reachable is_print uni rng cfg d" "valid_config cfg"
  shows "observe d = promised is_print uni cfg (d_last d)"
proof -
  have serving: "ps_serving (d_pac d) = pac_Enabled (c_PAC cfg)"
    using daemon_reachable_inv [OF assms(1) valid_distinct [OF assms(2)]] by (simp add: daemon_inv_def)
  from reachable_in_step [OF assms] show ?thesis unfolding in_step_def
  proof (elim disjE exE)
    assume "unsynced uni cfg d"
    then show ?thesis using serving
      by (simp add: unsynced_def observe_def promised_def Update_none pac_response_def)
  next
    fix ns assume sync: "synced is_print uni cfg ns d"
    let ?dec = "decisions_of ns (c_Routes cfg)"
    have tunnels: "map (\<lambda>r. needs_proxy ns r \<or> r_KeepTunnelWhenDirect r) (c_Routes cfg) =
        map (\<lambda>r. case ?dec (r_Name r) of None \<Rightarrow> False | Some need \<Rightarrow> need \<or> r_KeepTunnelWhenDirect r) (c_Routes cfg)"
      using decisions_of_name [OF valid_distinct [OF assms(2)], of _ ns] by (intro map_cong) simp_all
    have "ps_body (d_pac d) = (if ?dec = (\<lambda>_. None) then [] else Generate is_print (c_Routes cfg) ?dec (front_addr cfg))"
      if "pac_Enabled (c_PAC cfg)"
      using sync that no_routes_body [OF assms(1)] by (auto simp: synced_def Let_def decisions_empty)
    with sync serving show ?thesis
      by (auto simp: synced_def Let_def observe_def promised_def tunnels pac_response_def)
  qed
qed

lemma policy_of_start:
  assumes "runOnce_start is_print uni cfg cdir loaded pbind xbind query = Inr d0" "valid_config cfg"
  shows "policy_of d0 = policy_start cfg query"
  using assms(1)
proof (rule runOnce_start_InrE)
  fix st pac
  assume d0: "d0 = applyState is_print cfg query (initial_daemon uni cfg pac st)"
    and pac: "ps_body pac = []" "ps_serving pac = pac_Enabled (c_PAC cfg)"
  have "in_step is_print uni cfg (initial_daemon uni cfg pac st)"
    using initial_daemon_inv [OF pac, of is_print uni "\<lambda>_. 0" st] by (simp add: daemon_inv_def)
  from applyState_last [OF this assms(2), of query] show ?thesis
    by (simp add: d0 policy_of_def policy_start_def) (simp add: initial_daemon_def)
qed

section \<open>Properties\<close>

text \<open>
  Claim C3. The daemon implements the policy. Every run of the main loop, from its start, with
  connections, ssh processes and failures interleaved in any way, is a run of the abstract machine on
  the same events; and the tunnels that are wanted, the routing table and the answer of the PAC
  server are at every moment those the machine's decisions call for.
\<close>

theorem daemon_refines_policy:
  assumes "runOnce_start is_print uni cfg cdir loaded pbind xbind query = Inr d0" "valid_config cfg"
    and "daemon_trace is_print rng cfg d0 es d"
  shows "\<exists>p. policy_run cfg es (policy_start cfg query) = Some p \<and>
    policy_of d = p \<and> observe d = promised is_print uni cfg (po_dec p)"
proof -
  have reach: "daemon_reachable is_print uni rng cfg d0" by (rule daemon_reachable.start [OF assms(1)])
  from trace_simulated [OF assms(3) reach assms(2)] observe_promised [OF trace_reachable [OF assms(3) reach] assms(2)]
  show ?thesis by (simp add: policy_of_start [OF assms(1,2)]) (simp add: policy_of_def)
qed

definition no_network :: net_state where
  "no_network = \<lparr>ns_SSID = [], ns_Gateway = [], ns_Address = []\<rparr>"

lemma started_start:
  "runOnce_start (\<lambda>_. False) id lan_config True (Some empty_state) True True query = Inr (started query)"
  by (simp add: runOnce_start_def started_def initial_daemon_def PacStart_def lan_config_def Default_def Let_def)

theorem daemon_refines_policy_witness:
  "\<exists>d. daemon_trace (\<lambda>_. False) (\<lambda>_. 0) lan_config (started (Inl []))
       [Trigger, ReceiveRecheck, DebounceFires (Inr no_network)] d \<and> pr_tunnels (observe d) = [True]"
proof -
  let ?es = "[Trigger, ReceiveRecheck, DebounceFires (Inr no_network)]"
  let ?d2 = "(started (Inl []))\<lparr>d_recheck := False, d_pending := True, d_timer := True\<rparr>"
  have "daemon_trace (\<lambda>_. False) (\<lambda>_. 0) lan_config (started (Inl [])) ([] @ [Trigger]) ((started (Inl []))\<lparr>d_recheck := True\<rparr>)"
    by (rule daemon_trace.step [OF daemon_trace.start]) simp
  then have "daemon_trace (\<lambda>_. False) (\<lambda>_. 0) lan_config (started (Inl [])) (([] @ [Trigger]) @ [ReceiveRecheck]) ?d2"
    by (rule daemon_trace.step) simp
  then have t: "daemon_trace (\<lambda>_. False) (\<lambda>_. 0) lan_config (started (Inl [])) ?es
      (applyState (\<lambda>_. False) lan_config (Inr no_network) (?d2\<lparr>d_timer := False, d_pending := False\<rparr>))"
    using daemon_trace.step [where e = "DebounceFires (Inr no_network)"] by fastforce
  from daemon_refines_policy [OF started_start valid_lan_config t] t show ?thesis
    by (auto simp: policy_start_def promised_def decisions_of_def new_decisions_def lan_config_def
        lan_route_def wiki_route_def needs_proxy_def intro!: exI)
qed

section \<open>Addresses\<close>

text \<open>
  The address of the PAC server; the forwards a command line of ssh asks for (\<open>-o\<close> takes an
  argument, \<open>-D\<close> its address); and all addresses a run of a configuration binds or has ssh bind.
\<close>

definition pac_addr :: "config \<Rightarrow> string" where
  "pac_addr cfg = join_host_port (pac_Bind (c_PAC cfg)) (itoa (pac_Port (c_PAC cfg)))"

fun forwards :: "string list \<Rightarrow> string list" where
  "forwards (a # v # rest) =
     (if a = ''-o'' then forwards rest
      else if a = ''-D'' then v # forwards rest
      else forwards (v # rest))"
| "forwards _ = []"

definition bound_addrs :: "bool \<Rightarrow> config \<Rightarrow> string list" where
  "bound_addrs verbose cfg =
     (if pac_Enabled (c_PAC cfg) then [pac_addr cfg] else []) @
     (if px_Enabled (c_Proxy cfg) then [front_addr cfg] else []) @
     concat (map (\<lambda>r. forwards (sshArgs r (c_SSH cfg) verbose)) (c_Routes cfg))"

definition loopback_addr :: "string \<Rightarrow> bool" where
  "loopback_addr a \<longleftrightarrow>
     (\<exists>b p. loopback_host b \<and> (a = join_host_port b (itoa p) \<or> a = listen_addr b p))"

lemma forwards_sshArgs:
  "forwards (sshArgs r ssh verbose) =
     (case r_SocksProxy r of None \<Rightarrow> [] | Some sp \<Rightarrow> [listen_addr (sp_Bind sp) (sp_Port sp)])"
  by (cases "r_SocksProxy r"; cases verbose) (simp_all add: sshArgs_def)

lemma valid_loopback:
  assumes "valid_config cfg"
  shows "pac_Enabled (c_PAC cfg) \<Longrightarrow> loopback_host (pac_Bind (c_PAC cfg))"
    "px_Enabled (c_Proxy cfg) \<Longrightarrow> loopback_host (px_Bind (c_Proxy cfg))"
    "r \<in> set (c_Routes cfg) \<Longrightarrow> r_SocksProxy r = Some sp \<Longrightarrow> loopback_host (sp_Bind sp)"
proof -
  have all: "(b, p) \<in> set (listeners cfg) \<Longrightarrow> loopback_host b" for b p
    using assms by (auto simp: valid_config_def list_all_iff)
  show "pac_Enabled (c_PAC cfg) \<Longrightarrow> loopback_host (pac_Bind (c_PAC cfg))"
    using all [of "pac_Bind (c_PAC cfg)" "pac_Port (c_PAC cfg)"] by (simp add: listeners_def pac_listener_def)
  show "px_Enabled (c_Proxy cfg) \<Longrightarrow> loopback_host (px_Bind (c_Proxy cfg))"
    using all [of "px_Bind (c_Proxy cfg)" "px_Port (c_Proxy cfg)"] by (simp add: listeners_def proxy_listener_def)
  show "r \<in> set (c_Routes cfg) \<Longrightarrow> r_SocksProxy r = Some sp \<Longrightarrow> loopback_host (sp_Bind sp)"
    using all [of "sp_Bind sp" "sp_Port sp"] by (force simp: listeners_def socks_listener_def)
qed

lemma bound_loopback:
  assumes "valid_config cfg"
  shows "list_all loopback_addr (bound_addrs verbose cfg)"
proof -
  have fwd: "loopback_addr a" if "r \<in> set (c_Routes cfg)" "a \<in> set (forwards (sshArgs r (c_SSH cfg) verbose))" for r a
    using valid_loopback(3) [OF assms that(1)] that(2)
    by (cases "r_SocksProxy r") (auto simp: forwards_sshArgs loopback_addr_def)
  have "pac_Enabled (c_PAC cfg) \<Longrightarrow> loopback_addr (pac_addr cfg)"
    using valid_loopback(1) [OF assms] by (auto simp: pac_addr_def loopback_addr_def)
  moreover have "px_Enabled (c_Proxy cfg) \<Longrightarrow> loopback_addr (front_addr cfg)"
    using valid_loopback(2) [OF assms] by (auto simp: front_addr_def loopback_addr_def)
  ultimately show ?thesis using fwd by (auto simp: bound_addrs_def list_all_iff)
qed

text \<open>
  Claim C17. The running daemon is well formed. In every state of the reload loop, the run that is
  active has exactly one supervisor per route of the configuration, in its order; it serves a PAC file
  exactly if that is enabled, and has a routing table and a front-door server exactly if the proxy is;
  every decision it remembers is about a route; and an armed request has its timer.
\<close>

theorem running_daemon_well_formed:
  assumes "runner_reachable is_print uni rng fp um pick path (Active r)" "ru_daemon r = Some d"
  shows "length (d_sups d) = length (c_Routes (ru_cfg r)) \<and>
    (pac_response (d_pac d) \<noteq> None \<longleftrightarrow> pac_Enabled (c_PAC (ru_cfg r))) \<and>
    (d_table d \<noteq> None \<longleftrightarrow> px_Enabled (c_Proxy (ru_cfg r))) \<and>
    (d_server d \<noteq> None \<longleftrightarrow> px_Enabled (c_Proxy (ru_cfg r))) \<and>
    dom (d_last d) \<subseteq> r_Name ` set (c_Routes (ru_cfg r)) \<and> (d_pending d \<longrightarrow> d_timer d)"
proof -
  from runner_reachable_inv [OF assms(1)] assms(2) have cfg: "valid_config (ru_cfg r)"
    and d: "daemon_reachable is_print uni rng (ru_cfg r) d" by (simp_all add: runner_inv_def)
  note step = reachable_in_step [OF d cfg]
  have "d_table d \<noteq> None \<longleftrightarrow> px_Enabled (c_Proxy (ru_cfg r))"
    using observe_promised [OF d cfg] by (simp add: observe_def promised_def)
  then show ?thesis
    using daemon_reachable_inv [OF d valid_distinct [OF cfg]] in_step_length [OF step] in_step_dom [OF step]
    by (simp add: daemon_inv_def pac_response_def)
qed

text \<open>A daemon that has read a configuration with one route and has started its run.\<close>

definition lan_runner :: runner where
  "lan_runner = \<lparr>ru_cfg = lan_config, ru_daemon = Some (started (Inl [])), ru_past = [], ru_lastMod = 5, ru_reload = False\<rparr>"

definition lan_unmarshal :: "string \<Rightarrow> config \<Rightarrow> string + config" where
  "lan_unmarshal content c = Inr (c\<lparr>c_Routes := [lan_route]\<rparr>)"

lemma Load_lan:
  assumes "readFile ''c.yaml'' = Data content"
  shows "fst (Load None readFile lan_unmarshal pick w ''c.yaml'') = Inr lan_config"
proof -
  have "ok (Validate lan_config)" using valid_lan_config by (simp only: Validate_iff)
  then have "Validate lan_config = Inr ()" by (cases "Validate lan_config") auto
  moreover have "applyRouteDefaults pick w [lan_route] = (Inr [lan_route], w)"
    by (simp add: routeDefault_def lan_route_def wiki_route_def Let_def)
  ultimately show ?thesis using assms
    by (simp add: Load_def ResolvePath_def lan_unmarshal_def lan_config_def Let_def)
qed

lemma lan_runner_reachable:
  "runner_reachable (\<lambda>_. False) id rng None lan_unmarshal (pick :: unit port_picker) ''c.yaml'' (Active lan_runner)"
proof -
  let ?r = "lan_runner\<lparr>ru_daemon := None\<rparr>"
  have "Run_start None (\<lambda>_. Data []) lan_unmarshal pick () ''c.yaml'' (\<lambda>_. Some 5) = Inr ?r"
    by (simp add: Run_start_def ResolvePath_def Load_lan lan_runner_def)
  then have "runner_reachable (\<lambda>_. False) id rng None lan_unmarshal pick ''c.yaml'' (Active ?r)"
    by (rule runner_reachable.init)
  then show ?thesis
    by (rule runner_reachable.step [where e = "RunOnceStarts True (Some empty_state) True True (Inl [])"])
       (simp add: lan_runner_def started_start)
qed

theorem running_daemon_well_formed_witness:
  "length (d_sups (started (Inl []))) = 1"
  using running_daemon_well_formed [OF lan_runner_reachable [of "\<lambda>_. 0" "\<lambda>w (_ :: string). (Inl [], w)"],
      of "started (Inl [])"]
  by (simp add: lan_runner_def lan_config_def)

section \<open>Listening while a configuration is loaded\<close>

text \<open>
  \<open>Load\<close> itself listens, for a moment, when it picks a free port. What it listens on is recorded in
  the world it passes along; the recording changes nothing else.
\<close>

definition recording ::
  "('w \<Rightarrow> string \<Rightarrow> (string + (string + int)) \<times> 'w) \<Rightarrow>
   'w \<times> string list \<Rightarrow> string \<Rightarrow> (string + (string + int)) \<times> ('w \<times> string list)"
where
  "recording listen w a = (case listen (fst w) a of (x, w') \<Rightarrow> (x, w', snd w @ [a]))"

definition load_listens ::
  "string option \<Rightarrow> (string \<Rightarrow> read_result) \<Rightarrow> (string \<Rightarrow> config \<Rightarrow> string + config) \<Rightarrow>
   ('w \<Rightarrow> string \<Rightarrow> (string + (string + int)) \<times> 'w) \<Rightarrow> 'w \<Rightarrow> string \<Rightarrow> string list"
where
  "load_listens filePath readFile unmarshal listen w path =
     snd (snd (Load filePath readFile unmarshal (pickFreePort (recording listen)) (w, []) path))"

lemma pickFreePort_recording:
  "pickFreePort (recording listen) (w, heard) bind =
     (case pickFreePort listen w bind of (x, w') \<Rightarrow> (x, w', heard @ [join_host_port bind ''0'']))"
  by (simp add: pickFreePort_def recording_def split: prod.split sum.split)

lemma routeDefault_recording:
  "routeDefault (pickFreePort (recording listen)) (w, heard) r =
     (case routeDefault (pickFreePort listen) w r of (x, w') \<Rightarrow>
        (x, w', snd (snd (routeDefault (pickFreePort (recording listen)) (w, heard) r))))"
  by (auto simp: routeDefault_def Let_def pickFreePort_recording split: option.split prod.split sum.split)

lemma routeDefault_log:
  "routeDefault (pickFreePort (recording listen)) (w, heard) r = (Inr r', w', heard') \<Longrightarrow>
   heard' = heard \<or> (\<exists>sp. r_SocksProxy r' = Some sp \<and> heard' = heard @ [join_host_port (sp_Bind sp) ''0''])"
  by (auto simp: routeDefault_def Let_def pickFreePort_recording
      split: option.splits prod.splits sum.splits if_splits)

lemma applyRouteDefaults_recording:
  "applyRouteDefaults (pickFreePort (recording listen)) (w, heard) rs =
     (case applyRouteDefaults (pickFreePort listen) w rs of (x, w') \<Rightarrow>
        (x, w', snd (snd (applyRouteDefaults (pickFreePort (recording listen)) (w, heard) rs))))"
proof (induction rs arbitrary: w heard)
  case (Cons r rs)
  obtain x w1 where r: "routeDefault (pickFreePort listen) w r = (x, w1)" by fastforce
  obtain heard1 where r': "routeDefault (pickFreePort (recording listen)) (w, heard) r = (x, w1, heard1)"
    by (rule that) (rule routeDefault_recording [of listen w heard r, unfolded r prod.case])
  obtain y w2 where rs: "applyRouteDefaults (pickFreePort listen) w1 rs = (y, w2)" by fastforce
  obtain heard2 where rs': "applyRouteDefaults (pickFreePort (recording listen)) (w1, heard1) rs = (y, w2, heard2)"
    by (rule that) (rule Cons.IH [of w1 heard1, unfolded rs prod.case])
  show ?case by (cases x; cases y) (simp_all add: r r' rs rs')
qed simp

lemma applyRouteDefaults_log:
  "applyRouteDefaults (pickFreePort (recording listen)) (w, heard) rs = (Inr rs', w', heard') \<Longrightarrow>
   a \<in> set heard' \<Longrightarrow>
   a \<in> set heard \<or> (\<exists>r sp. r \<in> set rs' \<and> r_SocksProxy r = Some sp \<and> a = join_host_port (sp_Bind sp) ''0'')"
proof (induction rs arbitrary: w heard rs' w' heard')
  case (Cons r rs)
  obtain x w1 heard1 where r: "routeDefault (pickFreePort (recording listen)) (w, heard) r = (x, w1, heard1)"
    by (metis prod.exhaust_sel)
  obtain y w2 heard2 where rs: "applyRouteDefaults (pickFreePort (recording listen)) (w1, heard1) rs = (y, w2, heard2)"
    by (metis prod.exhaust_sel)
  from Cons.prems(1) r rs obtain r1 rs1 where x: "x = Inr r1" and y: "y = Inr rs1"
    and res: "rs' = r1 # rs1" "heard2 = heard'"
    by (cases x; cases y) auto
  from Cons.IH [OF rs [unfolded y]] Cons.prems(2) res
  have "a \<in> set heard1 \<or> (\<exists>r sp. r \<in> set rs1 \<and> r_SocksProxy r = Some sp \<and> a = join_host_port (sp_Bind sp) ''0'')"
    by blast
  with routeDefault_log [OF r [unfolded x]] res(1) show ?case by auto
qed simp

lemma fst_case_loaded:
  "fst (case x of (Inl e, w') \<Rightarrow> (Inl e, w') | (Inr rs, w') \<Rightarrow> (g rs, w')) =
     (case fst x of Inl e \<Rightarrow> Inl e | Inr rs \<Rightarrow> g rs)"
  by (cases x; cases "fst x") auto

lemma Load_recording:
  "fst (Load fp rd um (pickFreePort (recording listen)) (w, []) path) = fst (Load fp rd um (pickFreePort listen) w path)"
proof -
  have "fst (applyRouteDefaults (pickFreePort (recording listen)) (w, []) rs) =
      fst (applyRouteDefaults (pickFreePort listen) w rs)" for rs
    by (subst applyRouteDefaults_recording) (simp split: prod.split)
  then show ?thesis
    unfolding Load_def Let_def by (simp add: fst_case_loaded split: sum.split read_result.split)
qed

lemma itoa_zero: "itoa 0 = ''0''"
  by code_simp

lemma load_listens_loopback:
  assumes "fst (Load fp rd um (pickFreePort listen) w path) = Inr cfg"
  shows "list_all loopback_addr (load_listens fp rd um listen w path)"
proof -
  let ?pick = "pickFreePort (recording listen)"
  from assms have ld: "fst (Load fp rd um ?pick (w, []) path) = Inr cfg" by (simp add: Load_recording)
  have valid: "valid_config cfg" by (rule Load_valid [OF ld])
  have "loopback_addr a" if a: "a \<in> set (snd (snd (Load fp rd um ?pick (w, []) path)))" for a
  proof -
    from ld a obtain cfg0 rs w' heard' where rs: "applyRouteDefaults ?pick (w, []) (c_Routes cfg0) = (Inr rs, w', heard')"
      and cfg: "cfg = cfg0\<lparr>c_Routes := rs\<rparr>" and heard: "a \<in> set heard'"
      by (auto simp: Load_def Let_def andthen_eq_Inr split: sum.splits read_result.splits prod.splits)
    from applyRouteDefaults_log [OF rs heard] obtain r sp
      where "r \<in> set (c_Routes cfg)" "r_SocksProxy r = Some sp" "a = join_host_port (sp_Bind sp) ''0''"
      by (auto simp: cfg)
    with valid_loopback(3) [OF valid] show ?thesis
      unfolding loopback_addr_def by (intro exI [of _ "sp_Bind sp"] exI [of _ 0]) (simp add: itoa_zero)
  qed
  then show ?thesis by (simp add: load_listens_def list_all_iff)
qed

text \<open>
  Claim C7. Never an open relay, for any configuration the program accepts. In every state of the reload
  loop, every address the run binds (the PAC server, the front door) and every address it has ssh bind
  is an address of the loopback interface; so is every address \<open>Load\<close> itself listened on, to pick free
  ports, when it returned a configuration; and every connection the front door does not dial directly
  goes to such an address. (A configuration that \<open>Load\<close> goes on to reject may have made it listen
  elsewhere: \<open>rejected_config_listens\<close>.)
\<close>

theorem loopback_addresses_only:
  assumes "runner_reachable is_print uni rng fp um pick path (Active r)"
  shows "list_all loopback_addr (bound_addrs verbose (ru_cfg r)) \<and>
    (fst (Load fp readFile um (pickFreePort listen) w path) = Inr cfg \<longrightarrow>
       list_all loopback_addr (load_listens fp readFile um listen w path)) \<and>
    (\<forall>d t host. ru_daemon r = Some d \<longrightarrow> d_table d = Some t \<longrightarrow>
       d_Upstream (Decide uni t host) = [] \<or> loopback_addr (d_Upstream (Decide uni t host)))"
proof -
  from runner_reachable_inv [OF assms] have cfg: "valid_config (ru_cfg r)" by (simp add: runner_inv_def)
  have "loopback_addr (d_Upstream (Decide uni t host))"
    if d: "ru_daemon r = Some d" and t: "d_table d = Some t" and up: "d_Upstream (Decide uni t host) \<noteq> []" for d t host
  proof -
    have "daemon_reachable is_print uni rng (ru_cfg r) d"
      using runner_reachable_inv [OF assms] d by (simp add: runner_inv_def)
    from observe_promised [OF this cfg] t have "t = Update (d_last d) (NewTable uni (c_Routes (ru_cfg r)))"
      by (auto simp: observe_def promised_def split: if_splits)
    with up obtain q sp where "q \<in> set (c_Routes (ru_cfg r))" "r_SocksProxy q = Some sp"
      "d_Upstream (Decide uni t host) = upstream_addr sp" using Decide_tunnelled by metis
    with valid_loopback(3) [OF cfg] show ?thesis by (auto simp: loopback_addr_def upstream_addr_def)
  qed
  then show ?thesis
    using bound_loopback [OF cfg] load_listens_loopback [of fp readFile um listen w path cfg] by blast
qed

text \<open>A file with one route that asks for a free port on an address.\<close>

definition active_route :: "string \<Rightarrow> route" where
  "active_route bind = lan_route\<lparr>r_SocksProxy := Some \<lparr>sp_Active = True, sp_Bind = bind, sp_Port = 0\<rparr>\<rparr>"

definition active_unmarshal :: "string \<Rightarrow> string \<Rightarrow> config \<Rightarrow> string + config" where
  "active_unmarshal bind content c = Inr (c\<lparr>c_Routes := [active_route bind]\<rparr>)"

definition os_listen :: "unit \<Rightarrow> string \<Rightarrow> (string + (string + int)) \<times> unit" where
  "os_listen w a = (Inr (Inr 40001), w)"

lemma load_active:
  assumes "bind \<noteq> []"
  shows "fst (Load None (\<lambda>_. Data []) (active_unmarshal bind) (pickFreePort os_listen) () ''c.yaml'') =
      andthen (Validate (Default\<lparr>c_Routes := [active_route bind
        \<lparr>r_SocksProxy := Some \<lparr>sp_Active = True, sp_Bind = bind, sp_Port = 40001\<rparr>\<rparr>]\<rparr>))
        (\<lambda>_. Inr (Default\<lparr>c_Routes := [active_route bind
          \<lparr>r_SocksProxy := Some \<lparr>sp_Active = True, sp_Bind = bind, sp_Port = 40001\<rparr>\<rparr>]\<rparr>))"
    and "load_listens None (\<lambda>_. Data []) (active_unmarshal bind) os_listen () ''c.yaml'' = [join_host_port bind ''0'']"
  using assms
  by (simp_all add: Load_def load_listens_def ResolvePath_def active_unmarshal_def routeDefault_def active_route_def
      pickFreePort_def recording_def os_listen_def Let_def)

theorem loopback_addresses_only_witness:
  "list_all loopback_addr (bound_addrs True (ru_cfg default_runner)) \<and>
   length (bound_addrs True (ru_cfg default_runner)) = 2 \<and>
   load_listens None (\<lambda>_. Data []) (active_unmarshal ''127.0.0.1'') os_listen () ''c.yaml'' = [''127.0.0.1:0''] \<and>
   loopback_addr ''127.0.0.1:0''"
proof -
  let ?cfg = "Default\<lparr>c_Routes := [active_route ''127.0.0.1''
    \<lparr>r_SocksProxy := Some \<lparr>sp_Active = True, sp_Bind = ''127.0.0.1'', sp_Port = 40001\<rparr>\<rparr>]\<rparr>"
  have "valid_config ?cfg"
    by (simp add: valid_config_def Default_def active_route_def lan_route_def wiki_route_def listeners_def
        socks_listener_def pac_listener_def proxy_listener_def)
  then have "ok (Validate ?cfg)" by (simp only: Validate_iff)
  then have "Validate ?cfg = Inr ()" by (cases "Validate ?cfg") auto
  then have loaded: "fst (Load None (\<lambda>_. Data []) (active_unmarshal ''127.0.0.1'') (pickFreePort os_listen) () ''c.yaml'') =
      Inr ?cfg"
    using load_active(1) [of "''127.0.0.1''"] by simp
  have listens: "load_listens None (\<lambda>_. Data []) (active_unmarshal ''127.0.0.1'') os_listen () ''c.yaml'' = [''127.0.0.1:0'']"
    using load_active(2) [of "''127.0.0.1''"] by (simp add: join_host_port_def)
  note never_open = loopback_addresses_only [OF default_runner_reachable [of "\<lambda>_. False" id "\<lambda>_. 0"
      "active_unmarshal ''127.0.0.1''"]]
  have "list_all loopback_addr (bound_addrs True (ru_cfg default_runner))" using never_open by (rule conjunct1)
  moreover have "list_all loopback_addr [''127.0.0.1:0'']"
    using never_open [THEN conjunct2, THEN conjunct1, THEN mp, OF loaded] by (simp only: listens)
  moreover have "length (bound_addrs True (ru_cfg default_runner)) = 2"
    by (simp add: bound_addrs_def default_runner_def Default_def)
  ultimately show ?thesis unfolding listens by simp
qed

text \<open>
  The ports are picked before \<open>Validate\<close> looks at the addresses: a file whose route asks for a free port
  on all interfaces is rejected, but only after the process has listened there.
\<close>

theorem rejected_config_listens:
  "\<not> ok (fst (Load None (\<lambda>_. Data []) (active_unmarshal ''0.0.0.0'') (pickFreePort os_listen) () ''c.yaml'')) \<and>
   load_listens None (\<lambda>_. Data []) (active_unmarshal ''0.0.0.0'') os_listen () ''c.yaml'' = [''0.0.0.0:0''] \<and>
   \<not> loopback_host ''0.0.0.0''"
proof -
  let ?cfg = "Default\<lparr>c_Routes := [active_route ''0.0.0.0''
    \<lparr>r_SocksProxy := Some \<lparr>sp_Active = True, sp_Bind = ''0.0.0.0'', sp_Port = 40001\<rparr>\<rparr>]\<rparr>"
  have no: "\<not> loopback_host ''0.0.0.0''" by code_simp
  then have "\<not> valid_config ?cfg" by (auto simp: valid_config_def listeners_def socks_listener_def)
  then have "\<not> ok (Validate ?cfg)" by (simp only: Validate_iff not_False_eq_True)
  then obtain e where "Validate ?cfg = Inl e" by (cases "Validate ?cfg") auto
  then have "\<not> ok (fst (Load None (\<lambda>_. Data []) (active_unmarshal ''0.0.0.0'') (pickFreePort os_listen) () ''c.yaml''))"
    using load_active(1) [of "''0.0.0.0''"] by simp
  moreover have "load_listens None (\<lambda>_. Data []) (active_unmarshal ''0.0.0.0'') os_listen () ''c.yaml'' = [''0.0.0.0:0'']"
    using load_active(2) [of "''0.0.0.0''"] by (simp add: join_host_port_def)
  ultimately show ?thesis using no by blast
qed

end
