(* ===== verification/Debounce.thy ===== *)
theory Debounce
  imports ErrorPath Policy
begin

text \<open>
  The main loop of \<open>internal/daemon/daemon.go\<close> with its clock: the fallback ticker of
  \<open>watchNetwork\<close>, the lines of the monitor, and the debounce timer, which every recheck starts
  anew. The times are in nanoseconds. How long does the daemon take to notice a change of the network?

  The loop is taken to be prompt: time passes only while it has nothing to do, that is, no recheck
  is waiting in the channel, and neither the ticker nor the timer is due. \<open>applyState\<close> takes no time
  either, although a query of the network may wait two seconds for each command it runs: that much
  comes on top of the times below. (A timer that is reset leaves
  no old value in its channel: \<open>go.mod\<close> asks for a version of Go in which that is so.)
\<close>

section \<open>The clock\<close>

definition debounceInterval :: duration where
  "debounceInterval = 500000000"

definition poll_period :: "config \<Rightarrow> int" where
  "poll_period cfg = sint (poll_interval (c_PollInterval cfg))"

text \<open>
  The time, the next tick, when the debounce timer fires; and, to state what happens, when a recheck
  was last triggered and when \<open>applyState\<close> was last called.
\<close>

record timed =
  tm_daemon :: daemon
  tm_now :: int
  tm_tick :: int
  tm_due :: "int option"
  tm_asked :: int
  tm_looked :: int

definition timed_start :: "config \<Rightarrow> daemon \<Rightarrow> timed" where
  "timed_start cfg d =
     \<lparr>tm_daemon = d, tm_now = 0, tm_tick = poll_period cfg, tm_due = None, tm_asked = 0, tm_looked = 0\<rparr>"

datatype timed_event = Elapse int | PollTick | MonitorLine | Receive | Fires | Other daemon_event

text \<open>An event of the loop that does not touch the timer.\<close>

fun other_event :: "daemon_event \<Rightarrow> bool" where
  "other_event (ErrorForwarded _ _ _ _) = True"
| "other_event (SupervisorRuns _ _ _) = True"
| "other_event _ = False"

text \<open>\<open>net\<close>: what \<open>netstate.Query\<close> returns at each moment.\<close>

fun timed_step ::
  "(nat \<Rightarrow> bool) \<Rightarrow> (int64 \<Rightarrow> int64) \<Rightarrow> config \<Rightarrow> (int \<Rightarrow> string + net_state) \<Rightarrow> timed_event \<Rightarrow> timed \<Rightarrow> timed option"
where
  "timed_step is_print rng cfg net (Elapse dt) s =
     (if 0 < dt \<and> \<not> d_recheck (tm_daemon s) \<and> tm_now s + dt \<le> tm_tick s \<and>
         (case tm_due s of None \<Rightarrow> True | Some t \<Rightarrow> tm_now s + dt \<le> t)
      then Some (s\<lparr>tm_now := tm_now s + dt\<rparr>) else None)"
| "timed_step is_print rng cfg net PollTick s =
     (if tm_now s = tm_tick s then
        map_option (\<lambda>d. s\<lparr>tm_daemon := d, tm_tick := tm_tick s + poll_period cfg, tm_asked := tm_now s\<rparr>)
          (daemon_step is_print rng cfg Trigger (tm_daemon s))
      else None)"
| "timed_step is_print rng cfg net MonitorLine s =
     map_option (\<lambda>d. s\<lparr>tm_daemon := d, tm_asked := tm_now s\<rparr>)
       (daemon_step is_print rng cfg Trigger (tm_daemon s))"
| "timed_step is_print rng cfg net Receive s =
     map_option (\<lambda>d. s\<lparr>tm_daemon := d, tm_due := Some (tm_now s + sint debounceInterval)\<rparr>)
       (daemon_step is_print rng cfg ReceiveRecheck (tm_daemon s))"
| "timed_step is_print rng cfg net Fires s =
     (case tm_due s of
        None \<Rightarrow> None
      | Some t \<Rightarrow>
          if t \<le> tm_now s then
            map_option (\<lambda>d. s\<lparr>tm_daemon := d, tm_due := None,
                tm_looked := (if d_pending (tm_daemon s) then tm_now s else tm_looked s)\<rparr>)
              (daemon_step is_print rng cfg (DebounceFires (net (tm_now s))) (tm_daemon s))
          else None)"
| "timed_step is_print rng cfg net (Other e) s =
     (if other_event e then
        map_option (\<lambda>d. s\<lparr>tm_daemon := d\<rparr>) (daemon_step is_print rng cfg e (tm_daemon s))
      else None)"

text \<open>The states reached with (\<open>monitor\<close>) or without lines of the monitor.\<close>

inductive timed_reachable ::
  "(nat \<Rightarrow> bool) \<Rightarrow> (string \<Rightarrow> string) \<Rightarrow> (int64 \<Rightarrow> int64) \<Rightarrow> config \<Rightarrow> (int \<Rightarrow> string + net_state) \<Rightarrow> bool \<Rightarrow>
   timed \<Rightarrow> bool"
  for is_print uni rng cfg net monitor where
  start: "runOnce_start is_print uni cfg cdir loaded pbind xbind (net 0) = Inr d \<Longrightarrow>
    timed_reachable is_print uni rng cfg net monitor (timed_start cfg d)"
| step: "timed_reachable is_print uni rng cfg net monitor s \<Longrightarrow> monitor \<or> e \<noteq> MonitorLine \<Longrightarrow>
    timed_step is_print rng cfg net e s = Some s' \<Longrightarrow>
    timed_reachable is_print uni rng cfg net monitor s'"

section \<open>The invariant\<close>

lemma sint_debounce: "sint debounceInterval = 500000000"
  by (simp add: debounceInterval_def)

lemma poll_period_pos: "0 < poll_period cfg"
  by (simp add: poll_period_def poll_interval_def second_def)

text \<open>A step of the clocked loop that changes the daemon is a step of the loop.\<close>

fun loop_event :: "(int \<Rightarrow> string + net_state) \<Rightarrow> int \<Rightarrow> timed_event \<Rightarrow> daemon_event option" where
  "loop_event net now (Elapse _) = None"
| "loop_event net now PollTick = Some Trigger"
| "loop_event net now MonitorLine = Some Trigger"
| "loop_event net now Receive = Some ReceiveRecheck"
| "loop_event net now Fires = Some (DebounceFires (net now))"
| "loop_event net now (Other e) = Some e"

lemma timed_step_daemon:
  "timed_step is_print rng cfg net e s = Some s' \<Longrightarrow>
    (case loop_event net (tm_now s) e of
       None \<Rightarrow> tm_daemon s' = tm_daemon s
     | Some de \<Rightarrow> daemon_step is_print rng cfg de (tm_daemon s) = Some (tm_daemon s'))"
  by (cases e) (auto split: if_splits option.splits simp del: daemon_step.simps)

lemma timed_reachable_daemon:
  "timed_reachable is_print uni rng cfg net monitor s \<Longrightarrow> daemon_reachable is_print uni rng cfg (tm_daemon s)"
proof (induction rule: timed_reachable.induct)
  case (step s e s')
  from timed_step_daemon [OF step(3)] step(4) show ?case
    by (auto split: option.splits intro: daemon_reachable.step)
qed (auto simp: timed_start_def intro: daemon_reachable.start)

lemma start_idle:
  assumes "runOnce_start is_print uni cfg cdir loaded pbind xbind query = Inr d"
  shows "\<not> d_recheck d" "\<not> d_pending d" "\<not> d_timer d"
  using assms by (auto simp: runOnce_start_def Let_def applyState_def split: if_splits option.splits sum.splits prod.splits)

lemma applyState_idle:
  "d_recheck (applyState is_print cfg q d) = d_recheck d"
  "d_pending (applyState is_print cfg q d) = d_pending d"
  "d_timer (applyState is_print cfg q d) = d_timer d"
  by (simp_all add: applyState_def split: sum.splits prod.splits)

text \<open>
  The flags of the loop and the clock. An unanswered request is at most the debounce interval old;
  without one, \<open>applyState\<close> has been called since the last.
\<close>

definition timed_inv :: "config \<Rightarrow> timed \<Rightarrow> bool" where
  "timed_inv cfg s \<longleftrightarrow>
     (let d = tm_daemon s in
      d_timer d = d_pending d \<and> (tm_due s \<noteq> None) = d_pending d \<and>
      tm_tick s - poll_period cfg \<le> tm_now s \<and> tm_now s \<le> tm_tick s \<and> tm_asked s \<le> tm_now s \<and>
      (d_recheck d \<longrightarrow> tm_now s = tm_asked s) \<and>
      (\<forall>t. tm_due s = Some t \<longrightarrow> tm_now s \<le> t \<and> (\<not> d_recheck d \<longrightarrow> t = tm_asked s + sint debounceInterval)) \<and>
      (\<not> d_recheck d \<and> \<not> d_pending d \<longrightarrow> tm_asked s \<le> tm_looked s))"

lemma timed_inv_start:
  "runOnce_start is_print uni cfg cdir loaded pbind xbind query = Inr d \<Longrightarrow> timed_inv cfg (timed_start cfg d)"
  using poll_period_pos [of cfg] by (auto simp: timed_inv_def timed_start_def start_idle)

lemma other_frame:
  assumes "other_event e" "daemon_step is_print rng cfg e d = Some d'"
  shows "d_recheck d' = d_recheck d" "d_pending d' = d_pending d" "d_timer d' = d_timer d" "d_last d' = d_last d"
  using assms by (cases e; auto split: if_splits prod.splits)+

lemma timed_inv_step:
  assumes "timed_step is_print rng cfg net e s = Some s'" "timed_inv cfg s"
  shows "timed_inv cfg s'"
proof (cases e)
  case (Other de)
  with assms(1) obtain d' where d': "other_event de" "daemon_step is_print rng cfg de (tm_daemon s) = Some d'"
    "s' = s\<lparr>tm_daemon := d'\<rparr>" by (auto split: if_splits simp del: daemon_step.simps)
  from other_frame [OF d'(1,2)] assms(2) show ?thesis by (simp add: timed_inv_def Let_def d'(3))
next
  case (Elapse dt)
  with assms show ?thesis by (cases "tm_due s") (auto simp: timed_inv_def Let_def split: if_splits)
next
  case PollTick
  with assms poll_period_pos [of cfg] show ?thesis by (auto simp: timed_inv_def Let_def split: if_splits)
next
  case MonitorLine
  with assms show ?thesis by (auto simp: timed_inv_def Let_def)
next
  case Receive
  with assms sint_debounce show ?thesis by (auto simp: timed_inv_def Let_def split: if_splits)
next
  case Fires
  with assms obtain t where t: "tm_due s = Some t" "t \<le> tm_now s" by (auto split: option.splits if_splits)
  then have "d_pending (tm_daemon s)" "d_timer (tm_daemon s)" using assms(2) by (auto simp: timed_inv_def Let_def)
  with Fires t assms have s': "s' = s\<lparr>tm_daemon := applyState is_print cfg (net (tm_now s))
      ((tm_daemon s)\<lparr>d_timer := False, d_pending := False\<rparr>), tm_due := None, tm_looked := tm_now s\<rparr>" by simp
  from assms(2) show ?thesis by (simp add: s' timed_inv_def Let_def applyState_idle)
qed

lemma timed_reachable_inv:
  "timed_reachable is_print uni rng cfg net monitor s \<Longrightarrow> timed_inv cfg s"
  by (induction rule: timed_reachable.induct) (auto intro: timed_inv_start timed_inv_step)

section \<open>Following the network by polling\<close>

text \<open>
  Without the monitor and with a period longer than the debounce interval: each tick is answered
  before the next one, and the decisions are those for the network at the time of the last look.
\<close>

definition fresh_inv :: "config \<Rightarrow> (int \<Rightarrow> string + net_state) \<Rightarrow> timed \<Rightarrow> bool" where
  "fresh_inv cfg net s \<longleftrightarrow>
     (let d = tm_daemon s; P = poll_period cfg in
      (d_recheck d \<longrightarrow> tm_now s = tm_tick s - P \<and> tm_due s = None \<and> tm_tick s - 2 * P \<le> tm_looked s) \<and>
      (\<not> d_recheck d \<longrightarrow>
         (case tm_due s of
            None \<Rightarrow> tm_tick s - P \<le> tm_looked s
          | Some t \<Rightarrow> t = tm_tick s - P + sint debounceInterval \<and> tm_tick s - 2 * P \<le> tm_looked s)) \<and>
      tm_looked s \<le> tm_now s \<and>
      (\<forall>ns. net (tm_looked s) = Inr ns \<longrightarrow> d_last d = decisions_of ns (c_Routes cfg)))"

lemma daemon_step_last:
  assumes "daemon_reachable is_print uni rng cfg d" "valid_config cfg" "daemon_step is_print rng cfg e d = Some d'"
  shows "d_last d' =
    (case e of DebounceFires q \<Rightarrow> if d_pending d then new_decisions cfg q (d_last d) else d_last d | _ \<Rightarrow> d_last d)"
  using policy_step_simulates [OF assms] by (cases e) (auto simp: policy_of_def split: if_splits)

lemma fresh_inv_step:
  assumes "timed_step is_print rng cfg net e s = Some s'" "e \<noteq> MonitorLine" "fresh_inv cfg net s" "timed_inv cfg s"
    and "daemon_reachable is_print uni rng cfg (tm_daemon s)" "valid_config cfg"
    and "sint debounceInterval < poll_period cfg"
  shows "fresh_inv cfg net s'"
proof (cases e)
  case (Other de)
  with assms(1) obtain d' where d': "other_event de" "daemon_step is_print rng cfg de (tm_daemon s) = Some d'"
    "s' = s\<lparr>tm_daemon := d'\<rparr>" by (auto split: if_splits simp del: daemon_step.simps)
  from other_frame [OF d'(1,2)] assms(3) show ?thesis by (simp add: fresh_inv_def Let_def d'(3) cong: option.case_cong)
next
  case Fires
  with assms(1) obtain t d' where d': "tm_due s = Some t" "t \<le> tm_now s"
    "daemon_step is_print rng cfg (DebounceFires (net (tm_now s))) (tm_daemon s) = Some d'"
    "s' = s\<lparr>tm_daemon := d', tm_due := None, tm_looked := (if d_pending (tm_daemon s) then tm_now s else tm_looked s)\<rparr>"
    by (auto split: if_splits option.splits simp del: daemon_step.simps)
  have pend: "d_pending (tm_daemon s)" "\<not> d_recheck (tm_daemon s)"
    using assms(3,4) d'(1) by (auto simp: timed_inv_def fresh_inv_def Let_def)
  have "d_last d' = new_decisions cfg (net (tm_now s)) (d_last (tm_daemon s))"
    using daemon_step_last [OF assms(5,6) d'(3)] pend by simp
  moreover have "\<not> d_recheck d'" using d'(3) pend by (auto simp: applyState_idle split: if_splits)
  ultimately show ?thesis
    using assms(3) pend d'(1,2) sint_debounce by (auto simp: fresh_inv_def Let_def d'(4) new_decisions_def)
qed (use assms(1-4,7) poll_period_pos [of cfg] sint_debounce in
    \<open>auto simp: timed_inv_def fresh_inv_def Let_def split: if_splits option.splits\<close>)

lemma fresh_reachable:
  assumes "timed_reachable is_print uni rng cfg net False s" "valid_config cfg"
    and "sint debounceInterval < poll_period cfg"
  shows "fresh_inv cfg net s"
  using assms(1)
proof (induction rule: timed_reachable.induct)
  case (start cdir loaded pbind xbind d)
  from policy_of_start [OF start assms(2)] have "d_last d = new_decisions cfg (net 0) (\<lambda>_. None)"
    by (simp add: policy_of_def policy_start_def)
  then show ?case using start_idle [OF start] by (simp add: fresh_inv_def timed_start_def new_decisions_def)
next
  case (step s e s')
  then show ?case
    using fresh_inv_step [OF step(3) _ step(4) timed_reachable_inv [OF step(1)] timed_reachable_daemon [OF step(1)] assms(2,3)]
    by simp
qed

section \<open>Polling too fast\<close>

text \<open>
  With a period shorter than the debounce interval every tick postpones the timer beyond the next.
\<close>

definition starved_inv :: "config \<Rightarrow> (string \<rightharpoonup> bool) \<Rightarrow> timed \<Rightarrow> bool" where
  "starved_inv cfg dec s \<longleftrightarrow>
     (let d = tm_daemon s in
      tm_looked s = 0 \<and> d_last d = dec \<and>
      (\<forall>t. tm_due s = Some t \<longrightarrow> tm_now s < t \<and>
         (\<not> d_recheck d \<longrightarrow> tm_tick s - poll_period cfg + sint debounceInterval \<le> t)))"

lemma starved_inv_step:
  assumes "timed_step is_print rng cfg net e s = Some s'" "starved_inv cfg dec s" "timed_inv cfg s"
    and "poll_period cfg < sint debounceInterval"
  shows "starved_inv cfg dec s'"
proof (cases e)
  case (Other de)
  with assms(1) obtain d' where d': "other_event de" "daemon_step is_print rng cfg de (tm_daemon s) = Some d'"
    "s' = s\<lparr>tm_daemon := d'\<rparr>" by (auto split: if_splits simp del: daemon_step.simps)
  from other_frame [OF d'(1,2)] assms(2) show ?thesis by (simp add: starved_inv_def Let_def d'(3))
qed (use assms sint_debounce in \<open>auto simp: timed_inv_def starved_inv_def Let_def split: if_splits option.splits\<close>)

lemma starved_reachable:
  assumes "timed_reachable is_print uni rng cfg net monitor s" "valid_config cfg"
    and "poll_period cfg < sint debounceInterval"
  shows "starved_inv cfg (new_decisions cfg (net 0) (\<lambda>_. None)) s"
  using assms(1)
proof (induction rule: timed_reachable.induct)
  case (start cdir loaded pbind xbind d)
  from policy_of_start [OF start assms(2)] have "d_last d = new_decisions cfg (net 0) (\<lambda>_. None)"
    by (simp add: policy_of_def policy_start_def)
  then show ?case using start_idle [OF start] by (simp add: starved_inv_def timed_start_def)
qed (use assms(3) starved_inv_step timed_reachable_inv in blast)

text \<open>Time can go on for ever all the same.\<close>

lemma starving_forever:
  assumes "runOnce_start is_print uni cfg cdir loaded pbind xbind (net 0) = Inr d"
    and "poll_period cfg < sint debounceInterval"
  shows "\<exists>s. timed_reachable is_print uni rng cfg net False s \<and> tm_now s = int n * poll_period cfg \<and>
    tm_tick s = tm_now s + poll_period cfg \<and> \<not> d_recheck (tm_daemon s) \<and>
    (\<forall>t. tm_due s = Some t \<longrightarrow> t = tm_now s + sint debounceInterval)"
proof (induction n)
  case 0
  show ?case
    using timed_reachable.start [where net = net, OF assms(1)] start_idle [OF assms(1)]
    by (intro exI [of _ "timed_start cfg d"]) (simp add: timed_start_def)
next
  case (Suc n)
  let ?P = "poll_period cfg"
  from Suc obtain s where s: "timed_reachable is_print uni rng cfg net False s" "tm_now s = int n * ?P"
    "tm_tick s = tm_now s + ?P" "\<not> d_recheck (tm_daemon s)"
    "\<And>t. tm_due s = Some t \<Longrightarrow> t = tm_now s + sint debounceInterval" by blast
  define s1 where "s1 = s\<lparr>tm_now := tm_now s + ?P\<rparr>"
  define s2 where "s2 = s1\<lparr>tm_daemon := (tm_daemon s)\<lparr>d_recheck := True\<rparr>, tm_tick := tm_tick s1 + ?P, tm_asked := tm_now s1\<rparr>"
  define s3 where "s3 = s2\<lparr>tm_daemon := (tm_daemon s)\<lparr>d_recheck := False, d_pending := True, d_timer := True\<rparr>,
    tm_due := Some (tm_now s2 + sint debounceInterval)\<rparr>"
  have "timed_step is_print rng cfg net (Elapse ?P) s = Some s1"
    using s poll_period_pos [of cfg] assms(2) by (auto simp: s1_def split: option.split)
  then have r1: "timed_reachable is_print uni rng cfg net False s1" using timed_reachable.step [OF s(1)] by blast
  have "timed_step is_print rng cfg net PollTick s1 = Some s2" using s(3) by (simp add: s1_def s2_def)
  then have r2: "timed_reachable is_print uni rng cfg net False s2" using timed_reachable.step [OF r1] by blast
  have "timed_step is_print rng cfg net Receive s2 = Some s3" by (simp add: s2_def s3_def)
  then have "timed_reachable is_print uni rng cfg net False s3" using timed_reachable.step [OF r2] by blast
  then show ?case
    using s(2,3) by (intro exI [of _ s3]) (simp add: s3_def s2_def s1_def algebra_simps)
qed

section \<open>Properties\<close>

text \<open>
  Claim C24. A request is answered half a second after the last of its burst. In every reachable state, a
  recheck that is outstanding (in the channel, or waiting for the timer) was triggered at most the
  debounce interval ago; once that time has passed since the last trigger, \<open>applyState\<close> has been
  called after it; and the loop never stops the clock: it can always do something.
\<close>

theorem recheck_answered_in_time:
  assumes "timed_reachable is_print uni rng cfg net monitor s"
  shows "(d_recheck (tm_daemon s) \<or> d_pending (tm_daemon s) \<longrightarrow> tm_now s \<le> tm_asked s + sint debounceInterval) \<and>
    (tm_asked s + sint debounceInterval < tm_now s \<longrightarrow> tm_asked s \<le> tm_looked s) \<and>
    (\<exists>e s'. e \<noteq> MonitorLine \<and> timed_step is_print rng cfg net e s = Some s')"
proof -
  have inv: "timed_inv cfg s" by (rule timed_reachable_inv [OF assms])
  then have out: "d_recheck (tm_daemon s) \<or> d_pending (tm_daemon s) \<longrightarrow> tm_now s \<le> tm_asked s + sint debounceInterval"
    using sint_debounce by (auto simp: timed_inv_def Let_def)
  have "\<exists>e s'. e \<noteq> MonitorLine \<and> timed_step is_print rng cfg net e s = Some s'"
  proof -
    consider (recheck) "d_recheck (tm_daemon s)" | (tick) "tm_now s = tm_tick s"
      | (fires) t where "tm_due s = Some t" "t \<le> tm_now s"
      | (idle) "\<not> d_recheck (tm_daemon s)" "tm_now s < tm_tick s" "\<And>t. tm_due s = Some t \<Longrightarrow> tm_now s < t"
      using inv by (fastforce simp: timed_inv_def Let_def)
    then show ?thesis
    proof cases
      case recheck
      then have "timed_step is_print rng cfg net Receive s \<noteq> None" by simp
      then show ?thesis by (metis not_None_eq timed_event.distinct)
    next
      case tick
      then have "timed_step is_print rng cfg net PollTick s \<noteq> None" by simp
      then show ?thesis by (metis not_None_eq timed_event.distinct)
    next
      case fires
      with inv have "timed_step is_print rng cfg net Fires s \<noteq> None" by (auto simp: timed_inv_def Let_def)
      then show ?thesis by (metis not_None_eq timed_event.distinct)
    next
      case idle
      then have "timed_step is_print rng cfg net (Elapse 1) s \<noteq> None" by (auto split: option.split)
      then show ?thesis by (metis not_None_eq timed_event.distinct)
    qed
  qed
  with out inv show ?thesis by (auto simp: timed_inv_def Let_def)
qed

text \<open>A line of the monitor, half a second before the timer fires.\<close>

definition debouncing :: timed where
  "debouncing = \<lparr>tm_daemon = (started (Inl []))\<lparr>d_pending := True, d_timer := True\<rparr>, tm_now = 500000000,
     tm_tick = poll_period lan_config, tm_due = Some 500000000, tm_asked = 0, tm_looked = 0\<rparr>"

lemma poll_period_lan: "poll_period lan_config = 30000000000"
  by code_simp

lemma started_idle: "\<not> d_recheck (started q)" "\<not> d_pending (started q)" "\<not> d_timer (started q)"
  using start_idle [OF started_start] by simp_all

lemma debouncing_reachable:
  "timed_reachable (\<lambda>_. False) id rng lan_config (\<lambda>_. Inl []) True debouncing"
proof -
  let ?s0 = "timed_start lan_config (started (Inl []))"
  let ?s1 = "?s0\<lparr>tm_daemon := (started (Inl []))\<lparr>d_recheck := True\<rparr>\<rparr>"
  let ?s2 = "?s0\<lparr>tm_daemon := (started (Inl []))\<lparr>d_pending := True, d_timer := True\<rparr>, tm_due := Some 500000000\<rparr>"
  note frame = timed_start_def poll_period_lan sint_debounce debouncing_def started_idle
  have "timed_reachable (\<lambda>_. False) id rng lan_config (\<lambda>_. Inl []) True ?s0"
    by (rule timed_reachable.start [OF started_start])
  then have "timed_reachable (\<lambda>_. False) id rng lan_config (\<lambda>_. Inl []) True ?s1"
    by (rule timed_reachable.step [where e = MonitorLine]) (simp_all add: frame)
  then have "timed_reachable (\<lambda>_. False) id rng lan_config (\<lambda>_. Inl []) True ?s2"
    by (rule timed_reachable.step [where e = Receive]) (simp_all add: frame)
  then show ?thesis
    by (rule timed_reachable.step [where e = "Elapse 500000000"]) (simp_all add: frame)
qed

theorem recheck_answered_in_time_witness:
  "d_pending (tm_daemon debouncing) \<and> tm_now debouncing \<le> tm_asked debouncing + sint debounceInterval \<and>
   (\<exists>e s'. timed_step (\<lambda>_. False) (\<lambda>_. 0) lan_config (\<lambda>_. Inl []) e debouncing = Some s')"
proof -
  have "d_pending (tm_daemon debouncing)" by (simp add: debouncing_def)
  with recheck_answered_in_time [OF debouncing_reachable [of "\<lambda>_. 0"]] show ?thesis by blast
qed

text \<open>
  Claim C14. The network is followed within a bounded time, with the fallback ticker alone. If the polling
  period is longer than the debounce interval and the queries succeed, then at every moment the
  tunnels, the routing table and the PAC file are those for the network as it was at some moment, at
  most one period and one debounce interval ago.
\<close>

theorem network_followed_by_polling:
  assumes "timed_reachable is_print uni rng cfg (\<lambda>t. Inr (net t)) False s" "valid_config cfg"
    and "sint debounceInterval < poll_period cfg"
  shows "\<exists>t. tm_now s - (poll_period cfg + sint debounceInterval) \<le> t \<and> t \<le> tm_now s \<and>
    observe (tm_daemon s) = promised is_print uni cfg (decisions_of (net t) (c_Routes cfg))"
proof (intro exI [of _ "tm_looked s"] conjI)
  have inv: "timed_inv cfg s" by (rule timed_reachable_inv [OF assms(1)])
  have fresh: "fresh_inv cfg (\<lambda>t. Inr (net t)) s" by (rule fresh_reachable [OF assms])
  show "tm_now s - (poll_period cfg + sint debounceInterval) \<le> tm_looked s"
    using inv fresh sint_debounce by (auto simp: timed_inv_def fresh_inv_def Let_def split: option.splits)
  show "tm_looked s \<le> tm_now s" using fresh by (simp add: fresh_inv_def Let_def)
  show "observe (tm_daemon s) = promised is_print uni cfg (decisions_of (net (tm_looked s)) (c_Routes cfg))"
    using observe_promised [OF timed_reachable_daemon [OF assms(1)] assms(2)] fresh by (simp add: fresh_inv_def Let_def)
qed

theorem network_followed_by_polling_witness:
  "pr_tunnels (observe (started (Inr no_network))) = [True]"
proof -
  have "timed_reachable (\<lambda>_. False) id (\<lambda>_. 0) lan_config (\<lambda>t. Inr ((\<lambda>_. no_network) t)) False
      (timed_start lan_config (started (Inr no_network)))"
    by (rule timed_reachable.start [OF started_start])
  moreover have "sint debounceInterval < poll_period lan_config" by (simp add: poll_period_lan sint_debounce)
  ultimately have "\<exists>t. observe (started (Inr no_network)) =
      promised (\<lambda>_. False) id lan_config (decisions_of no_network (c_Routes lan_config))"
    using network_followed_by_polling [OF _ valid_lan_config] by (fastforce simp: timed_start_def)
  then show ?thesis
    by (simp add: promised_def decisions_of_def lan_config_def lan_route_def wiki_route_def needs_proxy_def)
qed

text \<open>
  Claim C16. A polling period below the debounce interval, which \<open>Validate\<close> accepts, stops the daemon from
  following the network at all: whatever the monitor prints, the timer never fires, the decisions stay
  those of the start, and time goes on.
\<close>

theorem short_poll_interval_starves:
  assumes "runOnce_start is_print uni cfg cdir loaded pbind xbind (net 0) = Inr d" "valid_config cfg"
    and "poll_period cfg < sint debounceInterval"
  shows "(\<forall>s. timed_reachable is_print uni rng cfg net monitor s \<longrightarrow>
      timed_step is_print rng cfg net Fires s = None \<and>
      observe (tm_daemon s) = promised is_print uni cfg (new_decisions cfg (net 0) (\<lambda>_. None))) \<and>
    (\<exists>s. timed_reachable is_print uni rng cfg net False s \<and> tm_now s = int n * poll_period cfg)"
proof (intro conjI allI impI)
  fix s assume s: "timed_reachable is_print uni rng cfg net monitor s"
  note inv = starved_reachable [OF s assms(2,3)]
  then show "timed_step is_print rng cfg net Fires s = None"
    by (auto simp: starved_inv_def Let_def split: option.split)
  show "observe (tm_daemon s) = promised is_print uni cfg (new_decisions cfg (net 0) (\<lambda>_. None))"
    using observe_promised [OF timed_reachable_daemon [OF s] assms(2)] inv by (simp add: starved_inv_def Let_def)
next
  show "\<exists>s. timed_reachable is_print uni rng cfg net False s \<and> tm_now s = int n * poll_period cfg"
    using starving_forever [where net = net and rng = rng and n = n, OF assms(1,3)] by blast
qed

definition fast_config :: config where
  "fast_config = lan_config\<lparr>c_PollInterval := 200000000\<rparr>"

lemma valid_fast_config: "valid_config fast_config"
  using valid_lan_config
  by (simp add: fast_config_def valid_config_def listeners_def pac_listener_def proxy_listener_def)

lemma fast_start:
  "\<exists>d. runOnce_start (\<lambda>_. False) id fast_config True (Some empty_state) True True q = Inr d"
  by (simp add: runOnce_start_def Let_def PacStart_def fast_config_def lan_config_def Default_def)

theorem short_poll_interval_starves_witness:
  "\<exists>s. timed_reachable (\<lambda>_. False) id (\<lambda>_. 0) fast_config (\<lambda>_. Inr no_network) False s \<and>
     tm_now s = 200000000 * 18000"
proof -
  have fast: "poll_period fast_config = 200000000" by code_simp
  obtain d where "runOnce_start (\<lambda>_. False) id fast_config True (Some empty_state) True True (Inr no_network) = Inr d"
    using fast_start by blast
  from short_poll_interval_starves [where net = "\<lambda>_. Inr no_network" and monitor = False and n = 18000
      and rng = "\<lambda>_. 0", OF this valid_fast_config]
  show ?thesis by (simp add: fast sint_debounce)
qed

end
