(* ===== verification/FileWatch.thy ===== *)
theory FileWatch
  imports Reload
begin

text \<open>
  The reload loop of \<open>internal/daemon/daemon.go\<close> together with the file it watches: edits of the
  configuration file, ticks of \<open>watchConfigFile\<close> and reloads by \<open>Run\<close>, in any order, each of the
  latter two seeing the file as it is at that moment. The question is whether the configuration that
  runs ends up being the one in the file.

  Two things are assumed: every edit gives the file a later modification time than it had before, and at
  the start the file is not edited between its being read and its time being asked for. Without
  them an edit can be missed for good (\<open>edit_before_first_stat_is_missed\<close>).
\<close>

section \<open>The file and its history\<close>

text \<open>
  The file is missing or has a modification time and a content (what reading it gives: data or an
  error). \<open>fw_mark\<close> is the latest modification time the file has had.
\<close>

record watched =
  fw_run :: runner
  fw_file :: "(time \<times> read_result) option"
  fw_mark :: time

definition read_file :: "(time \<times> read_result) option \<Rightarrow> string \<Rightarrow> read_result" where
  "read_file file path = (case file of None \<Rightarrow> NotExist | Some (t, content) \<Rightarrow> content)"

definition stat_file :: "(time \<times> read_result) option \<Rightarrow> time option" where
  "stat_file file = map_option fst file"

text \<open>\<open>Run\<close> starts: the file is read first, its time is asked for afterwards.\<close>

definition watch_start ::
  "string option \<Rightarrow> (string \<Rightarrow> config \<Rightarrow> string + config) \<Rightarrow> 'w port_picker \<Rightarrow> string \<Rightarrow> 'w \<Rightarrow>
   (time \<times> read_result) option \<Rightarrow> run_error + watched"
where
  "watch_start fp um pick path w file =
     (case Run_start fp (read_file file) um pick w path (\<lambda>_. stat_file file) of
        Inl e \<Rightarrow> Inl e
      | Inr r \<Rightarrow> Inr \<lparr>fw_run = r, fw_file = file, fw_mark = ru_lastMod r\<rparr>)"

datatype 'w watch_event =
    EditFile "(time \<times> read_result) option"
  | Tick
  | Reload 'w
  | Internal "'w runner_event"

text \<open>An event of the loop that neither stats nor loads the file.\<close>

fun internal_event :: "'w runner_event \<Rightarrow> bool" where
  "internal_event (RunOnceStarts _ _ _ _ _) = True"
| "internal_event (DaemonSteps _) = True"
| "internal_event _ = False"

text \<open>
  An edit gives the file a later time than it ever had, or removes it. The other events are those of
  \<open>runner_step\<close>; one that ends the loop has no successor here.
\<close>

definition watched_runner ::
  "(nat \<Rightarrow> bool) \<Rightarrow> (string \<Rightarrow> string) \<Rightarrow> (int64 \<Rightarrow> int64) \<Rightarrow> string option \<Rightarrow>
   (string \<Rightarrow> config \<Rightarrow> string + config) \<Rightarrow> 'w port_picker \<Rightarrow> string \<Rightarrow> 'w runner_event \<Rightarrow> watched \<Rightarrow> watched option"
where
  "watched_runner is_print uni rng fp um pick path e s =
     (case runner_step is_print uni rng fp um pick path e (fw_run s) of
        Some (Active r) \<Rightarrow> Some (s\<lparr>fw_run := r\<rparr>)
      | _ \<Rightarrow> None)"

fun watched_step ::
  "(nat \<Rightarrow> bool) \<Rightarrow> (string \<Rightarrow> string) \<Rightarrow> (int64 \<Rightarrow> int64) \<Rightarrow> string option \<Rightarrow>
   (string \<Rightarrow> config \<Rightarrow> string + config) \<Rightarrow> 'w port_picker \<Rightarrow> string \<Rightarrow> 'w watch_event \<Rightarrow> watched \<Rightarrow> watched option"
where
  "watched_step is_print uni rng fp um pick path (EditFile file) s =
     (case file of
        None \<Rightarrow> Some (s\<lparr>fw_file := None\<rparr>)
      | Some (t, content) \<Rightarrow>
          if fw_mark s < t then Some (s\<lparr>fw_file := file, fw_mark := t\<rparr>) else None)"
| "watched_step is_print uni rng fp um pick path Tick s =
     watched_runner is_print uni rng fp um pick path (WatchTick (stat_file (fw_file s))) s"
| "watched_step is_print uni rng fp um pick path (Reload w) s =
     watched_runner is_print uni rng fp um pick path (ReceiveReload (read_file (fw_file s)) w) s"
| "watched_step is_print uni rng fp um pick path (Internal e) s =
     (if internal_event e then watched_runner is_print uni rng fp um pick path e s else None)"

inductive watched_reachable ::
  "(nat \<Rightarrow> bool) \<Rightarrow> (string \<Rightarrow> string) \<Rightarrow> (int64 \<Rightarrow> int64) \<Rightarrow> string option \<Rightarrow>
   (string \<Rightarrow> config \<Rightarrow> string + config) \<Rightarrow> 'w port_picker \<Rightarrow> string \<Rightarrow> watched \<Rightarrow> bool"
  for is_print uni rng fp um pick path where
  init: "watch_start fp um pick path w file = Inr s \<Longrightarrow>
    watched_reachable is_print uni rng fp um pick path s"
| step: "watched_reachable is_print uni rng fp um pick path s \<Longrightarrow>
    watched_step is_print uni rng fp um pick path e s = Some s' \<Longrightarrow>
    watched_reachable is_print uni rng fp um pick path s'"

section \<open>The invariant\<close>

text \<open>
  The configuration that runs is what the file loads to, with some choice of free ports; or the file
  does not load, and the one before it runs on.
\<close>

definition file_runs ::
  "string option \<Rightarrow> (string \<Rightarrow> config \<Rightarrow> string + config) \<Rightarrow> 'w port_picker \<Rightarrow> string \<Rightarrow> watched \<Rightarrow> bool"
where
  "file_runs fp um pick path s \<longleftrightarrow>
     (\<exists>w. case fst (Load fp (read_file (fw_file s)) um pick w path) of
        Inl _ \<Rightarrow> True | Inr cfg \<Rightarrow> cfg = ru_cfg (fw_run s))"

definition watched_inv ::
  "string option \<Rightarrow> (string \<Rightarrow> config \<Rightarrow> string + config) \<Rightarrow> 'w port_picker \<Rightarrow> string \<Rightarrow> watched \<Rightarrow> bool"
where
  "watched_inv fp um pick path s \<longleftrightarrow>
     ru_lastMod (fw_run s) \<le> fw_mark s \<and>
     (case fw_file s of
        None \<Rightarrow> True
      | Some (t, _) \<Rightarrow> t \<le> fw_mark s \<and>
          (ru_reload (fw_run s) \<or> ru_lastMod (fw_run s) < t \<or> file_runs fp um pick path s))"

lemma watch_start_inv: "watch_start fp um pick path w file = Inr s \<Longrightarrow> watched_inv fp um pick path s"
  by (auto simp: watch_start_def Run_start_def watched_inv_def file_runs_def stat_file_def
      split: sum.splits option.splits intro!: exI [of _ w])

lemma file_runs_cong:
  "ru_cfg (fw_run s') = ru_cfg (fw_run s) \<Longrightarrow> fw_file s' = fw_file s \<Longrightarrow>
    file_runs fp um pick path s' = file_runs fp um pick path s"
  by (simp add: file_runs_def cong: sum.case_cong)

lemma tick_step:
  "watched_step is_print uni rng fp um pick path Tick s =
    Some (s\<lparr>fw_run := watch_tick (stat_file (fw_file s)) (fw_run s)\<rparr>)"
  by (simp add: watched_runner_def)

lemma reload_step:
  assumes "ru_reload (fw_run s)"
  shows "\<exists>r. watched_step is_print uni rng fp um pick path (Reload w) s = Some (s\<lparr>fw_run := r\<rparr>) \<and>
    ru_lastMod r = ru_lastMod (fw_run s) \<and> \<not> ru_reload r \<and>
    file_runs fp um pick path (s\<lparr>fw_run := r\<rparr>)"
  using assms by (auto simp: watched_runner_def Let_def file_runs_def split: sum.splits intro!: exI [of _ w])

lemma internal_step:
  assumes "internal_event e" "runner_step is_print uni rng fp um pick path e r = Some (Active r')"
  shows "ru_cfg r' = ru_cfg r" "ru_lastMod r' = ru_lastMod r" "ru_reload r' = ru_reload r"
  using assms by (cases e; auto split: if_splits sum.splits option.splits)+

lemma watched_step_inv:
  assumes "watched_step is_print uni rng fp um pick path e s = Some s'" "watched_inv fp um pick path s"
  shows "watched_inv fp um pick path s'"
proof (cases e)
  case (EditFile f)
  with assms show ?thesis by (auto simp: watched_inv_def split: option.splits if_splits)
next
  case Tick
  with assms(1) have s': "s' = s\<lparr>fw_run := watch_tick (stat_file (fw_file s)) (fw_run s)\<rparr>"
    by (simp add: tick_step del: watched_step.simps)
  show ?thesis
  proof (cases "fw_file s")
    case (Some f)
    obtain t content where f: "f = (t, content)" by (cases f)
    show ?thesis
    proof (cases "ru_lastMod (fw_run s) < t")
      case True
      then show ?thesis using assms(2) Some f
        by (simp add: s' watched_inv_def stat_file_def watch_tick_def)
    next
      case False
      then have "s' = s" by (simp add: s' Some f stat_file_def watch_tick_def)
      with assms(2) show ?thesis by simp
    qed
  qed (use assms(2) in \<open>simp add: s' watched_inv_def stat_file_def watch_tick_def\<close>)
next
  case (Reload w)
  then have "ru_reload (fw_run s)" using assms(1) by (auto simp: watched_runner_def split: if_splits)
  from reload_step [OF this, of is_print uni rng fp um pick path w] assms Reload show ?thesis
    by (auto simp: watched_inv_def split: option.splits)
next
  case (Internal e')
  with assms(1) obtain r' where e': "internal_event e'" "s' = s\<lparr>fw_run := r'\<rparr>"
    "runner_step is_print uni rng fp um pick path e' (fw_run s) = Some (Active r')"
    by (auto simp: watched_runner_def split: if_splits option.splits run_state.splits)
  note same = internal_step [OF e'(1,3)]
  have "file_runs fp um pick path s' = file_runs fp um pick path s"
    using same by (intro file_runs_cong) (simp_all add: e'(2))
  then show ?thesis using assms(2) same by (cases "fw_file s") (auto simp: watched_inv_def e'(2))
qed

lemma watched_reachable_inv:
  "watched_reachable is_print uni rng fp um pick path s \<Longrightarrow> watched_inv fp um pick path s"
  by (induction rule: watched_reachable.induct) (auto intro: watch_start_inv watched_step_inv simp del: watched_step.simps)

section \<open>Properties\<close>

text \<open>
  Claim C15. The configuration that runs converges to the file. In every reachable state in which
  the file exists: if no reload is due and the watcher has seen the file's time, then what runs is
  what the file loads to, or the file does not load; and in any case one tick, and the reload it asks
  for if it asks, lead there, however many edits, coalesced ticks and failed reloads came before.
\<close>

theorem reload_converges:
  assumes "watched_reachable is_print uni rng fp um pick path s" "fw_file s = Some (t, content)"
  shows "(\<not> ru_reload (fw_run s) \<and> t \<le> ru_lastMod (fw_run s) \<longrightarrow> file_runs fp um pick path s) \<and>
    (\<exists>s1. watched_step is_print uni rng fp um pick path Tick s = Some s1 \<and>
      (\<forall>w. \<exists>s2. (if ru_reload (fw_run s1) then watched_step is_print uni rng fp um pick path (Reload w) s1 = Some s2
                 else s2 = s1) \<and>
         fw_file s2 = fw_file s \<and> \<not> ru_reload (fw_run s2) \<and> t \<le> ru_lastMod (fw_run s2) \<and>
         file_runs fp um pick path s2))"
proof -
  note inv = watched_reachable_inv [OF assms(1), unfolded watched_inv_def assms(2)]
  define s1 where "s1 = s\<lparr>fw_run := watch_tick (stat_file (fw_file s)) (fw_run s)\<rparr>"
  have tick: "watched_step is_print uni rng fp um pick path Tick s = Some s1" by (simp only: tick_step s1_def)
  have s1: "fw_file s1 = fw_file s" "t \<le> ru_lastMod (fw_run s1)"
    by (auto simp: s1_def assms(2) stat_file_def watch_tick_def)
  have settled: "file_runs fp um pick path s1" if "\<not> ru_reload (fw_run s1)"
    using watched_reachable_inv [OF watched_reachable.step [OF assms(1) tick], unfolded watched_inv_def] s1 that
    by (auto simp: assms(2))
  have "\<exists>s2. (if ru_reload (fw_run s1) then watched_step is_print uni rng fp um pick path (Reload w) s1 = Some s2
                 else s2 = s1) \<and>
         fw_file s2 = fw_file s \<and> \<not> ru_reload (fw_run s2) \<and> t \<le> ru_lastMod (fw_run s2) \<and>
         file_runs fp um pick path s2" for w
  proof (cases "ru_reload (fw_run s1)")
    case True
    from reload_step [OF True, of is_print uni rng fp um pick path w] True s1 show ?thesis by fastforce
  qed (use settled s1 in simp)
  with inv tick show ?thesis by fastforce
qed

text \<open>A file that is edited while the daemon runs.\<close>

definition edited :: watched where
  "edited = \<lparr>fw_run = default_runner\<lparr>ru_lastMod := 5\<rparr>, fw_file = Some (6, Data ''b''), fw_mark = 6\<rparr>"

lemma edited_reachable:
  "watched_reachable (\<lambda>_. False) id rng None (\<lambda>_. Inr) (\<lambda>(w :: unit) (_ :: string). (Inl [], w)) ''c.yaml'' edited"
proof -
  let ?s = "edited\<lparr>fw_file := Some (5, Data ''a''), fw_mark := 5\<rparr>"
  have "ok (Validate Default)" using valid_Default by (simp only: Validate_iff)
  then have "Validate Default = Inr ()" by (cases "Validate Default") auto
  then have "watch_start None (\<lambda>_. Inr) (\<lambda>(w :: unit) (_ :: string). (Inl [], w)) ''c.yaml'' () (Some (5, Data ''a'')) = Inr ?s"
    by (simp add: watch_start_def Run_start_def ResolvePath_def Load_def read_file_def stat_file_def edited_def
        default_runner_def Let_def) (simp add: Default_def)
  then have "watched_reachable (\<lambda>_. False) id rng None (\<lambda>_. Inr) (\<lambda>(w :: unit) (_ :: string). (Inl [], w)) ''c.yaml'' ?s"
    by (rule watched_reachable.init)
  then show ?thesis
    by (rule watched_reachable.step [where e = "EditFile (Some (6, Data ''b''))"]) (simp add: edited_def)
qed

theorem reload_converges_witness:
  "\<exists>s2. fw_file s2 = Some (6, Data ''b'') \<and> \<not> ru_reload (fw_run s2) \<and> 6 \<le> ru_lastMod (fw_run s2) \<and>
     file_runs None (\<lambda>_. Inr) (\<lambda>(w :: unit) (_ :: string). (Inl [], w)) ''c.yaml'' s2"
proof -
  have f: "fw_file edited = Some (6, Data ''b'')" by (simp add: edited_def)
  from reload_converges [OF edited_reachable [of "\<lambda>_. 0"] f] f show ?thesis by metis
qed

lemma Load_no_routes:
  assumes "path \<noteq> []" "rd path = Data content" "um content Default = Inr c" "c_Routes c = []" "Validate c = Inr ()"
  shows "fst (Load fp rd um pick w path) = Inr c"
  using assms by (cases c) (simp add: Load_def ResolvePath_def Let_def)

text \<open>
  An edit that loads can still end the daemon. A PAC port outside the range of ports passes \<open>Validate\<close>
  (\<open>pac_port_not_checked\<close>), so the reload tears the running configuration down; the new run cannot
  bind the port, and \<open>Run\<close> returns with that error.
\<close>

theorem bad_pac_port_ends_daemon:
  assumes "ru_reload r" "path \<noteq> []" "rd path = Data content"
    and "um content Default = Inr (Default\<lparr>c_PAC := (c_PAC Default)\<lparr>pac_Port := p\<rparr>\<rparr>)" "p \<noteq> 8851"
  shows "\<exists>r'. runner_step is_print uni rng fp um pick path (ReceiveReload rd w) r = Some (Active r') \<and>
    runner_step is_print uni rng fp um pick path (RunOnceStarts True (Some st) False xbind query) r' =
      Some (Returned (Some (StartFailed PacBindFailed)))"
proof -
  let ?c = "Default\<lparr>c_PAC := (c_PAC Default)\<lparr>pac_Port := p\<rparr>\<rparr>"
  have c: "c_Routes ?c = []" "pac_Enabled (c_PAC ?c)" by (simp_all add: Default_def)
  have "ok (Validate ?c)"
    using assms(5) by (simp add: Validate_iff valid_config_def Default_def listeners_def pac_listener_def proxy_listener_def)
  then have "Validate ?c = Inr ()" by (cases "Validate ?c") auto
  then have "fst (Load fp rd um pick w path) = Inr ?c"
    using assms(2-4) c(1) by (intro Load_no_routes)
  then show ?thesis using assms(1) c(2)
    by (simp add: Let_def runOnce_start_def PacStart_def)
qed

theorem bad_pac_port_ends_daemon_witness:
  "\<exists>r'. runner_step (\<lambda>_. False) id (\<lambda>_. 0) None (\<lambda>_ c. Inr (c\<lparr>c_PAC := (c_PAC c)\<lparr>pac_Port := 99999\<rparr>\<rparr>))
      (\<lambda>(w :: unit) (_ :: string). (Inl [], w)) ''c.yaml'' (ReceiveReload (\<lambda>_. Data ''x'') ())
      (default_runner\<lparr>ru_reload := True\<rparr>) = Some (Active r')"
  using bad_pac_port_ends_daemon [where r = "default_runner\<lparr>ru_reload := True\<rparr>" and path = "''c.yaml''"
      and rd = "\<lambda>_. Data ''x''" and content = "''x''" and p = 99999
      and um = "\<lambda>_ c. Inr (c\<lparr>c_PAC := (c_PAC c)\<lparr>pac_Port := 99999\<rparr>\<rparr>)" and w = "()" and fp = None
      and pick = "\<lambda>(w :: unit) (_ :: string). (Inl [], w)" and is_print = "\<lambda>_. False" and uni = id and rng = "\<lambda>_. 0"]
  by fastforce

end
