(* ===== verification/Session.thy ===== *)
theory Session
  imports ProxyServer
begin

text \<open>
  A session of the front door as a whole (\<open>handle\<close> of \<open>internal/proxy/server.go\<close>): which destination
  a client asks for, by either protocol, which single address is dialled for it, and that nothing
  else in the network can influence what the client gets.
\<close>

section \<open>What a client asks for and what is dialled for it\<close>

definition requested_target :: "request_reader \<Rightarrow> conn \<Rightarrow> (string \<times> int) option" where
  "requested_target read_request client =
     (case c_in client of
        [] \<Rightarrow> None
      | first # _ \<Rightarrow>
          if first = socksVersion then
            (case readSocksRequest client of
               (Inl _, _) \<Rightarrow> None
             | (Inr (host, port), _) \<Rightarrow> Some (host, int port))
          else if 65 \<le> first \<and> first \<le> 90 then
            (case read_request (c_in client) of
               None \<Rightarrow> None
             | Some (meth, req_host, _) \<Rightarrow> if meth = ''CONNECT'' then connect_target req_host else None)
          else None)"

definition dialled :: "(string \<Rightarrow> decision) \<Rightarrow> string \<Rightarrow> int \<Rightarrow> string" where
  "dialled decide host port =
     (if d_Upstream (decide host) = [] then join_host_port host (itoa port) else d_Upstream (decide host))"

lemma dial_dialled:
  "fst (dial decide tcp host port) = dialled decide host port"
  "tcp (dialled decide host port) = tcp' (dialled decide host port) \<Longrightarrow>
    dial decide tcp host port = dial decide tcp' host port"
  by (simp_all add: dial_def dialled_def Let_def split: if_splits)

text \<open>A refused dial is an error of \<open>dial\<close>, whatever the reason.\<close>

lemma dial_refused: "tcp (dialled decide host port) = Inl e \<Longrightarrow> \<not> ok (snd (dial decide tcp host port))"
  by (auto simp: dial_def dialled_def Let_def split: if_splits)

lemma requested_socks:
  assumes "c_in client = socksVersion # rest" "readSocksRequest client = (Inr (host, port), client')"
  shows "requested_target rr client = Some (host, int port)"
  using assms by (simp add: requested_target_def)

lemma handle_depends:
  assumes "\<And>host port. requested_target rr client = Some (host, port) \<Longrightarrow>
      tcp (dialled decide host port) = tcp' (dialled decide host port)"
  shows "handle rr err_text decide tcp closed client = handle rr err_text decide tcp' closed client"
proof (cases "c_in client")
  case (Cons first rest)
  consider (socks) "first = socksVersion" | (http) "first \<noteq> socksVersion" "65 \<le> first" "first \<le> 90"
    | (other) "first \<noteq> socksVersion" "\<not> (65 \<le> first \<and> first \<le> 90)" by blast
  then show ?thesis
  proof cases
    case socks
    have "handleSocks decide tcp closed client = handleSocks decide tcp' closed client"
    proof (cases "readSocksRequest client")
      case (Pair res client')
      show ?thesis
      proof (cases res)
        case (Inr hp)
        then obtain host port where hp: "readSocksRequest client = (Inr (host, port), client')"
          using Pair by (cases hp) simp
        then have "requested_target rr client = Some (host, int port)"
          using Cons socks by (intro requested_socks) simp_all
        from dial_dialled(2) [where tcp = tcp and tcp' = tcp' and decide = decide, OF assms [OF this]] show ?thesis by (simp add: handleSocks_def hp)
      qed (simp add: handleSocks_def Pair)
    qed
    then show ?thesis using Cons socks by (simp add: handle_def)
  next
    case http
    have "handleHTTP rr err_text decide tcp closed client = handleHTTP rr err_text decide tcp' closed client"
    proof (cases "rr (c_in client)")
      case (Some req)
      obtain meth rh rest' where req: "req = (meth, rh, rest')" by (cases req)
      show ?thesis
      proof (cases "meth = ''CONNECT'' \<and> connect_target rh \<noteq> None")
        case True
        then obtain host port where t: "connect_target rh = Some (host, port)" by auto
        with True have "requested_target rr client = Some (host, port)"
          using Cons http Some req by (simp add: requested_target_def)
        from dial_dialled(2) [where tcp = tcp and tcp' = tcp' and decide = decide, OF assms [OF this]] show ?thesis
          using Some req t by (simp add: handleHTTP_def Let_def)
      qed (use Some req in \<open>auto simp: handleHTTP_def Let_def split: option.split\<close>)
    qed (simp add: handleHTTP_def)
    then show ?thesis using Cons http by (simp add: handle_def)
  next
    case other
    then show ?thesis using Cons by (auto simp: handle_def)
  qed
qed (simp add: handle_def)

text \<open>No relay without a connection to the dialled address.\<close>

lemma handle_refused:
  assumes "requested_target rr client = Some (host, port)" "tcp (dialled decide host port) = Inl e"
  shows "\<exists>c. handle rr err_text decide tcp closed client = Closed c"
proof -
  obtain err where err: "snd (dial decide tcp host port) = Inl err"
    using dial_refused [where tcp = tcp and decide = decide, OF assms(2)] by (cases "snd (dial decide tcp host port)") auto
  from assms(1) obtain first rest where c: "c_in client = first # rest"
    by (cases "c_in client") (auto simp: requested_target_def)
  show ?thesis
  proof (cases "first = socksVersion")
    case True
    with assms(1) c obtain p client' where "readSocksRequest client = (Inr (host, p), client')" "port = int p"
      by (auto simp: requested_target_def split: prod.splits sum.splits)
    with True c err show ?thesis by (simp add: handle_def handleSocks_def)
  next
    case False
    with assms(1) c obtain rh rest' where "65 \<le> first" "first \<le> 90" "rr (c_in client) = Some (''CONNECT'', rh, rest')"
      "connect_target rh = Some (host, port)"
      by (auto simp: requested_target_def split: if_splits option.splits)
    with False c err show ?thesis by (simp add: handle_def handleHTTP_def Let_def)
  qed
qed

section \<open>Properties\<close>

text \<open>
  Claim C19. One address per session. Whatever bytes a client sends, over SOCKS5 or HTTP CONNECT, its
  session depends on the network at one address only: the one dialled for the destination it asks
  for; a client that asks for none depends on no address. If that address cannot be reached, the
  client's connection is closed and nothing is relayed.
\<close>

theorem session_dials_one_address:
  assumes "\<forall>host port. requested_target rr client = Some (host, port) \<longrightarrow>
      tcp (dialled decide host port) = tcp' (dialled decide host port)"
  shows "handle rr err_text decide tcp closed client = handle rr err_text decide tcp' closed client \<and>
    (\<forall>host port e. requested_target rr client = Some (host, port) \<longrightarrow> tcp (dialled decide host port) = Inl e \<longrightarrow>
       (\<exists>c. handle rr err_text decide tcp closed client = Closed c))"
  using handle_depends [of rr client tcp decide tcp'] handle_refused [of rr client _ _ tcp decide] assms by blast

definition direct_only :: "string \<Rightarrow> decision" where
  "direct_only h = \<lparr>d_Route = [], d_Upstream = []\<rparr>"

definition wiki_client :: conn where
  "wiki_client = \<lparr>c_in = [5, 1, 0] @ wiki_request, c_out = [], c_room = 50\<rparr>"

lemma wiki_client_target: "requested_target rr wiki_client = Some (''wiki.lan'', 443)"
proof -
  have req: "connect_request ''wiki.lan'' 443 = Inr wiki_request"
    by (simp add: connect_request_def parse_addr_example_host wiki_request_def)
  have "readSocksRequest wiki_client = (Inr (''wiki.lan'', nat 443), \<lparr>c_in = [], c_out = [5, 0], c_room = 48\<rparr>)"
    using readSocksRequest_roundtrip [OF req, of 50 "[]" "[]"]
    by (simp add: wiki_client_def wire_host_def parse_addr_example_host)
  then show ?thesis using requested_socks [of wiki_client "[1, 0] @ wiki_request"] by (simp add: wiki_client_def)
qed

theorem session_dials_one_address_witness:
  "handle (\<lambda>_. None) (\<lambda>_. []) direct_only
      (\<lambda>a. if a = ''wiki.lan:443'' then Inl ConnRefused else Inr \<lparr>c_in = [], c_out = [], c_room = 0\<rparr>) False wiki_client =
    handle (\<lambda>_. None) (\<lambda>_. []) direct_only (\<lambda>_. Inl ConnRefused) False wiki_client \<and>
   (\<exists>c. handle (\<lambda>_. None) (\<lambda>_. []) direct_only (\<lambda>_. Inl ConnRefused) False wiki_client = Closed c)"
proof -
  have d: "dialled direct_only ''wiki.lan'' 443 = ''wiki.lan:443''"
    by (simp add: dialled_def direct_only_def join_host_port_def itoa_def digits10.simps digit_char_def
        code_eq_iff [symmetric])
  from session_dials_one_address [of "\<lambda>_. None" wiki_client
      "\<lambda>a. if a = ''wiki.lan:443'' then Inl ConnRefused else Inr \<lparr>c_in = [], c_out = [], c_room = 0\<rparr>"
      direct_only "\<lambda>_. Inl ConnRefused" "\<lambda>_. []" False]
  show ?thesis by (simp add: wiki_client_target d) metis
qed

end
