(* ===== verification/Relay.thy ===== *)
theory Relay
  imports ProxyServer
begin

text \<open>
  \<open>relay\<close> and \<open>closeWrite\<close> of \<open>internal/proxy/server.go\<close> as they run: two goroutines, each an
  \<open>io.Copy\<close> in chunks followed by a half-close, interleaved with each other and with two peers that
  send when they like. The function \<open>relay\<close> of \<open>ProxyServer\<close>, which a session uses, is shown to be
  what every interleaving computes.
\<close>

section \<open>One direction\<close>

text \<open>
  What the source has sent so far and whether it has finished; how much of it has been copied;
  the connection it is written to, and how many bytes that takes at the moment without blocking;
  where the goroutine is; whether the copy has failed.

  A \<open>Write\<close> blocks while the socket buffers of the destination are full: a chunk is copied only as
  far as there is room, and only the peer at the other end makes room, by reading. (A chunk of
  \<open>io.Copy\<close> that is written in parts is several chunks here.) A connection that is broken takes no
  more, and a write to it fails at once.
\<close>

datatype copy_state = Copying | CopyDone | WriteClosed

record pipe =
  pi_sent :: "byte list"
  pi_fin :: bool
  pi_read :: nat
  pi_dst :: conn
  pi_space :: nat
  pi_state :: copy_state
  pi_failed :: bool

definition new_pipe :: "conn \<Rightarrow> pipe" where
  "new_pipe dst = \<lparr>pi_sent = [], pi_fin = False, pi_read = 0, pi_dst = dst, pi_space = 0, pi_state = Copying, pi_failed = False\<rparr>"

datatype pipe_event =
    SourceSends "byte list"
  | SourceFins
  | DestinationReads nat
  | CopyChunk nat
  | CopyEOF
  | ReadFails
  | CloseWrite

text \<open>\<open>ReadFails\<close>: a read or a blocked write returns an error, as when the connections are closed.\<close>

fun pipe_step :: "pipe_event \<Rightarrow> pipe \<Rightarrow> pipe option" where
  "pipe_step (SourceSends bs) p = (if pi_fin p then None else Some (p\<lparr>pi_sent := pi_sent p @ bs\<rparr>))"
| "pipe_step SourceFins p = (if pi_fin p then None else Some (p\<lparr>pi_fin := True\<rparr>))"
| "pipe_step (DestinationReads n) p = (if 0 < n then Some (p\<lparr>pi_space := pi_space p + n\<rparr>) else None)"
| "pipe_step (CopyChunk n) p =
     (if pi_state p = Copying \<and> 0 < n \<and> pi_read p + n \<le> length (pi_sent p) \<and>
         min n (c_room (pi_dst p)) \<le> pi_space p then
        (case write_all (take n (drop (pi_read p) (pi_sent p))) (pi_dst p) of
           (res, dst) \<Rightarrow> Some (p\<lparr>pi_read := pi_read p + n, pi_dst := dst,
             pi_space := pi_space p - min n (c_room (pi_dst p)),
             pi_state := (if ok res then Copying else CopyDone)\<rparr>))
      else None)"
| "pipe_step CopyEOF p =
     (if pi_state p = Copying \<and> pi_fin p \<and> pi_read p = length (pi_sent p)
      then Some (p\<lparr>pi_state := CopyDone\<rparr>) else None)"
| "pipe_step ReadFails p =
     (if pi_state p = Copying then Some (p\<lparr>pi_state := CopyDone, pi_failed := True\<rparr>) else None)"
| "pipe_step CloseWrite p =
     (if pi_state p = CopyDone then Some (p\<lparr>pi_state := WriteClosed\<rparr>) else None)"

section \<open>Both directions\<close>

text \<open>
  \<open>closeWrite\<close> closes the write half of a connection that can do that; any other connection it
  closes altogether, and then the copy in the other direction cannot read from it any more.
\<close>

record relay_state =
  rl_up :: pipe
  rl_down :: pipe
  rl_half_up :: bool
  rl_half_client :: bool

definition new_relay :: "bool \<Rightarrow> bool \<Rightarrow> conn \<Rightarrow> conn \<Rightarrow> relay_state" where
  "new_relay half_client half_up client upstream =
     \<lparr>rl_up = new_pipe upstream, rl_down = new_pipe client, rl_half_up = half_up, rl_half_client = half_client\<rparr>"

definition cut_source :: "pipe \<Rightarrow> pipe" where
  "cut_source p = (if pi_state p = Copying then p\<lparr>pi_state := CopyDone, pi_failed := True\<rparr> else p)"

datatype relay_event = Up pipe_event | Down pipe_event

fun relay_step :: "relay_event \<Rightarrow> relay_state \<Rightarrow> relay_state option" where
  "relay_step (Up e) s =
     (case pipe_step e (rl_up s) of
        None \<Rightarrow> None
      | Some p \<Rightarrow> Some (s\<lparr>rl_up := p,
          rl_down := (if e = CloseWrite \<and> \<not> rl_half_up s then cut_source (rl_down s) else rl_down s)\<rparr>))"
| "relay_step (Down e) s =
     (case pipe_step e (rl_down s) of
        None \<Rightarrow> None
      | Some p \<Rightarrow> Some (s\<lparr>rl_down := p,
          rl_up := (if e = CloseWrite \<and> \<not> rl_half_client s then cut_source (rl_up s) else rl_up s)\<rparr>))"

fun relay_run :: "relay_event list \<Rightarrow> relay_state \<Rightarrow> relay_state option" where
  "relay_run [] s = Some s"
| "relay_run (e # es) s = (case relay_step e s of None \<Rightarrow> None | Some s' \<Rightarrow> relay_run es s')"

text \<open>\<open>wg.Wait()\<close> returns.\<close>

definition relay_done :: "relay_state \<Rightarrow> bool" where
  "relay_done s \<longleftrightarrow> pi_state (rl_up s) = WriteClosed \<and> pi_state (rl_down s) = WriteClosed"

section \<open>The invariant of a direction\<close>

text \<open>
  The destination (\<open>d0\<close> at the start) has been written exactly what has been read; the copy ends
  only at the end of the source, after a failed read, or when the destination takes no more.
\<close>

definition pipe_inv :: "conn \<Rightarrow> pipe \<Rightarrow> bool" where
  "pipe_inv d0 p \<longleftrightarrow>
     pi_read p \<le> length (pi_sent p) \<and> pi_dst p = write_ignore (take (pi_read p) (pi_sent p)) d0 \<and>
     (pi_state p = Copying \<longrightarrow> pi_read p \<le> c_room d0) \<and>
     (pi_state p \<noteq> Copying \<longrightarrow>
        pi_failed p \<or> pi_fin p \<and> pi_read p = length (pi_sent p) \<or> c_room d0 < pi_read p)"

lemma write_ignore_append: "write_ignore (a @ b) c = write_ignore b (write_ignore a c)"
  by (simp add: write_ignore_def write_all_def)

lemma write_ignore_full: "c_room c \<le> length a \<Longrightarrow> write_ignore (a @ b) c = write_ignore a c"
  by (auto simp: write_ignore_def write_all_def)

lemma pipe_step_inv:
  assumes "pipe_step e p = Some p'" "pipe_inv d0 p"
  shows "pipe_inv d0 p'"
proof (cases e)
  case (CopyChunk n)
  let ?bs = "take n (drop (pi_read p) (pi_sent p))"
  from CopyChunk assms(1) have p: "pi_state p = Copying" "0 < n" "pi_read p + n \<le> length (pi_sent p)"
    and p': "p' = p\<lparr>pi_read := pi_read p + n, pi_dst := snd (write_all ?bs (pi_dst p)),
        pi_space := pi_space p - min n (c_room (pi_dst p)),
        pi_state := (if ok (fst (write_all ?bs (pi_dst p))) then Copying else CopyDone)\<rparr>"
    by (auto split: if_splits prod.splits)
  have dst: "pi_dst p = write_ignore (take (pi_read p) (pi_sent p)) d0" and room: "pi_read p \<le> c_room d0"
    using assms(2) p(1) by (simp_all add: pipe_inv_def)
  have "c_room (pi_dst p) = c_room d0 - pi_read p"
    using dst room p(3) by (simp add: write_ignore_fits)
  then have "ok (fst (write_all ?bs (pi_dst p))) \<longleftrightarrow> pi_read p + n \<le> c_room d0"
    using p(3) room by (auto simp: write_all_def)
  moreover have "take (pi_read p + n) (pi_sent p) = take (pi_read p) (pi_sent p) @ ?bs" by (rule take_add)
  then have "snd (write_all ?bs (pi_dst p)) = write_ignore (take (pi_read p + n) (pi_sent p)) d0"
    unfolding dst by (simp only: write_ignore_append write_ignore_def [of ?bs])
  ultimately show ?thesis using p by (simp add: p' pipe_inv_def)
qed (use assms in \<open>auto simp: pipe_inv_def split: if_splits\<close>)

lemma cut_source_inv: "pipe_inv d0 p \<Longrightarrow> pipe_inv d0 (cut_source p)"
  by (auto simp: cut_source_def pipe_inv_def)

lemma new_pipe_inv: "pipe_inv d0 (new_pipe d0)"
  by (simp add: pipe_inv_def new_pipe_def write_ignore_def write_all_def)

lemma relay_run_inv:
  "relay_run es s = Some s' \<Longrightarrow> pipe_inv u0 (rl_up s) \<Longrightarrow> pipe_inv c0 (rl_down s) \<Longrightarrow>
    pipe_inv u0 (rl_up s') \<and> pipe_inv c0 (rl_down s')"
proof (induction es s rule: relay_run.induct)
  case (2 e es s)
  then obtain s1 where s1: "relay_step e s = Some s1" "relay_run es s1 = Some s'" by (auto split: option.splits)
  have "pipe_inv u0 (rl_up s1) \<and> pipe_inv c0 (rl_down s1)"
    using s1(1) 2(3,4) by (cases e) (auto intro: pipe_step_inv cut_source_inv split: option.splits)
  with 2(1) s1 show ?case by blast
qed simp

text \<open>A direction that ended without a failed read has delivered all its source will ever send.\<close>

lemma pipe_delivered:
  assumes "pipe_inv d0 p" "pi_state p \<noteq> Copying" "\<not> pi_failed p"
  shows "pi_dst p = write_ignore (pi_sent p) d0"
proof (cases "c_room d0 < pi_read p")
  case True
  have "c_room d0 \<le> length (take (pi_read p) (pi_sent p))" using assms(1) True by (simp add: pipe_inv_def)
  from write_ignore_full [OF this, of "drop (pi_read p) (pi_sent p)"] assms(1) show ?thesis
    by (simp add: pipe_inv_def)
next
  case False
  with assms show ?thesis by (simp add: pipe_inv_def)
qed

section \<open>Termination\<close>

definition state_rank :: "copy_state \<Rightarrow> nat" where
  "state_rank st = (case st of Copying \<Rightarrow> 2 | CopyDone \<Rightarrow> 1 | WriteClosed \<Rightarrow> 0)"

definition pipe_measure :: "pipe \<Rightarrow> nat" where
  "pipe_measure p = (length (pi_sent p) - pi_read p) + state_rank (pi_state p)"

definition relay_measure :: "relay_state \<Rightarrow> nat" where
  "relay_measure s = pipe_measure (rl_up s) + pipe_measure (rl_down s)"

definition both_fin :: "relay_state \<Rightarrow> bool" where
  "both_fin s \<longleftrightarrow> pi_fin (rl_up s) \<and> pi_fin (rl_down s)"

text \<open>The events that the peers decide, and the steps of the two goroutines.\<close>

fun peer_event :: "pipe_event \<Rightarrow> bool" where
  "peer_event (SourceSends bs) = True"
| "peer_event SourceFins = True"
| "peer_event (DestinationReads n) = True"
| "peer_event ReadFails = True"
| "peer_event _ = False"

fun relay_pipe :: "relay_event \<Rightarrow> pipe_event" where
  "relay_pipe (Up e) = e"
| "relay_pipe (Down e) = e"

abbreviation own_steps :: "relay_event list \<Rightarrow> nat" where
  "own_steps es \<equiv> length (filter (\<lambda>e. \<not> peer_event (relay_pipe e)) es)"

text \<open>A copy that is blocked in a write: bytes to deliver, and no room for one of them.\<close>

definition blocked :: "pipe \<Rightarrow> bool" where
  "blocked p \<longleftrightarrow> pi_state p = Copying \<and> pi_read p < length (pi_sent p) \<and> pi_space p = 0 \<and> 0 < c_room (pi_dst p)"

lemma pipe_step_decreases:
  assumes "pipe_step e p = Some p'" "pi_fin p"
  shows "pipe_measure p' \<le> pipe_measure p" "\<not> peer_event e \<Longrightarrow> pipe_measure p' < pipe_measure p" "pi_fin p'"
  using assms by (cases e; auto simp: pipe_measure_def state_rank_def split: if_splits prod.splits)+

lemma cut_source_measure: "pipe_measure (cut_source p) \<le> pipe_measure p" "pi_fin (cut_source p) = pi_fin p"
  by (auto simp: cut_source_def pipe_measure_def state_rank_def)

lemma relay_step_decreases:
  assumes "relay_step e s = Some s'" "both_fin s"
  shows "own_steps [e] + relay_measure s' \<le> relay_measure s" "both_fin s'"
  using assms pipe_step_decreases [of _ "rl_up s"] pipe_step_decreases [of _ "rl_down s"]
    cut_source_measure [of "rl_up s"] cut_source_measure [of "rl_down s"]
  by (cases e; fastforce simp: relay_measure_def both_fin_def Suc_le_eq add_less_le_mono add_le_less_mono
      add_mono split: option.splits)+

lemma relay_run_bounded:
  "relay_run es s = Some s' \<Longrightarrow> both_fin s \<Longrightarrow> own_steps es + relay_measure s' \<le> relay_measure s \<and> both_fin s'"
proof (induction es s rule: relay_run.induct)
  case (2 e es s)
  then obtain s1 where s1: "relay_step e s = Some s1" "relay_run es s1 = Some s'" by (auto split: option.splits)
  from 2(1) [OF s1] relay_step_decreases [OF s1(1) 2(3)] s1(2) show ?case by (simp split: if_splits)
qed simp

lemma pipe_progress:
  assumes "pipe_inv d0 p" "pi_fin p" "pi_state p \<noteq> WriteClosed" "\<not> blocked p"
  obtains e p' where "\<not> peer_event e" "pipe_step e p = Some p'"
proof (cases "pi_state p")
  case Copying
  show thesis
  proof (cases "pi_read p = length (pi_sent p)")
    case True
    with Copying assms(2) that [of CopyEOF] show thesis by simp
  next
    case False
    with assms(1) have "pi_read p + 1 \<le> length (pi_sent p)" by (simp add: pipe_inv_def)
    moreover from this assms(4) Copying have "min 1 (c_room (pi_dst p)) \<le> pi_space p"
      by (auto simp: blocked_def min_def)
    ultimately show thesis using Copying that [of "CopyChunk 1"]
      by (cases "write_all (take 1 (drop (pi_read p) (pi_sent p))) (pi_dst p)") simp
  qed
next
  case CopyDone
  with that [of CloseWrite] show thesis by simp
qed (use assms(3) in simp)

lemma relay_progress:
  assumes "pipe_inv u0 (rl_up s)" "pipe_inv c0 (rl_down s)"
  shows "pi_fin (rl_up s) \<Longrightarrow> pi_state (rl_up s) \<noteq> WriteClosed \<Longrightarrow> \<not> blocked (rl_up s) \<Longrightarrow>
      \<exists>e s'. \<not> peer_event e \<and> relay_step (Up e) s = Some s'"
    and "pi_fin (rl_down s) \<Longrightarrow> pi_state (rl_down s) \<noteq> WriteClosed \<Longrightarrow> \<not> blocked (rl_down s) \<Longrightarrow>
      \<exists>e s'. \<not> peer_event e \<and> relay_step (Down e) s = Some s'"
proof -
  have up: "\<exists>s'. relay_step (Up e) s = Some s'" if "pipe_step e (rl_up s) = Some p" for e p
    using that by simp
  have down: "\<exists>s'. relay_step (Down e) s = Some s'" if "pipe_step e (rl_down s) = Some p" for e p
    using that by simp
  show "\<exists>e s'. \<not> peer_event e \<and> relay_step (Up e) s = Some s'"
    if "pi_fin (rl_up s)" "pi_state (rl_up s) \<noteq> WriteClosed" "\<not> blocked (rl_up s)"
    using pipe_progress [OF assms(1) that] up by metis
  show "\<exists>e s'. \<not> peer_event e \<and> relay_step (Down e) s = Some s'"
    if "pi_fin (rl_down s)" "pi_state (rl_down s) \<noteq> WriteClosed" "\<not> blocked (rl_down s)"
    using pipe_progress [OF assms(2) that] down by metis
qed

text \<open>Closing both connections fails both copies, and each goroutine then ends by itself.\<close>

definition close_both :: "relay_state \<Rightarrow> relay_event list" where
  "close_both s =
     (if pi_state (rl_up s) = Copying then [Up ReadFails] else []) @
     (if pi_state (rl_down s) = Copying then [Down ReadFails] else [])"

lemma closed_relay_ends:
  "\<exists>s1 es s2. relay_run (close_both s) s = Some s1 \<and> own_steps es \<le> 2 \<and> list_all (\<lambda>e. \<not> peer_event (relay_pipe e)) es \<and>
     relay_run es s1 = Some s2 \<and> relay_done s2"
proof -
  let ?s1 = "s\<lparr>rl_up := cut_source (rl_up s), rl_down := cut_source (rl_down s)\<rparr>"
  let ?es = "(if pi_state (rl_up s) = WriteClosed then [] else [Up CloseWrite]) @
    (if pi_state (rl_down s) = WriteClosed then [] else [Down CloseWrite])"
  have "relay_run (close_both s) s = Some ?s1"
    by (cases "pi_state (rl_up s)"; cases "pi_state (rl_down s)") (simp_all add: close_both_def cut_source_def)
  moreover have "\<exists>s2. relay_run ?es ?s1 = Some s2 \<and> relay_done s2"
    by (cases "pi_state (rl_up s)"; cases "pi_state (rl_down s)") (auto simp: cut_source_def relay_done_def)
  moreover have "own_steps ?es \<le> 2" "list_all (\<lambda>e. \<not> peer_event (relay_pipe e)) ?es" by simp_all
  ultimately show ?thesis by blast
qed

lemma no_failure:
  "relay_run es s = Some s' \<Longrightarrow> Up ReadFails \<notin> set es \<Longrightarrow> Down ReadFails \<notin> set es \<Longrightarrow>
    rl_half_up s \<Longrightarrow> rl_half_client s \<Longrightarrow> \<not> pi_failed (rl_up s) \<Longrightarrow> \<not> pi_failed (rl_down s) \<Longrightarrow>
    \<not> pi_failed (rl_up s') \<and> \<not> pi_failed (rl_down s')"
proof (induction es s rule: relay_run.induct)
  case (2 e es s)
  then obtain s1 where s1: "relay_step e s = Some s1" "relay_run es s1 = Some s'" by (auto split: option.splits)
  have ok: "\<not> pi_failed p'" if "pipe_step a p = Some p'" "a \<noteq> ReadFails" "\<not> pi_failed p" for a p p'
    using that by (cases a) (auto split: if_splits prod.splits)
  have "\<not> pi_failed (rl_up s1) \<and> \<not> pi_failed (rl_down s1) \<and> rl_half_up s1 \<and> rl_half_client s1"
  proof (cases e)
    case (Up a)
    with s1(1) 2(3-8) ok [of a "rl_up s"] show ?thesis by (auto split: option.splits)
  next
    case (Down a)
    with s1(1) 2(3-8) ok [of a "rl_down s"] show ?thesis by (auto split: option.splits)
  qed
  with 2(1) [OF s1] s1(2) 2(3,4) show ?case by simp
qed simp

lemma write_ignore_in: "write_ignore bs (c\<lparr>c_in := x\<rparr>) = (write_ignore bs c)\<lparr>c_in := x\<rparr>"
  by (simp add: write_ignore_def write_all_def)

section \<open>Properties\<close>

text \<open>
  Claim C11. Every interleaving relays the same bytes. However the two goroutines are scheduled, in
  whatever chunks they copy, and whenever the peers send and finish, once both have finished without
  a failed read, each peer has been sent exactly what the function \<open>relay\<close> of a session computes
  from what the other has sent: all of it, in order, as far as the peer takes it.
\<close>

theorem relay_interleavings_agree:
  assumes "relay_run es (new_relay True True client upstream) = Some s" "relay_done s"
    and "Up ReadFails \<notin> set es" "Down ReadFails \<notin> set es"
  shows "Relayed ((pi_dst (rl_down s))\<lparr>c_in := []\<rparr>) ((pi_dst (rl_up s))\<lparr>c_in := []\<rparr>) =
    relay (client\<lparr>c_in := pi_sent (rl_up s)\<rparr>) (upstream\<lparr>c_in := pi_sent (rl_down s)\<rparr>)"
proof -
  have inv: "pipe_inv upstream (rl_up s)" "pipe_inv client (rl_down s)"
    using relay_run_inv [OF assms(1), of upstream client] by (simp_all add: new_relay_def new_pipe_inv)
  have ok: "\<not> pi_failed (rl_up s)" "\<not> pi_failed (rl_down s)"
    using no_failure [OF assms(1,3,4)] by (simp_all add: new_relay_def new_pipe_def)
  have "pi_dst (rl_up s) = write_ignore (pi_sent (rl_up s)) upstream"
    "pi_dst (rl_down s) = write_ignore (pi_sent (rl_down s)) client"
    using pipe_delivered [OF inv(1)] pipe_delivered [OF inv(2)] ok assms(2) by (simp_all add: relay_done_def)
  then show ?thesis by (simp add: relay_def copy_to_def write_ignore_in)
qed

definition small_conn :: conn where
  "small_conn = \<lparr>c_in = [], c_out = [], c_room = 9\<rparr>"

definition relay_example :: "relay_event list" where
  "relay_example = [Up (SourceSends [1, 2, 3]), Up (DestinationReads 2), Up (CopyChunk 2), Down (DestinationReads 8),
     Down (SourceSends [9]), Down SourceFins, Down (CopyChunk 1), Up SourceFins, Down CopyEOF, Up (DestinationReads 1),
     Up (CopyChunk 1), Down CloseWrite, Up CopyEOF, Up CloseWrite]"

lemma relay_example_run:
  "\<exists>s. relay_run relay_example (new_relay True True small_conn small_conn) = Some s \<and> relay_done s \<and>
     pi_sent (rl_up s) = [1, 2, 3] \<and> pi_sent (rl_down s) = [9]"
  by (simp add: relay_example_def new_relay_def new_pipe_def small_conn_def write_all_def relay_done_def)

theorem relay_interleavings_agree_witness:
  "\<exists>s. relay_run relay_example (new_relay True True small_conn small_conn) = Some s \<and>
     Relayed ((pi_dst (rl_down s))\<lparr>c_in := []\<rparr>) ((pi_dst (rl_up s))\<lparr>c_in := []\<rparr>) =
     relay (small_conn\<lparr>c_in := [1, 2, 3]\<rparr>) (small_conn\<lparr>c_in := [9]\<rparr>)"
proof -
  from relay_example_run obtain s where s: "relay_run relay_example (new_relay True True small_conn small_conn) = Some s"
    "relay_done s" "pi_sent (rl_up s) = [1, 2, 3]" "pi_sent (rl_down s) = [9]" by blast
  from relay_interleavings_agree [OF s(1,2)] s show ?thesis by (simp add: relay_example_def)
qed

text \<open>
  Claim C20. The relay ends as its peers let it, and at once when it is closed. A direction whose
  source has finished and that is not blocked by its destination can take a step of its own, whatever
  the other direction waits for. Once both sources have finished, at most as many steps of its own
  remain as bytes are under way, and four more; and when none is possible, the relay is done, or it
  waits in a write for a destination that does not read (no deadline ends that wait). Closing both
  connections, as \<open>Shutdown\<close> does, ends it from any state within two more steps of its own.
\<close>

theorem relay_terminates:
  assumes "relay_run es (new_relay half_client half_up client upstream) = Some s"
  shows "(pi_fin (rl_up s) \<and> pi_state (rl_up s) \<noteq> WriteClosed \<and> \<not> blocked (rl_up s) \<longrightarrow>
      (\<exists>e s'. \<not> peer_event e \<and> relay_step (Up e) s = Some s')) \<and>
    (pi_fin (rl_down s) \<and> pi_state (rl_down s) \<noteq> WriteClosed \<and> \<not> blocked (rl_down s) \<longrightarrow>
      (\<exists>e s'. \<not> peer_event e \<and> relay_step (Down e) s = Some s')) \<and>
    (\<forall>es' s'. both_fin s \<and> relay_run es' s = Some s' \<longrightarrow>
      own_steps es' \<le> (length (pi_sent (rl_up s)) - pi_read (rl_up s)) +
        (length (pi_sent (rl_down s)) - pi_read (rl_down s)) + 4 \<and>
      ((\<forall>e. \<not> peer_event (relay_pipe e) \<longrightarrow> relay_step e s' = None) \<longrightarrow>
        relay_done s' \<or> blocked (rl_up s') \<or> blocked (rl_down s'))) \<and>
    (\<exists>s1 es' s2. relay_run (close_both s) s = Some s1 \<and> own_steps es' \<le> 2 \<and>
      list_all (\<lambda>e. \<not> peer_event (relay_pipe e)) es' \<and> relay_run es' s1 = Some s2 \<and> relay_done s2)"
proof -
  have inv: "pipe_inv upstream (rl_up s)" "pipe_inv client (rl_down s)"
    using relay_run_inv [OF assms, of upstream client] by (simp_all add: new_relay_def new_pipe_inv)
  have rank: "state_rank st \<le> 2" for st by (cases st) (simp_all add: state_rank_def)
  have bound: "own_steps es' \<le> (length (pi_sent (rl_up s)) - pi_read (rl_up s)) +
      (length (pi_sent (rl_down s)) - pi_read (rl_down s)) + 4"
    if "both_fin s" "relay_run es' s = Some s'" for es' s'
    using relay_run_bounded [OF that(2,1)] rank [of "pi_state (rl_up s)"] rank [of "pi_state (rl_down s)"]
    by (simp add: relay_measure_def pipe_measure_def)
  have stuck: "relay_done s' \<or> blocked (rl_up s') \<or> blocked (rl_down s')"
    if "both_fin s" "relay_run es' s = Some s'" "\<forall>e. \<not> peer_event (relay_pipe e) \<longrightarrow> relay_step e s' = None" for es' s'
  proof -
    have fin: "pi_fin (rl_up s')" "pi_fin (rl_down s')"
      using relay_run_bounded [OF that(2,1)] by (simp_all add: both_fin_def)
    have none: "relay_step (Up e) s' = None" "relay_step (Down e) s' = None" if "\<not> peer_event e" for e
      using \<open>\<forall>e. \<not> peer_event (relay_pipe e) \<longrightarrow> relay_step e s' = None\<close> that
      by (metis relay_pipe.simps(1), metis relay_pipe.simps(2))
    from relay_run_inv [OF that(2) inv] relay_progress [of upstream s' client] fin none show ?thesis
      unfolding relay_done_def by (metis option.distinct(1))
  qed
  from relay_progress [OF inv] bound stuck closed_relay_ends [of s] show ?thesis by blast
qed

text \<open>A client that has sent two bytes and finished, and a destination that has read one of them.\<close>

definition slow_events :: "relay_event list" where
  "slow_events = [Up (SourceSends [1, 2]), Up SourceFins, Down SourceFins, Up (DestinationReads 1)]"

lemma slow_run:
  "\<exists>s s'. relay_run slow_events (new_relay True True small_conn small_conn) = Some s \<and> both_fin s \<and>
     \<not> blocked (rl_up s) \<and> pi_state (rl_up s) \<noteq> WriteClosed \<and> length (pi_sent (rl_up s)) = 2 \<and>
     pi_read (rl_up s) = 0 \<and> pi_sent (rl_down s) = [] \<and> relay_run [Up (CopyChunk 1), Down CopyEOF] s = Some s' \<and>
     blocked (rl_up s')"
  by (simp add: slow_events_def new_relay_def new_pipe_def small_conn_def blocked_def both_fin_def write_all_def)

theorem relay_terminates_witness:
  "\<exists>s s'. relay_run slow_events (new_relay True True small_conn small_conn) = Some s \<and>
     (\<exists>e s1. \<not> peer_event e \<and> relay_step (Up e) s = Some s1) \<and>
     relay_run [Up (CopyChunk 1), Down CopyEOF] s = Some s' \<and> blocked (rl_up s') \<and>
     own_steps [Up (CopyChunk 1), Down CopyEOF] \<le> 2 + 4"
proof -
  from slow_run obtain s s' where s: "relay_run slow_events (new_relay True True small_conn small_conn) = Some s"
    "both_fin s" "\<not> blocked (rl_up s)" "pi_state (rl_up s) \<noteq> WriteClosed" "length (pi_sent (rl_up s)) = 2"
    "pi_read (rl_up s) = 0" "pi_sent (rl_down s) = []"
    and s': "relay_run [Up (CopyChunk 1), Down CopyEOF] s = Some s'" "blocked (rl_up s')" by blast
  note t = relay_terminates [OF s(1)]
  from t s(2-4) have "\<exists>e s1. \<not> peer_event e \<and> relay_step (Up e) s = Some s1" by (simp add: both_fin_def)
  with s(1) s' show ?thesis by (intro exI [of _ s] exI [of _ s']) simp
qed

end
