(* ===== verification/ServerLife.thy ===== *)
theory ServerLife
  imports ProxyServer
begin

text \<open>
  The goroutines of \<open>internal/proxy/server.go\<close> and the \<open>WaitGroup\<close> that \<open>Shutdown\<close> waits on:
  \<open>Start\<close>, the accept loop of \<open>serve\<close> statement by statement, the handlers it spawns with their
  deferred calls, and \<open>Shutdown\<close> up to its return. The connections are those of \<open>ProxyServer\<close>; every
  step here is a step of the connection bookkeeping there, or leaves it alone.
\<close>

section \<open>The state and its steps\<close>

text \<open>
  Where \<open>serve\<close> is: blocked in \<open>Accept\<close>, holding a connection that is not yet tracked, or holding one
  that is tracked while its handler is not yet started.
\<close>

datatype serve_phase = NotStarted | Accepting | Got nat | Tracked nat | Ended

datatype shutdown_phase = NotCalled | Waiting | Finished | TimedOut

record life =
  lf_server :: server
  lf_serve :: serve_phase
  lf_wg :: int
  lf_shut :: shutdown_phase

definition new_life :: life where
  "new_life = \<lparr>lf_server = NewServer, lf_serve = NotStarted, lf_wg = 0, lf_shut = NotCalled\<rparr>"

datatype life_event =
    Listen
  | AcceptConn nat
  | AcceptFails
  | AcceptClosed
  | TrackClient
  | SpawnHandler
  | HandlerRefuses nat
  | HandlerDials nat nat
  | HandlerTracks nat
  | RelayEnds nat
  | RelayUnblocked nat
  | HandlerReturns nat
  | CallShutdown
  | WaitReturns
  | WaitExpires

text \<open>
  A relay has no deadline: it ends when its peers are done (\<open>RelayEnds\<close>), or when both of its
  connections have been closed under it (\<open>RelayUnblocked\<close>; \<open>Relay\<close> shows that this ends it). Before the relay a handler waits under a deadline only
  (\<open>handshakeTimeout\<close>, \<open>dialTimeout\<close>), so that \<open>HandlerRefuses\<close> comes by itself.

  The phase of a handler whose goroutine runs:
\<close>

definition handler_phase :: "life \<Rightarrow> nat \<Rightarrow> hphase option" where
  "handler_phase l c = (if lf_serve l = Tracked c then None else sv_handlers (lf_server l) c)"

fun life_step :: "life_event \<Rightarrow> life \<Rightarrow> life option" where
  "life_step Listen l =
     (if lf_serve l = NotStarted \<and> lf_shut l = NotCalled
      then Some (l\<lparr>lf_server := Start (lf_server l), lf_wg := lf_wg l + 1, lf_serve := Accepting\<rparr>) else None)"
| "life_step (AcceptConn c) l =
     (let s = lf_server l in
      if lf_serve l = Accepting \<and> sv_listening s \<and> fresh c s
      then Some (l\<lparr>lf_server := set_phase c (Some Accepted) (s\<lparr>sv_open := insert c (sv_open s)\<rparr>),
                   lf_serve := Got c\<rparr>) else None)"
| "life_step AcceptFails l =
     (if lf_serve l = Accepting \<and> sv_listening (lf_server l) then Some l else None)"
| "life_step AcceptClosed l =
     (if lf_serve l = Accepting \<and> \<not> sv_listening (lf_server l)
      then Some (l\<lparr>lf_serve := Ended, lf_wg := lf_wg l - 1\<rparr>) else None)"
| "life_step TrackClient l =
     (case lf_serve l of
        Got c \<Rightarrow>
          (let l' = l\<lparr>lf_server := serve_accepted c (lf_server l)\<rparr> in
           Some (if fst (track c (lf_server l)) then l'\<lparr>lf_serve := Tracked c\<rparr>
                 else l'\<lparr>lf_serve := Ended, lf_wg := lf_wg l - 1\<rparr>))
      | _ \<Rightarrow> None)"
| "life_step SpawnHandler l =
     (case lf_serve l of
        Tracked c \<Rightarrow> Some (l\<lparr>lf_wg := lf_wg l + 1, lf_serve := Accepting\<rparr>)
      | _ \<Rightarrow> None)"
| "life_step (HandlerRefuses c) l =
     (if handler_phase l c = Some Handling
      then Some (l\<lparr>lf_server := set_phase c (Some Closing) (lf_server l)\<rparr>) else None)"
| "life_step (HandlerDials c u) l =
     (let s = lf_server l in
      if handler_phase l c = Some Handling \<and> fresh u s \<and> u \<noteq> c
      then Some (l\<lparr>lf_server := set_phase c (Some (Dialed u)) (s\<lparr>sv_open := insert u (sv_open s)\<rparr>)\<rparr>)
      else None)"
| "life_step (HandlerTracks c) l =
     (case handler_phase l c of
        Some (Dialed u) \<Rightarrow> Some (l\<lparr>lf_server := track_upstream c u (lf_server l)\<rparr>)
      | _ \<Rightarrow> None)"
| "life_step (RelayEnds c) l =
     (case handler_phase l c of
        Some (Relaying u) \<Rightarrow> Some (l\<lparr>lf_server := set_phase c (Some Closing) (untrack u (lf_server l))\<rparr>)
      | _ \<Rightarrow> None)"
| "life_step (RelayUnblocked c) l =
     (case handler_phase l c of
        Some (Relaying u) \<Rightarrow>
          if c \<notin> sv_open (lf_server l) \<and> u \<notin> sv_open (lf_server l)
          then Some (l\<lparr>lf_server := set_phase c (Some Closing) (untrack u (lf_server l))\<rparr>) else None
      | _ \<Rightarrow> None)"
| "life_step (HandlerReturns c) l =
     (if handler_phase l c = Some Closing
      then Some (l\<lparr>lf_server := set_phase c None (untrack c (lf_server l)), lf_wg := lf_wg l - 1\<rparr>)
      else None)"
| "life_step CallShutdown l =
     (if lf_shut l = NotCalled
      then Some (l\<lparr>lf_server := Shutdown (lf_server l), lf_shut := Waiting\<rparr>) else None)"
| "life_step WaitReturns l =
     (if lf_shut l = Waiting \<and> lf_wg l = 0 then Some (l\<lparr>lf_shut := Finished\<rparr>) else None)"
| "life_step WaitExpires l =
     (if lf_shut l = Waiting then Some (l\<lparr>lf_shut := TimedOut\<rparr>) else None)"

text \<open>
  Events that are not up to the server: what its caller, the clients, the destinations and the expiry
  of the context decide.
\<close>

fun outside_event :: "life_event \<Rightarrow> bool" where
  "outside_event Listen = True"
| "outside_event (AcceptConn c) = True"
| "outside_event AcceptFails = True"
| "outside_event (HandlerDials c u) = True"
| "outside_event (RelayEnds c) = True"
| "outside_event CallShutdown = True"
| "outside_event WaitExpires = True"
| "outside_event _ = False"

fun life_run :: "life_event list \<Rightarrow> life \<Rightarrow> life option" where
  "life_run [] l = Some l"
| "life_run (e # es) l = (case life_step e l of None \<Rightarrow> None | Some l' \<Rightarrow> life_run es l')"

inductive life_reachable :: "life \<Rightarrow> bool" where
  init: "life_reachable new_life"
| step: "life_reachable l \<Longrightarrow> life_step e l = Some l' \<Longrightarrow> life_reachable l'"

section \<open>Every step is one of the connection bookkeeping\<close>

lemma handler_phase_Some: "handler_phase l c = Some ph \<Longrightarrow> sv_handlers (lf_server l) c = Some ph"
  by (simp add: handler_phase_def split: if_splits)

text \<open>The clients that \<open>serve\<close> itself still holds.\<close>

fun held :: "serve_phase \<Rightarrow> nat set" where
  "held (Got c) = {c}"
| "held (Tracked c) = {c}"
| "held _ = {}"

fun serve_alive :: "serve_phase \<Rightarrow> bool" where
  "serve_alive NotStarted = False"
| "serve_alive Ended = False"
| "serve_alive _ = True"

text \<open>What the \<open>WaitGroup\<close> counts: the accept loop and the handlers it has started.\<close>

definition counted :: "(nat \<rightharpoonup> hphase) \<Rightarrow> serve_phase \<Rightarrow> int" where
  "counted h ph = (if serve_alive ph then 1 else 0) + int (card (dom h - held ph))"

definition life_inv :: "life \<Rightarrow> bool" where
  "life_inv l \<longleftrightarrow>
     (let h = sv_handlers (lf_server l) in
      server_reachable (lf_server l) \<and> finite (dom h) \<and>
      (\<forall>c. h c = Some Accepted \<longleftrightarrow> lf_serve l = Got c) \<and>
      (\<forall>c. lf_serve l = Tracked c \<longrightarrow> h c = Some Handling) \<and>
      lf_wg l = counted h (lf_serve l) \<and>
      (sv_closed (lf_server l) \<longleftrightarrow> lf_shut l \<noteq> NotCalled) \<and>
      (lf_shut l = Finished \<longrightarrow> lf_wg l = 0))"

lemma life_step_server:
  assumes "life_step e l = Some l'" "life_inv l"
  shows "lf_server l' = lf_server l \<or> server_step (lf_server l) (lf_server l')"
proof (cases e)
  case Listen
  with assms show ?thesis by (auto simp: life_inv_def Let_def intro: server_step.start split: if_splits)
next
  case TrackClient
  with assms(1) obtain c where c: "lf_serve l = Got c" "lf_server l' = serve_accepted c (lf_server l)"
    by (auto simp: Let_def split: serve_phase.splits if_splits)
  then have "sv_handlers (lf_server l) c = Some Accepted" using assms(2) by (simp add: life_inv_def Let_def)
  then show ?thesis using c server_step.serve by metis
qed (use assms in \<open>auto simp: Let_def intro: server_step.intros
  dest!: handler_phase_Some split: if_splits serve_phase.splits option.splits hphase.splits\<close>)

lemma counted_upd: "h c \<noteq> None \<Longrightarrow> counted (h(c \<mapsto> p)) ph = counted h ph"
  by (simp add: counted_def dom_fun_upd insert_absorb domIff)

lemma counted_del:
  assumes "finite (dom h)" "h c \<noteq> None" "c \<notin> held ph"
  shows "counted (h(c := None)) ph = counted h ph - 1"
proof -
  have "card (dom h - held ph) = Suc (card (dom h - held ph - {c}))"
    using assms by (intro card.remove) (auto simp: domIff)
  moreover have "dom h - {c} - held ph = dom h - held ph - {c}" by auto
  ultimately show ?thesis by (simp add: counted_def dom_fun_upd)
qed

lemma counted_accept: "h c = None \<Longrightarrow> counted (h(c \<mapsto> p)) (Got c) = counted h Accepting"
  by (simp add: counted_def dom_fun_upd domIff)

lemma counted_reject: "counted (h(c := None)) Ended = counted h (Got c) - 1"
  by (simp add: counted_def dom_fun_upd)

lemma counted_track: "h c \<noteq> None \<Longrightarrow> counted (h(c \<mapsto> p)) (Tracked c) = counted h (Got c)"
  by (simp add: counted_def dom_fun_upd insert_absorb domIff)

lemma counted_spawn: "finite (dom h) \<Longrightarrow> h c \<noteq> None \<Longrightarrow> counted h Accepting = counted h (Tracked c) + 1"
  using card.remove [of "dom h" c] by (simp add: counted_def domIff)

lemma counted_serve: "counted h Accepting = counted h NotStarted + 1" "counted h Ended = counted h Accepting - 1"
  by (simp_all add: counted_def)

lemma counted_zero:
  assumes "counted h ph = 0" "finite (dom h)"
  shows "\<not> serve_alive ph" "h = (\<lambda>_. None)"
proof -
  show "\<not> serve_alive ph" using assms by (auto simp: counted_def split: if_splits)
  then have "held ph = {}" by (cases ph) auto
  with assms have "dom h = {}" by (auto simp: counted_def split: if_splits)
  then show "h = (\<lambda>_. None)" by simp
qed

lemma counted_nonneg: "0 \<le> counted h ph"
  by (simp add: counted_def)
lemma track_fst: "fst (track c s) \<longleftrightarrow> \<not> sv_closed s"
  by (simp add: track_def)

lemma serve_accepted_simps [simp]:
  "sv_handlers (serve_accepted c s) = (sv_handlers s)(c := (if sv_closed s then None else Some Handling))"
  "sv_closed (serve_accepted c s) = sv_closed s" "sv_listening (serve_accepted c s) = sv_listening s"
  by (simp_all add: server_ops)

lemma track_upstream_simps [simp]:
  "sv_handlers (track_upstream c u s) = (sv_handlers s)(c \<mapsto> (if sv_closed s then Closing else Relaying u))"
  "sv_closed (track_upstream c u s) = sv_closed s" "sv_listening (track_upstream c u s) = sv_listening s"
  by (simp_all add: server_ops)

lemma set_phase_simps [simp]:
  "sv_handlers (set_phase c ph s) = (sv_handlers s)(c := ph)" "sv_closed (set_phase c ph s) = sv_closed s"
  "sv_listening (set_phase c ph s) = sv_listening s"
  by (simp_all add: set_phase_def)

lemma untrack_simps [simp]:
  "sv_handlers (untrack c s) = sv_handlers s" "sv_closed (untrack c s) = sv_closed s"
  "sv_listening (untrack c s) = sv_listening s"
  by (simp_all add: untrack_def close_conn_def)

lemma Start_simps [simp]:
  "sv_handlers (Start s) = sv_handlers s" "sv_closed (Start s) = sv_closed s" "sv_listening (Start s)"
  by (simp_all add: Start_def)

lemma Shutdown_simps [simp]:
  "sv_handlers (Shutdown s) = sv_handlers s" "sv_closed (Shutdown s)" "\<not> sv_listening (Shutdown s)"
  by (simp_all add: Shutdown_def)

lemma life_invD:
  assumes "life_inv l"
  shows "server_reachable (lf_server l)" "finite (dom (sv_handlers (lf_server l)))"
    "sv_handlers (lf_server l) c = Some Accepted \<longleftrightarrow> lf_serve l = Got c"
    "lf_serve l = Tracked c \<Longrightarrow> sv_handlers (lf_server l) c = Some Handling"
    "lf_wg l = counted (sv_handlers (lf_server l)) (lf_serve l)"
    "sv_closed (lf_server l) \<longleftrightarrow> lf_shut l \<noteq> NotCalled" "lf_shut l = Finished \<Longrightarrow> lf_wg l = 0"
  using assms by (simp_all add: life_inv_def Let_def)

text \<open>A handler changes its phase.\<close>

lemma life_inv_handler:
  assumes inv: "life_inv l" and ph: "handler_phase l c = Some ph" "ph \<noteq> Accepted" "ph' \<noteq> Accepted"
    and s: "server_reachable s" "sv_handlers s = (sv_handlers (lf_server l))(c \<mapsto> ph')"
      "sv_closed s = sv_closed (lf_server l)" "sv_listening s = sv_listening (lf_server l)"
  shows "life_inv (l\<lparr>lf_server := s\<rparr>)"
proof -
  have c: "sv_handlers (lf_server l) c = Some ph" "lf_serve l \<noteq> Tracked c"
    using ph(1) by (auto simp: handler_phase_def split: if_splits)
  have "lf_serve l \<noteq> Got c" using life_invD(3) [OF inv, of c] c(1) ph(2) by auto
  with life_invD [OF inv] c ph(3) s counted_upd [of "sv_handlers (lf_server l)" c ph' "lf_serve l"] show ?thesis
    by (simp add: life_inv_def Let_def)
qed

lemma life_step_inv:
  assumes "life_step e l = Some l'" "life_inv l"
  shows "life_inv l'"
proof -
  let ?h = "sv_handlers (lf_server l)"
  have reach: "server_reachable (lf_server l')"
    using life_step_server [OF assms] assms(2) server_reachable.step by (auto simp: life_inv_def Let_def)
  note inv = assms(2) [unfolded life_inv_def Let_def]
  show ?thesis
  proof (cases e)
    case Listen
    with assms(1) inv reach show ?thesis
      by (auto simp: life_inv_def Let_def counted_serve split: if_splits)
  next
    case (AcceptConn c)
    with assms(1) have c: "lf_serve l = Accepting" "?h c = None"
      and l': "l' = l\<lparr>lf_server := set_phase c (Some Accepted) ((lf_server l)\<lparr>sv_open := insert c (sv_open (lf_server l))\<rparr>), lf_serve := Got c\<rparr>"
      by (auto simp: Let_def fresh_def split: if_splits)
    with inv reach show ?thesis by (auto simp: life_inv_def Let_def counted_accept)
  next
    case AcceptFails
    with assms show ?thesis by (auto split: if_splits)
  next
    case AcceptClosed
    with assms(1) inv reach show ?thesis
      using counted_nonneg [of ?h NotStarted] by (auto simp: life_inv_def Let_def counted_serve split: if_splits)
  next
    case TrackClient
    with assms(1) obtain c where c: "lf_serve l = Got c"
      by (auto split: serve_phase.splits)
    then have h: "?h c = Some Accepted" using inv by blast
    from TrackClient assms(1) c have l': "l' = (if sv_closed (lf_server l)
        then l\<lparr>lf_server := serve_accepted c (lf_server l), lf_serve := Ended, lf_wg := lf_wg l - 1\<rparr>
        else l\<lparr>lf_server := serve_accepted c (lf_server l), lf_serve := Tracked c\<rparr>)"
      by (auto simp: Let_def track_fst)
    show ?thesis
    proof (cases "sv_closed (lf_server l)")
      case True
      with inv reach c h l' show ?thesis
        using counted_reject [of ?h c] counted_nonneg [of "?h(c := None)" Ended]
        by (auto simp: life_inv_def Let_def)
    next
      case False
      have "counted (?h(c \<mapsto> Handling)) (Tracked c) = counted ?h (Got c)"
        using counted_track [of ?h c Handling] h by simp
      with False inv reach c l' show ?thesis by (auto simp: life_inv_def Let_def)
    qed
  next
    case SpawnHandler
    with assms(1) obtain c where c: "lf_serve l = Tracked c" "l' = l\<lparr>lf_wg := lf_wg l + 1, lf_serve := Accepting\<rparr>"
      by (auto split: serve_phase.splits)
    then have "?h c \<noteq> None" using inv by simp
    with c inv reach counted_spawn [of ?h c] show ?thesis by (auto simp: life_inv_def Let_def counted_def)
  next
    case (HandlerRefuses c)
    with assms reach show ?thesis
      by (auto split: if_splits intro!: life_inv_handler [where c = c and ph = Handling and ph' = Closing])
  next
    case (HandlerDials c u)
    with assms reach show ?thesis
      by (auto simp: Let_def split: if_splits intro!: life_inv_handler [where c = c and ph = Handling and ph' = "Dialed u"])
  next
    case (HandlerTracks c)
    with assms(1) obtain u where "handler_phase l c = Some (Dialed u)" "l' = l\<lparr>lf_server := track_upstream c u (lf_server l)\<rparr>"
      by (auto split: option.splits hphase.splits)
    with reach show ?thesis
      by (auto intro!: life_inv_handler [OF assms(2), where c = c and ph = "Dialed u"
            and ph' = "if sv_closed (lf_server l) then Closing else Relaying u"] split: if_splits)
  next
    case (RelayEnds c)
    with assms(1) obtain u where "handler_phase l c = Some (Relaying u)"
      "l' = l\<lparr>lf_server := set_phase c (Some Closing) (untrack u (lf_server l))\<rparr>"
      by (auto split: option.splits hphase.splits)
    with reach show ?thesis
      by (auto intro!: life_inv_handler [OF assms(2), where c = c and ph = "Relaying u" and ph' = Closing])
  next
    case (RelayUnblocked c)
    with assms(1) obtain u where "handler_phase l c = Some (Relaying u)"
      "l' = l\<lparr>lf_server := set_phase c (Some Closing) (untrack u (lf_server l))\<rparr>"
      by (auto split: option.splits hphase.splits if_splits)
    with reach show ?thesis
      by (auto intro!: life_inv_handler [OF assms(2), where c = c and ph = "Relaying u" and ph' = Closing])
  next
    case (HandlerReturns c)
    with assms(1) have c: "handler_phase l c = Some Closing"
      and l': "l' = l\<lparr>lf_server := set_phase c None (untrack c (lf_server l)), lf_wg := lf_wg l - 1\<rparr>"
      by (auto split: if_splits)
    have h: "?h c = Some Closing" "lf_serve l \<noteq> Tracked c"
      using c by (auto simp: handler_phase_def split: if_splits)
    then have got: "lf_serve l \<noteq> Got c" using life_invD(3) [OF assms(2), of c] by auto
    then have "c \<notin> held (lf_serve l)" using h by (cases "lf_serve l") auto
    with h inv reach l' got counted_del [of ?h c "lf_serve l"] counted_nonneg [of "?h(c := None)" "lf_serve l"]
    show ?thesis by (auto simp: life_inv_def Let_def)
  next
    case CallShutdown
    with assms(1) inv reach show ?thesis by (auto simp: life_inv_def Let_def split: if_splits)
  next
    case WaitReturns
    with assms(1) inv reach show ?thesis by (auto simp: life_inv_def Let_def split: if_splits)
  next
    case WaitExpires
    with assms(1) inv reach show ?thesis by (auto simp: life_inv_def Let_def split: if_splits)
  qed
qed

lemma life_reachable_inv: "life_reachable l \<Longrightarrow> life_inv l"
proof (induction rule: life_reachable.induct)
  case init
  show ?case by (simp add: life_inv_def new_life_def NewServer_def counted_def server_reachable.init [unfolded NewServer_def])
qed (rule life_step_inv)

section \<open>Shutdown ends\<close>

fun phase_rank :: "hphase \<Rightarrow> nat" where
  "phase_rank Accepted = 0"
| "phase_rank Handling = 3"
| "phase_rank (Dialed u) = 2"
| "phase_rank (Relaying u) = 2"
| "phase_rank Closing = 1"

fun serve_rank :: "serve_phase \<Rightarrow> nat" where
  "serve_rank (Tracked c) = 2"
| "serve_rank Accepting = 1"
| "serve_rank (Got c) = 1"
| "serve_rank _ = 0"

definition life_measure :: "life \<Rightarrow> nat" where
  "life_measure l =
     (\<Sum>c \<in> dom (sv_handlers (lf_server l)). phase_rank (the (sv_handlers (lf_server l) c))) +
     serve_rank (lf_serve l) + (if lf_shut l = Waiting then 1 else 0)"

lemma rank_upd:
  assumes "finite (dom h)" "h c = Some p"
  shows "(\<Sum>x \<in> dom (h(c \<mapsto> q)). phase_rank (the ((h(c \<mapsto> q)) x))) + phase_rank p =
    (\<Sum>x \<in> dom h. phase_rank (the (h x))) + phase_rank q"
proof -
  have "c \<in> dom h" using assms(2) by auto
  then have "dom (h(c \<mapsto> q)) = dom h" by auto
  moreover have "(\<Sum>x \<in> dom h. phase_rank (the ((h(c \<mapsto> q)) x))) =
      phase_rank q + (\<Sum>x \<in> dom h - {c}. phase_rank (the (h x)))"
    using sum.remove [OF assms(1) \<open>c \<in> dom h\<close>, of "\<lambda>x. phase_rank (the ((h(c \<mapsto> q)) x))"] by simp
  ultimately show ?thesis
    using sum.remove [OF assms(1) \<open>c \<in> dom h\<close>, of "\<lambda>x. phase_rank (the (h x))"] assms(2) by simp
qed

lemma rank_del:
  assumes "finite (dom h)" "h c = Some p"
  shows "(\<Sum>x \<in> dom (h(c := None)). phase_rank (the ((h(c := None)) x))) + phase_rank p =
    (\<Sum>x \<in> dom h. phase_rank (the (h x)))"
proof -
  have "c \<in> dom h" using assms(2) by auto
  moreover have "(\<Sum>x \<in> dom h - {c}. phase_rank (the ((h(c := None)) x))) = (\<Sum>x \<in> dom h - {c}. phase_rank (the (h x)))"
    by (rule sum.cong) auto
  ultimately show ?thesis
    using sum.remove [OF assms(1), of c "\<lambda>x. phase_rank (the (h x))"] assms(2) by (simp add: dom_fun_upd)
qed

lemma closed_not_listening: "life_inv l \<Longrightarrow> sv_closed (lf_server l) \<Longrightarrow> \<not> sv_listening (lf_server l)"
  using server_reachable_inv [OF life_invD(1)] by (simp add: server_inv_def)

lemma measure_upd:
  assumes "life_inv l" "handler_phase l c = Some p" "sv_handlers s = (sv_handlers (lf_server l))(c \<mapsto> q)"
    "phase_rank q < phase_rank p"
  shows "life_measure (l\<lparr>lf_server := s\<rparr>) < life_measure l"
  using rank_upd [OF life_invD(2) [OF assms(1)] handler_phase_Some [OF assms(2)], of q] assms(3,4)
  by (simp add: life_measure_def)

lemma closed_step_decreases:
  assumes "life_step e l = Some l'" "life_inv l" "sv_closed (lf_server l)"
  shows "life_measure l' < life_measure l \<and> sv_closed (lf_server l')"
proof (cases e)
  case TrackClient
  with assms(1) obtain c where c: "lf_serve l = Got c" by (auto split: serve_phase.splits)
  then have h: "sv_handlers (lf_server l) c = Some Accepted" using life_invD(3) [OF assms(2)] by blast
  from TrackClient assms(1,3) c
  have "l' = l\<lparr>lf_server := serve_accepted c (lf_server l), lf_serve := Ended, lf_wg := lf_wg l - 1\<rparr>"
    by (simp add: Let_def track_fst)
  then show ?thesis using c assms(3) rank_del [OF life_invD(2) [OF assms(2)] h] by (simp add: life_measure_def)
next
  case (HandlerRefuses c)
  with assms show ?thesis by (auto split: if_splits intro!: measure_upd)
next
  case (HandlerDials c u)
  with assms show ?thesis by (auto simp: Let_def split: if_splits intro!: measure_upd)
next
  case (HandlerTracks c)
  with assms show ?thesis by (auto split: option.splits hphase.splits intro!: measure_upd)
next
  case (RelayEnds c)
  with assms show ?thesis by (auto split: option.splits hphase.splits intro!: measure_upd)
next
  case (RelayUnblocked c)
  with assms show ?thesis by (auto split: option.splits hphase.splits if_splits intro!: measure_upd)
next
  case (HandlerReturns c)
  with assms rank_del [OF life_invD(2) [OF assms(2)] handler_phase_Some, of c Closing] show ?thesis
    by (auto simp: life_measure_def split: if_splits)
qed (use assms closed_not_listening [OF assms(2)] life_invD(6) [OF assms(2)] in
  \<open>auto simp: life_measure_def Let_def split: if_splits serve_phase.splits\<close>)

lemma closed_run_bounded:
  "life_run es l = Some l' \<Longrightarrow> life_inv l \<Longrightarrow> sv_closed (lf_server l) \<Longrightarrow> length es + life_measure l' \<le> life_measure l"
proof (induction es l rule: life_run.induct)
  case (2 e es l)
  then obtain l1 where l1: "life_step e l = Some l1" "life_run es l1 = Some l'" by (auto split: option.splits)
  from 2 l1 closed_step_decreases [OF l1(1) 2(3,4)] life_step_inv [OF l1(1) 2(3)] show ?case by fastforce
qed simp

text \<open>\<open>Shutdown\<close> has closed both ends of every relay.\<close>

lemma relay_unblocked:
  assumes "life_inv l" "lf_shut l = Waiting" "handler_phase l c = Some (Relaying u)"
  shows "life_step (RelayUnblocked c) l \<noteq> None"
proof -
  have inv: "server_inv (lf_server l)" by (rule server_reachable_inv [OF life_invD(1) [OF assms(1)]])
  then have ok: "handlers_ok (sv_conns (lf_server l)) (sv_handlers (lf_server l))" by (simp add: server_inv_def)
  have "c \<in> sv_conns (lf_server l)" "u \<in> sv_conns (lf_server l)"
    using handlers_okD(1,2) [OF ok handler_phase_Some [OF assms(3)]] by simp_all
  moreover have "sv_closed (lf_server l)" using life_invD(6) [OF assms(1)] assms(2) by simp
  ultimately have "c \<notin> sv_open (lf_server l)" "u \<notin> sv_open (lf_server l)" using inv by (auto simp: server_inv_def)
  with assms(3) show ?thesis by simp
qed

text \<open>What keeps \<open>Shutdown\<close> waiting can always take a step, without the help of any peer.\<close>

lemma waiting_progress:
  assumes "life_inv l" "lf_shut l = Waiting"
  obtains e where "\<not> outside_event e" "life_step e l \<noteq> None"
proof (cases "serve_alive (lf_serve l)")
  case True
  have "\<not> sv_listening (lf_server l)"
    using closed_not_listening [OF assms(1)] life_invD(6) [OF assms(1)] assms(2) by simp
  with True show thesis
    by (cases "lf_serve l") (use that [of AcceptClosed] that [of TrackClient] that [of SpawnHandler] in \<open>auto simp: Let_def\<close>)
next
  case False
  then have free: "handler_phase l c = sv_handlers (lf_server l) c" and notgot: "lf_serve l \<noteq> Got c" for c
    by (auto simp: handler_phase_def)
  show thesis
  proof (cases "sv_handlers (lf_server l) = (\<lambda>_. None)")
    case True
    with False have "lf_wg l = 0"
      using life_invD(5) [OF assms(1)] by (cases "lf_serve l") (simp_all add: counted_def)
    with assms(2) that [of WaitReturns] show thesis by simp
  next
    case False
    then obtain c ph where "handler_phase l c = Some ph" by (auto simp: fun_eq_iff free)
    moreover from this notgot have "ph \<noteq> Accepted" using life_invD(3) [OF assms(1)] by (auto simp: free)
    ultimately show thesis
      by (cases ph) (use that [of "HandlerRefuses c"] that [of "HandlerTracks c"]
        that [of "RelayUnblocked c"] relay_unblocked [OF assms] that [of "HandlerReturns c"] in auto)
  qed
qed

lemma finished_empty:
  assumes "life_inv l" "lf_shut l = Finished"
  shows "\<not> serve_alive (lf_serve l)" "sv_handlers (lf_server l) = (\<lambda>_. None)" "sv_open (lf_server l) = {}"
proof -
  have zero: "counted (sv_handlers (lf_server l)) (lf_serve l) = 0"
    using life_invD(5,7) [OF assms(1)] assms(2) by simp
  show none: "sv_handlers (lf_server l) = (\<lambda>_. None)" and "\<not> serve_alive (lf_serve l)"
    using counted_zero [OF zero life_invD(2) [OF assms(1)]] by blast+
  show "sv_open (lf_server l) = {}"
    using server_reachable_inv [OF life_invD(1) [OF assms(1)]] by (auto simp: server_inv_def none owned_def)
qed

lemma life_run_inv: "life_run es l = Some l' \<Longrightarrow> life_inv l \<Longrightarrow> life_inv l'"
  by (induction es l rule: life_run.induct) (auto dest: life_step_inv split: option.splits)

lemma run_waiting:
  "life_run es l = Some l' \<Longrightarrow> WaitExpires \<notin> set es \<Longrightarrow> lf_shut l = Waiting \<or> lf_shut l = Finished \<Longrightarrow>
    lf_shut l' = Waiting \<or> lf_shut l' = Finished"
proof (induction es l rule: life_run.induct)
  case (2 e es l)
  then obtain l1 where l1: "life_step e l = Some l1" "life_run es l1 = Some l'" by (auto split: option.splits)
  from l1(1) 2(3,4) have "lf_shut l1 = Waiting \<or> lf_shut l1 = Finished"
    by (cases e) (auto simp: Let_def split: if_splits serve_phase.splits option.splits hphase.splits)
  with 2 l1 show ?case by auto
qed simp

lemma measure_bound: "life_inv l \<Longrightarrow> life_measure l \<le> 3 * card (dom (sv_handlers (lf_server l))) + 3"
proof -
  assume inv: "life_inv l"
  have "phase_rank p \<le> 3" for p by (cases p) simp_all
  then have "(\<Sum>c \<in> dom (sv_handlers (lf_server l)). phase_rank (the (sv_handlers (lf_server l) c))) \<le>
      card (dom (sv_handlers (lf_server l))) * 3"
    using sum_bounded_above [of "dom (sv_handlers (lf_server l))" _ "3 :: nat"] by simp
  moreover have "serve_rank p \<le> 2" for p by (cases p) simp_all
  then have "serve_rank (lf_serve l) \<le> 2" .
  ultimately show ?thesis by (simp add: life_measure_def)
qed

section \<open>Properties\<close>

text \<open>
  Claim C12. \<open>Shutdown\<close> ends, and it ends clean, whatever the clients and destinations do. From any
  reachable state in which it waits, at most three steps per connection and three more are possible;
  and an execution that the server cannot carry on by itself, without the expiry of the context and
  without any peer ending a relay, is one in which \<open>Shutdown\<close> has returned, the accept loop and
  every handler have returned, and no client or upstream connection is open.
\<close>

theorem shutdown_ends_clean:
  assumes "life_reachable l" "lf_shut l = Waiting" "life_run es l = Some l'"
  shows "length es \<le> 3 * card (dom (sv_handlers (lf_server l))) + 3 \<and>
    (WaitExpires \<notin> set es \<and> (\<forall>e. \<not> outside_event e \<longrightarrow> life_step e l' = None) \<longrightarrow>
       lf_shut l' = Finished \<and> lf_serve l' \<in> {NotStarted, Ended} \<and>
       sv_handlers (lf_server l') = (\<lambda>_. None) \<and> sv_open (lf_server l') = {})"
proof -
  have inv: "life_inv l" by (rule life_reachable_inv [OF assms(1)])
  then have inv': "life_inv l'" by (rule life_run_inv [OF assms(3)])
  have "sv_closed (lf_server l)" using life_invD(6) [OF inv] assms(2) by simp
  then have "length es \<le> 3 * card (dom (sv_handlers (lf_server l))) + 3"
    using closed_run_bounded [OF assms(3) inv] measure_bound [OF inv] by linarith
  moreover have "lf_shut l' = Finished" if "WaitExpires \<notin> set es" "\<forall>e. \<not> outside_event e \<longrightarrow> life_step e l' = None"
    using run_waiting [OF assms(3) that(1)] waiting_progress [OF inv'] assms(2) that(2) by metis
  moreover have "lf_serve l' \<in> {NotStarted, Ended}" if "\<not> serve_alive (lf_serve l')"
    using that by (cases "lf_serve l'") auto
  ultimately show ?thesis using finished_empty [OF inv'] by blast
qed

text \<open>
  Shut down while one handler relays between peers that stay silent, a second has just dialled and a
  third client is being accepted.
\<close>

definition busy_events :: "life_event list" where
  "busy_events = [Listen, AcceptConn 0, TrackClient, SpawnHandler, HandlerDials 0 1, HandlerTracks 0,
     AcceptConn 2, TrackClient, SpawnHandler, HandlerDials 2 3, AcceptConn 4, CallShutdown]"

definition end_events :: "life_event list" where
  "end_events = [TrackClient, HandlerTracks 2, RelayUnblocked 0, HandlerReturns 2, HandlerReturns 0, WaitReturns]"

lemma life_run_reachable: "life_reachable l \<Longrightarrow> life_run es l = Some l' \<Longrightarrow> life_reachable l'"
  by (induction es l rule: life_run.induct) (auto intro: life_reachable.step split: option.splits)

lemma busy_run:
  "\<exists>l l'. life_run busy_events new_life = Some l \<and> lf_shut l = Waiting \<and> life_run end_events l = Some l' \<and>
     lf_shut l' = Finished"
  by (simp add: busy_events_def end_events_def new_life_def NewServer_def Let_def server_ops fresh_def handler_phase_def)

lemma finished_stuck: "lf_shut l = Finished \<Longrightarrow> life_inv l \<Longrightarrow> \<not> outside_event e \<Longrightarrow> life_step e l = None"
  using finished_empty [of l] by (cases e) (auto simp: handler_phase_def split: serve_phase.splits)

theorem shutdown_ends_clean_witness:
  "\<exists>l l'. life_run busy_events new_life = Some l \<and> life_run end_events l = Some l' \<and>
     lf_serve l' \<in> {NotStarted, Ended} \<and> sv_handlers (lf_server l') = (\<lambda>_. None) \<and> sv_open (lf_server l') = {}"
proof -
  from busy_run obtain l l' where l: "life_run busy_events new_life = Some l" "lf_shut l = Waiting"
    "life_run end_events l = Some l'" and fin: "lf_shut l' = Finished" by blast
  have reach: "life_reachable l" by (rule life_run_reachable [OF life_reachable.init l(1)])
  have stuck: "life_step e l' = None" if "\<not> outside_event e" for e
    by (rule finished_stuck [OF fin life_run_inv [OF l(3) life_reachable_inv [OF reach]] that])
  have quiet: "WaitExpires \<notin> set end_events" by (simp add: end_events_def)
  from shutdown_ends_clean [OF reach l(2,3)] l(1,3) quiet stuck show ?thesis by blast
qed

text \<open>
  Claim C22. The \<open>WaitGroup\<close> is used as its documentation demands. It counts exactly the goroutines
  that run: one for the accept loop and one for every handler it has started. No step makes it
  negative (which would panic). It is positive whenever something is added, except when \<open>Start\<close> adds
  the accept loop, before \<open>Shutdown\<close> is called; and once \<open>Wait\<close> has returned nothing changes it.
\<close>

theorem wait_group_counts_goroutines:
  assumes "life_reachable l"
  shows "lf_wg l = (if serve_alive (lf_serve l) then 1 else 0) +
      int (card {c. \<exists>ph. handler_phase l c = Some ph \<and> ph \<noteq> Accepted}) \<and>
    (\<forall>e l'. life_step e l = Some l' \<longrightarrow>
      0 \<le> lf_wg l' \<and>
      (lf_wg l < lf_wg l' \<longrightarrow> 0 < lf_wg l \<or> e = Listen \<and> lf_shut l = NotCalled) \<and>
      (lf_shut l = Finished \<longrightarrow> lf_wg l' = lf_wg l))"
proof -
  have inv: "life_inv l" by (rule life_reachable_inv [OF assms])
  have "{c. \<exists>ph. handler_phase l c = Some ph \<and> ph \<noteq> Accepted} = dom (sv_handlers (lf_server l)) - held (lf_serve l)"
  proof (cases "lf_serve l")
    case (Got c)
    then have "sv_handlers (lf_server l) c = Some Accepted" using life_invD(3) [OF inv] by blast
    moreover have "handler_phase l x \<noteq> Some Accepted" if "x \<noteq> c" for x
      using life_invD(3) [OF inv, of x] that Got by (auto simp: handler_phase_def)
    ultimately show ?thesis using Got by (force simp: handler_phase_def)
  qed (use life_invD(3) [OF inv] in \<open>auto simp: handler_phase_def\<close>)
  then have count: "lf_wg l = (if serve_alive (lf_serve l) then 1 else 0) +
      int (card {c. \<exists>ph. handler_phase l c = Some ph \<and> ph \<noteq> Accepted})"
    using life_invD(5) [OF inv] by (cases "lf_serve l") (simp_all add: counted_def)
  have "0 \<le> lf_wg l'" if "life_step e l = Some l'" for e l'
    using life_invD(5) [OF life_step_inv [OF that inv]] counted_nonneg by simp
  moreover have "0 < lf_wg l \<or> e = Listen \<and> lf_shut l = NotCalled" if "life_step e l = Some l'" "lf_wg l < lf_wg l'" for e l'
    using that count by (cases e) (auto simp: Let_def split: if_splits serve_phase.splits option.splits hphase.splits)
  moreover have "lf_wg l' = lf_wg l" if "life_step e l = Some l'" "lf_shut l = Finished" for e l'
  proof -
    have "lf_shut l' = Finished" using that
      by (cases e) (auto simp: Let_def split: if_splits serve_phase.splits option.splits hphase.splits)
    then show ?thesis using life_invD(7) [OF inv] life_invD(7) [OF life_step_inv [OF that(1) inv]] that(2) by simp
  qed
  ultimately show ?thesis using count by blast
qed

text \<open>Two handlers run beside the accept loop; then one of them returns.\<close>

definition two_handlers :: "life_event list" where
  "two_handlers = [Listen, AcceptConn 0, TrackClient, SpawnHandler, AcceptConn 2, TrackClient, SpawnHandler]"

lemma two_handlers_run:
  "\<exists>l. life_run two_handlers new_life = Some l \<and> lf_serve l = Accepting \<and> lf_wg l = 3"
  by (simp add: two_handlers_def new_life_def NewServer_def Let_def server_ops fresh_def handler_phase_def)

theorem wait_group_counts_goroutines_witness:
  "\<exists>l. life_run two_handlers new_life = Some l \<and> card {c. \<exists>ph. handler_phase l c = Some ph \<and> ph \<noteq> Accepted} = 2"
proof -
  from two_handlers_run obtain l where l: "life_run two_handlers new_life = Some l" "lf_serve l = Accepting" "lf_wg l = 3"
    by blast
  from wait_group_counts_goroutines [OF life_run_reachable [OF life_reachable.init l(1)]] l show ?thesis
    by (intro exI [of _ l]) simp
qed

end
