(* ===== verification/Spec2Isabelle.thy ===== *)
theory Spec2Isabelle
  imports Commands Debounce FileWatch Session Relay ServerLife
begin

text \<open>
  A model of ssh-autoproxy, a daemon and command line that make ssh's \<open>ProxyJump\<close> and a browser's
  proxy depend on the network the machine is in.

  The program. A configuration lists routes; each has host patterns and subnets, a jump host,
  profiles of the networks in which its destinations can be reached directly, and perhaps a SOCKS
  port. The daemon asks the system for the state of the network, evaluates every route's profiles,
  and keeps three things in line with the result: one ssh process per route that needs one
  (\<open>internal/tunnel\<close>), the table by which its front-door proxy sends a connection directly or
  through a route's ssh (\<open>internal/proxy\<close>), and a PAC file that tells browsers the same
  (\<open>internal/pac\<close>). It reloads its configuration, keeps a small state file and notifies the user of
  ssh failures. The commands \<open>check-ssh\<close>, \<open>status\<close>, \<open>install\<close> and \<open>update\<close> stand beside it.

  The theories, in the order of their imports:

  \<^item> \<open>Prelude\<close>, \<open>GoStrings\<close>, \<open>Paths\<close>, \<open>NetIP\<close>, \<open>PathMatch\<close>: what the program uses of Go's standard
    library, on byte strings: \<open>strings\<close>, \<open>strconv\<close>, UTF-8, \<open>bufio.Scanner\<close>, \<open>filepath\<close>, files replaced
    by rename, \<open>net\<close> and \<open>netip\<close> addresses and prefixes, \<open>path.Match\<close>.
  \<^item> \<open>Config\<close> (\<open>internal/config\<close>): the configuration types, \<open>Load\<close>, defaults and \<open>Validate\<close>, with the
    predicate \<open>valid_config\<close> that \<open>Validate\<close> is shown to decide. \<open>Duration\<close>: \<open>time.Duration\<close> as the
    configuration reads and writes it (\<open>ParseDuration\<close>, \<open>String\<close>, both methods of the codec) and
    \<open>int(d.Seconds())\<close> with the rounding of a 64-bit float.
  \<^item> \<open>Tunnel\<close> (\<open>internal/tunnel\<close>): reconnect delays on 64-bit words, classification of ssh's stderr,
    ssh's arguments, stale control sockets. \<open>Supervisor\<close>: the state machine of \<open>supervisor.go\<close>, its
    methods interleaved with the goroutines they start; the locale \<open>tunnel_control\<close> is what the daemon
    relies on.
  \<^item> \<open>NetState\<close> (\<open>internal/netstate\<close>): parsing what \<open>ip\<close> and \<open>nmcli\<close> print, and the evaluation of
    profiles.
  \<^item> \<open>ProxyTable\<close>, \<open>Socks\<close>, \<open>ProxyServer\<close> (\<open>internal/proxy\<close>): the routing table, both sides of SOCKS5,
    one client session as a function, and the bookkeeping of all connections as a step relation; the
    locale \<open>routing_policy\<close> is what a session needs of the table. Three theories go deeper into
    \<open>server.go\<close>: \<open>Session\<close> (which destination a client asks for and which one address is dialled),
    \<open>Relay\<close> (the two copying goroutines, chunk by chunk), \<open>ServerLife\<close> (the accept loop statement by
    statement, the handlers' deferred calls, the \<open>WaitGroup\<close>, \<open>Shutdown\<close> up to its return). A write of
    a relay blocks until its destination reads; a relay in \<open>ServerLife\<close> ends when its peers end it, or
    because \<open>Shutdown\<close> has closed both its connections.
  \<^item> \<open>Pac\<close> (\<open>internal/pac\<close>): the text of the PAC file, the rules it encodes and how a browser reads them.
  \<^item> \<open>StateStore\<close> (\<open>internal/state\<close>): the cooldown (locale \<open>cooldown_store\<close>) and the state file.
  \<^item> \<open>Daemon\<close>, \<open>DaemonRun\<close>, \<open>Reload\<close> (\<open>internal/daemon\<close>): one run of the daemon as a state machine over
    the components above, with its invariant; what a run guarantees; the loop that reloads the
    configuration. \<open>ErrorPath\<close>: the channels between ssh's stderr and the main loop (locale
    \<open>fifo_channel\<close>), and the network watcher. \<open>Policy\<close>: an abstract machine that only holds decisions,
    which the run refines, and the addresses a run binds and those \<open>Load\<close> listens on. \<open>FileWatch\<close>: the reload
    loop together with the file it watches, edited at any moment, each time with a later modification
    time. \<open>Debounce\<close>: the main loop with its clock, the debounce timer
    and the fallback ticker.
  \<^item> \<open>Update\<close> (\<open>internal/update\<close>), \<open>Commands\<close> (\<open>cmd/ssh-autoproxy\<close>, \<open>internal/notify\<close>).
  \<^item> this theory: properties from the network down to a connection.

  How the code is rendered. A struct is a record, an enumeration a datatype, a fallible function
  returns a sum or an option, a loop is a recursive function; Go strings are byte lists, \<open>Duration\<close> is
  a 64-bit word. Goroutines are step relations: the functions that run under a mutex, or between two
  points where the loop can block, are single steps, and the reachable states are those of every
  interleaving. Nothing has fuel: every function here terminates, loops that need not (the main loops)
  are step relations. Time is left out of them, except in \<open>Debounce\<close>, which takes the main loop to be
  prompt: it deals with what is ready before time passes, and looks at the network in no time. Files are
  written as sequences of states of the file system, those another process sees or a killed one
  leaves behind; what a power loss makes of data that is not synced is considered in \<open>StateStore\<close> only. What happens outside comes in as a parameter or with an event: the outputs of
  \<open>ip\<close>, \<open>nmcli\<close> and \<open>ssh -G\<close>, the clock, files and their modification times, whether an address can be
  bound or dialled and what is then read from it, YAML and JSON decoding, SHA-256, gzip and tar, HTTP,
  random numbers, Unicode case folding and printability of non-ASCII text.

  What the lemmas show. \<open>Config\<close>: exactly which configurations are accepted. \<open>Tunnel\<close>, \<open>Supervisor\<close>:
  bounds of the delays, one live goroutine while a tunnel is wanted and none otherwise. \<open>NetState\<close>:
  the parsers invert the formats; profiles match as documented. \<open>ProxyTable\<close>: the
  table implements the routing rule \<open>routing_spec\<close>; \<open>Pac\<close>: a browser goes by \<open>pac_spec\<close>, the same rule on
  patterns as written and resolved addresses, and where the two part. \<open>Socks\<close>, \<open>ProxyServer\<close>: the exact requests accepted,
  the replies sent, transparency of a relayed session, no direct dial for a tunnelled destination,
  nothing open after \<open>Shutdown\<close>; \<open>Session\<close>, \<open>Relay\<close>, \<open>ServerLife\<close>: one address per session, every
  interleaving relays the same bytes and ends when its peers let it or its connections are closed,
  \<open>Shutdown\<close> returns with nothing left running. \<open>StateStore\<close>, \<open>Update\<close>: no process finds a half-written
  file; only verified binaries are installed. \<open>DaemonRun\<close>: in every reachable state tunnels, table and PAC file follow one
  snapshot of the network. \<open>Policy\<close>: the run refines the abstract machine; every address of an accepted
  configuration is on the loopback interface. \<open>Debounce\<close>: how soon a change of the network is seen.
  \<open>ErrorPath\<close>: failures are forwarded in order and delivered, and lost only by a full channel. \<open>Reload\<close>,
  \<open>FileWatch\<close>: the configuration that runs is always a valid one, every earlier run is torn down, and what
  runs converges to the file. \<open>Duration\<close>: the codec reads back what it
  writes. \<open>Commands\<close>: \<open>check-ssh\<close> and \<open>status\<close> agree with the daemon. Some lemmas record behaviour that is not intended: listeners aliased
  through two spellings of an address, an overflow of the delay, two ssh processes of one route alive
  at once, a subnet with a leading zero, a line break or a blank in a route's name, IPv6 bind addresses
  without brackets, an empty PAC file without routes, edits the watcher cannot see, an edit with a
  PAC port out of range that ends the daemon, a polling period so short that the network is never
  looked at again, a port picked on all interfaces for a configuration that is then rejected, names that
  resolve into a subnet and patterns with capital letters, on which PAC file and table differ, a state
  file that a power loss truncates.

  Not modelled: the declarations of commands and flags (cobra), log messages, the wording of errors
  other than as constructors, deadlines and timeouts on connections, the running of subprocesses
  beyond their output and exit, permissions other than those of the installed binary, the JSON and
  YAML text itself.
\<close>

section \<open>Properties across components\<close>

lemma Evaluate_needed: "snd (Evaluate ps ns) \<longleftrightarrow> \<not> list_ex (\<lambda>p. profileMatches p ns) ps"
  by (induction ps) auto

lemma routing_spec_decisions:
  assumes "distinct (map r_Name routes)"
  shows "routing_spec (decisions_of ns routes) routes h =
    (case find (\<lambda>r. r_SocksProxy r \<noteq> None \<and> covers r h) routes of
       None \<Rightarrow> \<lparr>d_Route = [], d_Upstream = []\<rparr>
     | Some r \<Rightarrow> \<lparr>d_Route = r_Name r, d_Upstream =
         (if list_ex (\<lambda>p. profileMatches p ns) (r_DirectProfiles r) then []
          else case r_SocksProxy r of None \<Rightarrow> [] | Some sp \<Rightarrow> upstream_addr sp)\<rparr>)"
proof (cases "find (\<lambda>r. r_SocksProxy r \<noteq> None \<and> covers r h) routes")
  case None
  then show ?thesis by (simp add: routing_spec_def)
next
  case (Some r)
  then have "r \<in> set routes \<and> r_SocksProxy r \<noteq> None"
    unfolding find_Some_iff by (elim exE conjE) (simp add: nth_mem)
  then obtain sp where sp: "r_SocksProxy r = Some sp" and mem: "r \<in> set routes" by auto
  have "decisions_of ns routes (r_Name r) = Some (\<not> list_ex (\<lambda>p. profileMatches p ns) (r_DirectProfiles r))"
    using decisions_of_name [OF assms mem] by (simp add: needs_proxy_def Evaluate_needed)
  then show ?thesis unfolding routing_spec_def Some by (simp add: sp)
qed

lemma follows_network:
  assumes "daemon_reachable is_print uni rng cfg d" "valid_config cfg"
    and "list_all (\<lambda>r. list_all plain_pattern (r_HostPatterns r)) (c_Routes cfg)" "host_name host"
    and "d_table (applyState is_print cfg (Inr ns) d) = Some t"
  shows "Decide uni t host =
    (case find (\<lambda>r. r_SocksProxy r \<noteq> None \<and> covers r (trim_suffix (map lower_char host) ''.'')) (c_Routes cfg) of
       None \<Rightarrow> \<lparr>d_Route = [], d_Upstream = []\<rparr>
     | Some r \<Rightarrow> \<lparr>d_Route = r_Name r, d_Upstream =
         (if list_ex (\<lambda>p. profileMatches p ns) (r_DirectProfiles r) then []
          else case r_SocksProxy r of None \<Rightarrow> [] | Some sp \<Rightarrow> upstream_addr sp)\<rparr>)"
proof -
  have "synced is_print uni cfg ns (applyState is_print cfg (Inr ns) d)"
    by (rule applyState_synced [OF reachable_in_step [OF assms(1,2)] valid_distinct [OF assms(2)]])
  then have "t = Update (decisions_of ns (c_Routes cfg)) (NewTable uni (c_Routes cfg))"
    using assms(5) by (auto simp: synced_def Let_def split: if_splits)
  then show ?thesis
    using Decide_routing_spec [OF assms(3,4)] routing_spec_decisions [OF valid_distinct [OF assms(2)]] by simp
qed

text \<open>
  Claim C1. The policy, from the network to a connection: once the daemon, in any reachable state,
  has applied a snapshot of the network, the front door sends a connection to the first route (with
  a SOCKS proxy) that covers the destination: directly if the snapshot satisfies one of that route's
  direct profiles, through that route's ssh if it satisfies none, and directly without a route.
\<close>

theorem connection_follows_network:
  assumes "daemon_reachable is_print uni rng cfg d" "valid_config cfg"
    and "list_all (\<lambda>r. list_all plain_pattern (r_HostPatterns r)) (c_Routes cfg)" "host_name host"
    and "d_table (applyState is_print cfg (Inr ns) d) = Some t"
  shows "Decide uni t host =
    (case find (\<lambda>r. r_SocksProxy r \<noteq> None \<and> covers r (trim_suffix (map lower_char host) ''.'')) (c_Routes cfg) of
       None \<Rightarrow> \<lparr>d_Route = [], d_Upstream = []\<rparr>
     | Some r \<Rightarrow> \<lparr>d_Route = r_Name r, d_Upstream =
         (if list_ex (\<lambda>p. profileMatches p ns) (r_DirectProfiles r) then []
          else case r_SocksProxy r of None \<Rightarrow> [] | Some sp \<Rightarrow> upstream_addr sp)\<rparr>)"
  by (rule follows_network [OF assms])

theorem connection_follows_network_witness:
  "\<exists>t. Decide id t ''wiki.lan'' = \<lparr>d_Route = ''home'', d_Upstream = ''127.0.0.1:1080''\<rparr>"
proof -
  let ?ns = "\<lparr>ns_SSID = [], ns_Gateway = [], ns_Address = []\<rparr>"
  obtain t where t: "d_table (applyState (\<lambda>_. False) lan_config (Inr ?ns) (started (Inl []))) = Some t"
    using applyState_synced [OF reachable_in_step [OF started_reachable [of "\<lambda>_. 0" "Inl []"] valid_lan_config]
        valid_distinct [OF valid_lan_config], of ?ns]
    by (auto simp: synced_def Let_def lan_config_def Default_def)
  have "covers lan_route (trim_suffix (map lower_char ''wiki.lan'') ''.'')" by code_simp
  moreover have "list_all (\<lambda>r. list_all plain_pattern (r_HostPatterns r)) (c_Routes lan_config)"
    by (simp add: lan_config_def Default_def lan_route_def wiki_route_def plain_pattern_def
        is_ascii_def simple_pattern_def)
  moreover have "upstream_addr \<lparr>sp_Active = False, sp_Bind = ''127.0.0.1'', sp_Port = 1080\<rparr> = ''127.0.0.1:1080''"
    by code_simp
  ultimately show ?thesis
    using connection_follows_network [OF started_reachable [of "\<lambda>_. 0"] valid_lan_config _ wiki_lan(2) t]
    by (simp add: lan_config_def Default_def lan_route_def wiki_route_def) blast
qed

text \<open>
  Claim C2. A session through a tunnel, from the network to the bytes the client gets. Once the
  daemon, in any reachable state, has applied a snapshot of the network, a client that asks for a
  destination whose first route is not reachable directly there is served through that route's
  \<open>ssh -D\<close> on the loopback interface and through nothing else: what it gets does not depend on any
  other address, so neither the destination nor another route's tunnel is dialled; and while the
  tunnel is down the connection is closed and nothing is relayed.
\<close>

theorem tunnelled_session_end_to_end:
  assumes "daemon_reachable is_print uni rng cfg d" "valid_config cfg"
    and "list_all (\<lambda>r. list_all plain_pattern (r_HostPatterns r)) (c_Routes cfg)" "host_name host"
    and "d_table (applyState is_print cfg (Inr ns) d) = Some t"
    and "requested_target rr client = Some (host, port)"
    and "find (\<lambda>r. r_SocksProxy r \<noteq> None \<and> covers r (trim_suffix (map lower_char host) ''.'')) (c_Routes cfg) = Some r"
    and "r_SocksProxy r = Some sp" "\<not> list_ex (\<lambda>p. profileMatches p ns) (r_DirectProfiles r)"
    and "tcp (upstream_addr sp) = tcp' (upstream_addr sp)"
  shows "handle rr err_text (Decide uni t) tcp shut client = handle rr err_text (Decide uni t) tcp' shut client \<and>
    (\<forall>e. tcp (upstream_addr sp) = Inl e \<longrightarrow> (\<exists>c. handle rr err_text (Decide uni t) tcp shut client = Closed c)) \<and>
    loopback_host (sp_Bind sp)"
proof -
  have dec: "Decide uni t host = \<lparr>d_Route = r_Name r, d_Upstream = upstream_addr sp\<rparr>"
    using follows_network [OF assms(1-5)] assms(7-9) by simp
  then have up: "dialled (Decide uni t) host port = upstream_addr sp"
    by (simp add: dialled_def upstream_addr_def join_host_port_def)
  have "r \<in> set (c_Routes cfg)" using assms(7) unfolding find_Some_iff by (auto simp: nth_mem)
  from valid_loopback(3) [OF assms(2) this assms(8)]
    handle_depends [of rr client tcp "Decide uni t" tcp' err_text shut]
    handle_refused [of rr client host port tcp "Decide uni t" _ err_text shut]
  show ?thesis using assms(6,10) up by simp
qed

lemma wiki_covered:
  "find (\<lambda>r. r_SocksProxy r \<noteq> None \<and> covers r (trim_suffix (map lower_char ''wiki.lan'') ''.'')) [lan_route] = Some lan_route"
proof -
  have "covers lan_route (trim_suffix (map lower_char ''wiki.lan'') ''.'')" by code_simp
  then show ?thesis by (simp add: lan_route_def wiki_route_def)
qed

lemma wiki_upstream: "upstream_addr \<lparr>sp_Active = False, sp_Bind = ''127.0.0.1'', sp_Port = 1080\<rparr> = ''127.0.0.1:1080''"
  by code_simp

theorem tunnelled_session_end_to_end_witness:
  "\<exists>t c. handle (\<lambda>_. None) (\<lambda>_. []) (Decide id t)
      (\<lambda>a. if a = ''127.0.0.1:1080'' then Inl ConnRefused else Inr \<lparr>c_in = [], c_out = [], c_room = 0\<rparr>)
      False wiki_client = Closed c"
proof -
  let ?tcp = "\<lambda>a. if a = ''127.0.0.1:1080'' then Inl ConnRefused else Inr \<lparr>c_in = [], c_out = [], c_room = 0\<rparr>"
  let ?sp = "\<lparr>sp_Active = False, sp_Bind = ''127.0.0.1'', sp_Port = 1080\<rparr>"
  obtain t where t: "d_table (applyState (\<lambda>_. False) lan_config (Inr no_network) (started (Inl []))) = Some t"
    using applyState_synced [OF reachable_in_step [OF started_reachable [of "\<lambda>_. 0" "Inl []"] valid_lan_config]
        valid_distinct [OF valid_lan_config], of no_network]
    by (auto simp: synced_def Let_def lan_config_def Default_def)
  have plain: "list_all (\<lambda>r. list_all plain_pattern (r_HostPatterns r)) (c_Routes lan_config)"
    by (simp add: lan_config_def Default_def lan_route_def wiki_route_def plain_pattern_def
        is_ascii_def simple_pattern_def)
  have route: "r_SocksProxy lan_route = Some ?sp" "\<not> list_ex (\<lambda>p. profileMatches p no_network) (r_DirectProfiles lan_route)"
    by (simp_all add: lan_route_def wiki_route_def)
  have first: "find (\<lambda>r. r_SocksProxy r \<noteq> None \<and> covers r (trim_suffix (map lower_char ''wiki.lan'') ''.''))
      (c_Routes lan_config) = Some lan_route" using wiki_covered by (simp add: lan_config_def)
  have "?tcp (upstream_addr ?sp) = Inl ConnRefused" by (simp add: wiki_upstream)
  with tunnelled_session_end_to_end [where tcp = ?tcp and tcp' = ?tcp and rr = "\<lambda>_. None" and err_text = "\<lambda>_. []"
      and shut = False, OF started_reachable [of "\<lambda>_. 0"] valid_lan_config plain wiki_lan(2) t
      wiki_client_target first route refl]
  show ?thesis by blast
qed

text \<open>
  The address the proxy, the PAC file and \<open>status\<close> use for a route is the one ssh is told
  to forward, \<open>-D bind:port\<close>, exactly if the bind address has no colon: on \<open>::1\<close>, which \<open>Validate\<close>
  accepts, ssh is given \<open>::1:1080\<close> while everything else dials \<open>[::1]:1080\<close>.
\<close>

theorem forward_address_agrees:
  assumes "r_SocksProxy r = Some sp"
  shows "\<exists>pre. sshArgs r ssh verbose = pre @ [''-D'', listen_addr (sp_Bind sp) (sp_Port sp), r_JumpHost r] \<and>
    (listen_addr (sp_Bind sp) (sp_Port sp) = upstream_addr sp \<longleftrightarrow> CHR '':'' \<notin> set (sp_Bind sp))"
  using assms by (auto simp: sshArgs_def upstream_addr_def join_host_port_listen)
     (auto simp: listen_addr_def join_host_port_def)

theorem forward_address_agrees_witness:
  "\<exists>pre. sshArgs lan_route ssh False = pre @ [''-D'', listen_addr ''127.0.0.1'' 1080, ''gw'']"
proof -
  let ?sp = "\<lparr>sp_Active = False, sp_Bind = ''127.0.0.1'', sp_Port = 1080\<rparr>"
  have "r_SocksProxy lan_route = Some ?sp" "r_JumpHost lan_route = ''gw''"
    by (simp_all add: lan_route_def wiki_route_def)
  with forward_address_agrees [OF this(1), of ssh False] show ?thesis by auto
qed

end
